(* ===== verification/Guac_Prelude.thy ===== *)
theory Guac_Prelude
  imports Main "HOL-Library.Monad_Syntax"
begin

section \<open>Prelude: the JavaScript values the Guacamole client computes with\<close>

text \<open>
  The browser half of Signari's remote access is
  \<^verbatim>\<open>src/engine/internal/rac/static/guacamole-common.js\<close>. This theory holds what every
  component of it shares: strings as lists of UTF-16 code units, the string and number
  primitives of the language that the code calls (\<^verbatim>\<open>substring\<close>, \<^verbatim>\<open>indexOf\<close>,
  \<^verbatim>\<open>parseInt\<close>, conversion of a number to a string), the event trace a component leaves,
  and the generic lemmas on lists that the component proofs use.

  A JavaScript string is a sequence of 16-bit code units; a code unit is a \<^typ>\<open>nat\<close>
  below 65536 (\<open>js_wf\<close> says so where it matters). A number that came out of
  \<^verbatim>\<open>parseInt\<close> is an \<^typ>\<open>int option\<close>, with \<open>None\<close> for \<^verbatim>\<open>NaN\<close>; the rounding of
  integers above \<^verbatim>\<open>2^53\<close> is not modelled.
\<close>

named_theorems js_simps \<open>facts about the string primitives on symbolic strings\<close>
named_theorems js_eval \<open>unfolding of the string primitives on closed strings\<close>
named_theorems js_wf_intros \<open>code units stay below 65536\<close>

type_synonym code_unit = nat
type_synonym jsstring = "code_unit list"
type_synonym jsnum = "int option"

definition js :: "string \<Rightarrow> jsstring" where
  "js s = map of_char s"

definition js_wf :: "jsstring \<Rightarrow> bool" where
  "js_wf s = list_all (\<lambda>c. c < 65536) s"

subsection \<open>substring and indexOf\<close>

text \<open>
  \<^verbatim>\<open>s.substring(a, b)\<close> clamps both arguments into the string and swaps them if they are
  out of order.
\<close>

definition js_substring :: "jsstring \<Rightarrow> int \<Rightarrow> int \<Rightarrow> jsstring" where
  "js_substring s a b =
     (let n = int (length s);
          a' = min (max a 0) n;
          b' = min (max b 0) n;
          lo = nat (min a' b');
          hi = nat (max a' b')
      in take (hi - lo) (drop lo s))"

fun find_unit :: "code_unit \<Rightarrow> jsstring \<Rightarrow> nat option" where
  "find_unit c [] = None"
| "find_unit c (x # xs) = (if x = c then Some 0 else map_option Suc (find_unit c xs))"

definition js_index_of :: "jsstring \<Rightarrow> code_unit \<Rightarrow> int \<Rightarrow> int" where
  "js_index_of s c from =
     (let k = nat (min (max from 0) (int (length s)))
      in case find_unit c (drop k s) of None \<Rightarrow> -1 | Some i \<Rightarrow> int (k + i))"

subsection \<open>Numbers to strings and back\<close>

fun nat_str :: "nat \<Rightarrow> jsstring" where
  "nat_str n = (if n < 10 then [48 + n] else nat_str (n div 10) @ [48 + n mod 10])"

declare nat_str.simps [simp del]

definition int_str :: "int \<Rightarrow> jsstring" where
  "int_str i = (if i < 0 then 45 # nat_str (nat (- i)) else nat_str (nat i))"

definition js_space :: "code_unit \<Rightarrow> bool" where
  "js_space c \<longleftrightarrow> c \<in> {9, 10, 11, 12, 13, 32, 160, 5760, 8232, 8233, 8239, 8287, 12288, 65279}
     \<or> (8192 \<le> c \<and> c \<le> 8202)"

definition digit_val :: "code_unit \<Rightarrow> nat option" where
  "digit_val c =
     (if 48 \<le> c \<and> c \<le> 57 then Some (c - 48)
      else if 65 \<le> c \<and> c \<le> 90 then Some (c - 55)
      else if 97 \<le> c \<and> c \<le> 122 then Some (c - 87)
      else None)"

definition is_digit :: "nat \<Rightarrow> code_unit \<Rightarrow> bool" where
  "is_digit r c = (case digit_val c of None \<Rightarrow> False | Some d \<Rightarrow> d < r)"

definition digits_value :: "nat \<Rightarrow> jsstring \<Rightarrow> nat" where
  "digits_value r ds = foldl (\<lambda>a c. a * r + the (digit_val c)) 0 ds"

text \<open>
  \<^verbatim>\<open>parseInt(s, r)\<close>: skip white space, read a sign, drop a \<^verbatim>\<open>0x\<close> prefix (which makes the
  radix 16), read the longest run of digits, and give \<^verbatim>\<open>NaN\<close> if there is none. The code
  calls it with no radix, which is 10 unless the prefix is there, or with radix 16.
\<close>

definition parse_digits :: "nat \<Rightarrow> jsstring \<Rightarrow> jsnum" where
  "parse_digits r s =
     (let hex = (take 2 s = [48, 120] \<or> take 2 s = [48, 88]);
          r' = (if hex then 16 else r);
          ds = takeWhile (is_digit r') (if hex then drop 2 s else s)
      in if ds = [] then None else Some (int (digits_value r' ds)))"

definition parse_int_radix :: "nat \<Rightarrow> jsstring \<Rightarrow> jsnum" where
  "parse_int_radix r s =
     (case dropWhile js_space s of
        [] \<Rightarrow> None
      | c # cs \<Rightarrow>
          if c = 45 then map_option uminus (parse_digits r cs)
          else if c = 43 then parse_digits r cs
          else parse_digits r (c # cs))"

definition parse_int :: "jsstring \<Rightarrow> jsnum" where
  "parse_int s = parse_int_radix 10 s"

lemmas js_prims [js_eval] =
  js_def js_substring_def js_index_of_def parse_int_def parse_int_radix_def parse_digits_def
  js_space_def is_digit_def digit_val_def digits_value_def int_str_def nat_str.simps Let_def

subsection \<open>Facts about the primitives\<close>

lemma js_Nil [simp]: "js [] = []"
  by (simp add: js_def)

lemma js_append [simp]: "js (s @ t) = js s @ js t"
  by (simp add: js_def)

lemma length_js [simp]: "length (js s) = length s"
  by (simp add: js_def)

lemma of_char_less_256: "(of_char c :: nat) < 256"
  by (cases c) (simp add: of_char_def split: bool.split)

lemma js_wf_js [js_wf_intros]: "js_wf (js s)"
  by (auto simp: js_wf_def js_def list_all_iff intro: less_trans [OF of_char_less_256])

lemma js_wf_append [simp]: "js_wf (s @ t) \<longleftrightarrow> js_wf s \<and> js_wf t"
  by (simp add: js_wf_def)

lemma js_wf_Cons [simp]: "js_wf (c # s) \<longleftrightarrow> c < 65536 \<and> js_wf s"
  by (simp add: js_wf_def)

lemma js_wf_Nil [simp]: "js_wf []"
  by (simp add: js_wf_def)

lemma js_wf_take [js_wf_intros]: "js_wf s \<Longrightarrow> js_wf (take n s)"
  by (auto simp: js_wf_def list_all_iff dest: in_set_takeD)

lemma js_wf_drop [js_wf_intros]: "js_wf s \<Longrightarrow> js_wf (drop n s)"
  by (auto simp: js_wf_def list_all_iff dest: in_set_dropD)

lemma js_substring_in_range:
  "0 \<le> a \<Longrightarrow> a \<le> b \<Longrightarrow> b \<le> int (length s) \<Longrightarrow>
   js_substring s a b = take (nat (b - a)) (drop (nat a) s)"
  by (simp add: js_substring_def Let_def nat_diff_distrib)

lemma find_unit_None_iff: "find_unit c s = None \<longleftrightarrow> c \<notin> set s"
  by (induction s) auto

lemma find_unit_SomeD:
  "find_unit c s = Some i \<Longrightarrow> i < length s \<and> s ! i = c \<and> c \<notin> set (take i s)"
proof (induction s arbitrary: i)
  case (Cons x xs)
  then show ?case by (cases i) (auto split: if_splits)
qed simp

lemma find_unit_append:
  "find_unit c (s @ t) =
     (case find_unit c s of Some i \<Rightarrow> Some i | None \<Rightarrow> map_option (\<lambda>i. length s + i) (find_unit c t))"
  by (induction s; cases "find_unit c t") (auto split: option.splits)

lemma find_unit_hit: "c \<notin> set s \<Longrightarrow> find_unit c (s @ c # t) = Some (length s)"
  by (induction s) auto

lemma js_index_of_cases:
  obtains (none) "js_index_of s c from = -1" "c \<notin> set (drop (nat from) s)"
  | (some) i where "js_index_of s c from = int i" "nat from \<le> i" "i < length s" "s ! i = c"
      "c \<notin> set (take (i - nat from) (drop (nat from) s))"
proof -
  define k where "k = nat (min (max from 0) (int (length s)))"
  have dk: "drop k s = drop (nat from) s"
    by (cases "nat from \<le> length s") (auto simp: k_def nat_le_iff min_def max_def)
  show thesis
  proof (cases "find_unit c (drop k s)")
    case None
    then have "js_index_of s c from = -1" "c \<notin> set (drop (nat from) s)"
      using dk unfolding js_index_of_def Let_def k_def [symmetric]
      by (simp_all add: find_unit_None_iff [symmetric])
    then show ?thesis by (rule that(1))
  next
    case (Some i)
    with find_unit_SomeD [OF Some] have i: "i < length (drop k s)" "drop k s ! i = c"
      "c \<notin> set (take i (drop k s))" by auto
    then have "k < length s" by simp
    then have "k = nat from" by (auto simp: k_def min_def max_def split: if_splits)
    with Some i show ?thesis
      using that(2) [of "k + i"] unfolding js_index_of_def Let_def k_def [symmetric] by simp
  qed
qed

lemma js_index_of_bounds:
  "js_index_of s c from \<noteq> -1 \<Longrightarrow>
   max from 0 \<le> js_index_of s c from \<and> js_index_of s c from < int (length s)"
  by (rule js_index_of_cases [of s c "from"]) auto

subsection \<open>Decimal strings\<close>

lemma nat_str_nonempty [simp]: "nat_str n \<noteq> []"
  by (subst nat_str.simps) simp

lemma nat_str_digits: "c \<in> set (nat_str n) \<Longrightarrow> 48 \<le> c \<and> c \<le> 57"
proof (induction n rule: nat_str.induct)
  case (1 n)
  show ?case
  proof (cases "n < 10")
    case True
    with "1.prems" show ?thesis by (simp add: nat_str.simps [of n])
  next
    case False
    with "1.prems" have "c \<in> set (nat_str (n div 10)) \<or> c = 48 + n mod 10"
      by (auto simp: nat_str.simps [of n])
    with "1.IH" [OF False] show ?thesis by auto
  qed
qed

lemma digits_value_snoc:
  "digits_value r (ds @ [c]) = digits_value r ds * r + the (digit_val c)"
  by (simp add: digits_value_def)

lemma digits_value_nat_str: "digits_value 10 (nat_str n) = n"
proof (induction n rule: nat_str.induct)
  case (1 n)
  show ?case
  proof (cases "n < 10")
    case True
    then show ?thesis
      by (simp add: nat_str.simps [of n] digits_value_def digit_val_def)
  next
    case False
    with 1 have "digits_value 10 (nat_str (n div 10)) = n div 10" by simp
    moreover have "the (digit_val (48 + n mod 10)) = n mod 10"
      using mod_less_divisor [of 10 n] by (simp add: digit_val_def del: mod_less_divisor)
    ultimately show ?thesis
      using False by (simp add: nat_str.simps [of n] digits_value_snoc)
  qed
qed

lemma is_digit_10: "is_digit 10 c \<longleftrightarrow> 48 \<le> c \<and> c \<le> 57"
  by (auto simp: is_digit_def digit_val_def)

lemma parse_digits_nat_str:
  assumes "\<not> (s \<noteq> [] \<and> is_digit 10 (hd s))" and "s = [] \<or> hd s \<noteq> 120 \<and> hd s \<noteq> 88"
  shows "parse_digits 10 (nat_str n @ s) = Some (int n)"
proof -
  have dig: "\<forall>c \<in> set (nat_str n). is_digit 10 c"
    by (auto simp: is_digit_10 dest: nat_str_digits)
  obtain c cs where cs: "nat_str n = c # cs" by (cases "nat_str n") auto
  have no_x: "take 2 (nat_str n @ s) \<noteq> [48, x]" if "x = 120 \<or> x = 88" for x
    using assms(2) dig that
    by (cases cs; cases s) (auto simp: cs is_digit_10)
  have "takeWhile (is_digit 10) (nat_str n @ s) = nat_str n"
    using dig assms(1) by (subst takeWhile_append2) (cases s; auto)+
  with no_x show ?thesis
    by (simp add: parse_digits_def Let_def digits_value_nat_str)
qed

lemma parse_int_nat_str [js_simps]: "parse_int (nat_str n) = Some (int n)"
proof -
  obtain c cs where cs: "nat_str n = c # cs" by (cases "nat_str n") auto
  then have c: "48 \<le> c" "c \<le> 57" using nat_str_digits [of c n] by auto
  then have "\<not> js_space c" by (auto simp: js_space_def)
  with c cs have "parse_int (nat_str n) = parse_digits 10 (nat_str n @ [])"
    by (simp add: parse_int_def parse_int_radix_def)
  then show ?thesis
    by (simp only: parse_digits_nat_str list.sel simp_thms)
qed

lemma nat_str_no_unit: "c < 48 \<or> 57 < c \<Longrightarrow> c \<notin> set (nat_str n)"
  using nat_str_digits [of c n] by auto

lemma js_wf_nat_str [js_wf_intros, simp]: "js_wf (nat_str n)"
  by (auto simp: js_wf_def list_all_iff dest: nat_str_digits)

subsection \<open>Reading at a position\<close>

lemma js_index_of_at:
  "c \<notin> set s \<Longrightarrow> js_index_of (pre @ s @ c # t) c (int (length pre)) = int (length pre + length s)"
  by (simp add: js_index_of_def Let_def find_unit_hit)

lemma js_index_of_none: "c \<notin> set t \<Longrightarrow> js_index_of (pre @ t) c (int (length pre)) = -1"
  by (simp add: js_index_of_def Let_def find_unit_None_iff [THEN iffD2])

lemma js_substring_at:
  "js_substring (pre @ s @ t) (int (length pre)) (int (length pre + length s)) = s"
  by (simp add: js_substring_in_range)

lemma js_substring_append:
  assumes "a \<le> int (length s)" and "b \<le> int (length s)"
  shows "js_substring (s @ t) a b = js_substring s a b"
proof -
  have m: "min (max x 0) (int (length (s @ t))) = max x 0" "min (max x 0) (int (length s)) = max x 0"
    if "x \<le> int (length s)" for x
    using that by (simp_all add: min_def max_def)
  define lo hi where "lo = nat (min (max a 0) (max b 0))" and "hi = nat (max (max a 0) (max b 0))"
  have "hi \<le> length s" using assms by (auto simp: hi_def max_def)
  then show ?thesis
    unfolding js_substring_def Let_def m [OF assms(1)] m [OF assms(2)] lo_def [symmetric] hi_def [symmetric]
    by simp
qed

lemma js_index_of_append:
  assumes "k \<le> int (length s)"
  shows "js_index_of (s @ t) c k =
    (if js_index_of s c k = -1 then js_index_of (s @ t) c (int (length s)) else js_index_of s c k)"
proof -
  define n where "n = nat (max k 0)"
  have n: "nat (min (max k 0) (int (length (s @ t)))) = n" "nat (min (max k 0) (int (length s))) = n"
    "nat (min (max (int (length s)) 0) (int (length (s @ t)))) = length s" "n \<le> length s"
    using assms by (auto simp: n_def min_def)
  show ?thesis
    unfolding js_index_of_def Let_def n
    using n(4) by (cases "find_unit c (drop n s)"; cases "find_unit c t") (simp_all add: find_unit_append)
qed

end
