(* ===== verification/Tool_Prelude.thy ===== *)
theory Tool_Prelude
  imports Guac_Prelude
begin

section \<open>Prelude of the command line tools\<close>

text \<open>
  What the scripts under \<^verbatim>\<open>src/tools\<close> and \<^verbatim>\<open>src/interop\<close> share: the string methods they call, JSON values and
  what the language makes of them, an object built by \<^verbatim>\<open>Object.fromEntries\<close>, and the list of checks with its exit code.
  Text of these scripts is a \<^typ>\<open>string\<close>; a missing value (\<^verbatim>\<open>undefined\<close> or \<^verbatim>\<open>null\<close>) is \<open>None\<close>.
\<close>

named_theorems tool_simps \<open>unfolding of the string methods and of JSON access\<close>

subsection \<open>Strings\<close>

definition starts_with :: "string \<Rightarrow> string \<Rightarrow> bool" where
  "starts_with s p = (take (length p) s = p)"

text \<open>\<^verbatim>\<open>s.includes(t)\<close>.\<close>

fun contains :: "string \<Rightarrow> string \<Rightarrow> bool" where
  "contains [] t = (t = [])"
| "contains (c # s) t = (starts_with (c # s) t \<or> contains s t)"

text \<open>\<^verbatim>\<open>s.split(c)\<close> for a separator of one character, and \<^verbatim>\<open>join\<close>.\<close>

fun split_at :: "char \<Rightarrow> string \<Rightarrow> string list" where
  "split_at c [] = [[]]"
| "split_at c (x # xs) =
     (if x = c then [] # split_at c xs
      else case split_at c xs of [] \<Rightarrow> [[x]] | p # ps \<Rightarrow> (x # p) # ps)"

fun join :: "string \<Rightarrow> string list \<Rightarrow> string" where
  "join s [] = []"
| "join s [p] = p"
| "join s (p # q # ps) = p @ s @ join s (q # ps)"

definition is_space :: "char \<Rightarrow> bool" where
  "is_space c = ((of_char c :: nat) \<in> {9, 10, 11, 12, 13, 32, 160})"

definition trim :: "string \<Rightarrow> string" where
  "trim s = rev (dropWhile is_space (rev (dropWhile is_space s)))"

text \<open>A string is true unless it is empty, and a missing one is false.\<close>

definition truthy :: "string option \<Rightarrow> bool" where
  "truthy s = (case s of None \<Rightarrow> False | Some s \<Rightarrow> s \<noteq> [])"

definition or_else :: "string option \<Rightarrow> string \<Rightarrow> string" where
  "or_else s d = (if truthy s then the s else d)"

text \<open>\<^verbatim>\<open>Object.fromEntries\<close>: of two entries with the same key the later one counts.\<close>

definition from_entries :: "('k \<times> 'v) list \<Rightarrow> 'k \<rightharpoonup> 'v" where
  "from_entries es = map_of (rev es)"

lemma split_at_not_Nil [simp]: "split_at c s \<noteq> []"
  by (cases s) (auto split: list.split)

lemma split_at_no_sep: "c \<notin> set s \<Longrightarrow> split_at c s = [s]"
  by (induction s) auto

lemma split_at_sep: "c \<notin> set p \<Longrightarrow> split_at c (p @ c # s) = p # split_at c s"
  by (induction p) auto

lemma join_split_at [simp]: "join [c] (split_at c s) = s"
proof (induction s)
  case (Cons x xs)
  then show ?case
    by (cases "split_at c xs"; cases "tl (split_at c xs)") auto
qed simp

lemma trim_no_space:
  assumes "s \<noteq> []" and "\<not> is_space (hd s)" and "\<not> is_space (last s)"
  shows "trim s = s"
proof -
  have "dropWhile is_space s = s" and "dropWhile is_space (rev s) = rev s"
    using assms by (simp_all add: dropWhile_eq_self_iff hd_rev)
  then show ?thesis by (simp add: trim_def)
qed

lemma trim_Nil [simp]: "trim [] = []"
  by (simp add: trim_def)

lemma from_entries_append: "from_entries (xs @ ys) = from_entries xs ++ from_entries ys"
  by (simp add: from_entries_def)

lemma from_entries_snoc [simp]: "from_entries (xs @ [(k, v)]) = (from_entries xs)(k \<mapsto> v)"
  by (simp add: from_entries_def)

lemma truthy_simps [simp]: "\<not> truthy None" "truthy (Some s) \<longleftrightarrow> s \<noteq> []"
  by (simp_all add: truthy_def)

lemma or_else_simps [simp]: "or_else None d = d" "or_else (Some []) d = d" "s \<noteq> [] \<Longrightarrow> or_else (Some s) d = s"
  by (simp_all add: or_else_def)

subsection \<open>Queries and forms\<close>

text \<open>\<^verbatim>\<open>URLSearchParams\<close> writes and reads \<^verbatim>\<open>application/x-www-form-urlencoded\<close> text; characters stand for bytes.\<close>

definition hex_digit :: "nat \<Rightarrow> char" where
  "hex_digit n = ''0123456789ABCDEF'' ! n"

definition hex_value :: "char \<Rightarrow> nat option" where
  "hex_value c =
     (let n = of_char c :: nat
      in if 48 \<le> n \<and> n \<le> 57 then Some (n - 48)
         else if 65 \<le> n \<and> n \<le> 70 then Some (n - 55)
         else if 97 \<le> n \<and> n \<le> 102 then Some (n - 87) else None)"

definition percent :: "char \<Rightarrow> string" where
  "percent c = (let n = of_char c :: nat in [CHR ''%'', hex_digit (n div 16), hex_digit (n mod 16)])"

definition alphanumeric :: "char \<Rightarrow> bool" where
  "alphanumeric c =
     (let n = of_char c :: nat in 48 \<le> n \<and> n \<le> 57 \<or> 65 \<le> n \<and> n \<le> 90 \<or> 97 \<le> n \<and> n \<le> 122)"

definition form_char :: "char \<Rightarrow> string" where
  "form_char c =
     (if alphanumeric c \<or> c \<in> {CHR ''*'', CHR ''-'', CHR ''.'', CHR ''_''} then [c]
      else if c = CHR '' '' then ''+'' else percent c)"

definition form_encode :: "string \<Rightarrow> string" where
  "form_encode s = concat (map form_char s)"

fun form_decode :: "string \<Rightarrow> string" where
  "form_decode (c # a # b # s) =
     (if c = CHR ''+'' then CHR '' '' # form_decode (a # b # s)
      else if c = CHR ''%'' \<and> hex_value a \<noteq> None \<and> hex_value b \<noteq> None
      then char_of (16 * the (hex_value a) + the (hex_value b)) # form_decode s
      else c # form_decode (a # b # s))"
| "form_decode s = map (\<lambda>c. if c = CHR ''+'' then CHR '' '' else c) s"

definition serialise :: "(string \<times> string) list \<Rightarrow> string" where
  "serialise ps = join ''&'' (map (\<lambda>(k, v). form_encode k @ ''='' @ form_encode v) ps)"

definition form_pair :: "string \<Rightarrow> string \<times> string" where
  "form_pair p = (form_decode (takeWhile (\<lambda>c. c \<noteq> CHR ''='') p), form_decode (drop 1 (dropWhile (\<lambda>c. c \<noteq> CHR ''='') p)))"

definition form_entries :: "string \<Rightarrow> (string \<times> string) list" where
  "form_entries s = map form_pair (filter (\<lambda>p. p \<noteq> []) (split_at CHR ''&'' s))"

text \<open>\<^verbatim>\<open>get\<close> gives the first value.\<close>

definition form_get :: "string \<Rightarrow> string \<Rightarrow> string option" where
  "form_get s k = map_of (form_entries s) k"

text \<open>\<^verbatim>\<open>encodeURIComponent\<close> leaves other characters alone, and has no special space.\<close>

definition encode_uri_component :: "string \<Rightarrow> string" where
  "encode_uri_component s =
     concat (map (\<lambda>c. if alphanumeric c \<or> c \<in> set (CHR 0x27 # ''-_.!~*()'') then [c] else percent c) s)"

lemma hex_value_digit: "n < 16 \<Longrightarrow> hex_value (hex_digit n) = Some n"
proof -
  have "\<forall>n \<in> set [0..<16]. hex_value (hex_digit n) = Some n"
    by code_simp
  then show "n < 16 \<Longrightarrow> hex_value (hex_digit n) = Some n" by simp
qed

lemma hex_digit_plain: "n < 16 \<Longrightarrow> hex_digit n \<noteq> CHR ''&'' \<and> hex_digit n \<noteq> CHR ''=''"
proof -
  assume "n < 16"
  then have "hex_value (hex_digit n) = Some n" by (rule hex_value_digit)
  then show ?thesis by (auto simp: hex_value_def)
qed

lemma code_below: "(of_char c :: nat) div 16 < 16" "(of_char c :: nat) mod 16 < 16"
  using of_char_less_256 [of c] by linarith+

lemma form_decode_plain: "c \<noteq> CHR ''+'' \<Longrightarrow> c \<noteq> CHR ''%'' \<Longrightarrow> form_decode (c # s) = c # form_decode s"
  by (cases s rule: form_decode.cases) auto

lemma form_decode_plus: "form_decode (CHR ''+'' # s) = CHR '' '' # form_decode s"
  by (cases s rule: form_decode.cases) auto

lemma form_decode_char: "form_decode (form_char c @ s) = c # form_decode s"
proof -
  have "form_decode (percent c @ s) = c # form_decode s"
    using code_below [of c] by (simp add: percent_def Let_def hex_value_digit)
  moreover have "c \<noteq> CHR ''+'' \<and> c \<noteq> CHR ''%''" if "alphanumeric c \<or> c \<in> {CHR ''*'', CHR ''-'', CHR ''.'', CHR ''_''}"
    using that by (auto simp: alphanumeric_def)
  ultimately show ?thesis
    by (auto simp: form_char_def form_decode_plain form_decode_plus)
qed

lemma form_decode_encode [simp]: "form_decode (form_encode s) = s"
proof (induction s)
  case (Cons c s)
  then show ?case by (simp add: form_encode_def form_decode_char)
qed (simp add: form_encode_def)

lemma form_encode_plain: "CHR ''&'' \<notin> set (form_encode s)" "CHR ''='' \<notin> set (form_encode s)"
proof -
  have "CHR ''&'' \<notin> set (form_char c) \<and> CHR ''='' \<notin> set (form_char c)" for c
    using hex_digit_plain [OF code_below(1), of c] hex_digit_plain [OF code_below(2), of c]
    by (auto simp: form_char_def percent_def Let_def alphanumeric_def)
  then show "CHR ''&'' \<notin> set (form_encode s)" "CHR ''='' \<notin> set (form_encode s)"
    by (auto simp: form_encode_def)
qed

lemma split_at_join:
  assumes "ps \<noteq> []" and "\<And>p. p \<in> set ps \<Longrightarrow> c \<notin> set p"
  shows "split_at c (join [c] ps) = ps"
  using assms by (induction "[c]" ps rule: join.induct) (auto simp: split_at_no_sep split_at_sep)

lemma form_pair_encoded: "form_pair (form_encode k @ CHR ''='' # form_encode v) = (k, v)"
  using form_encode_plain by (auto simp: form_pair_def takeWhile_append dropWhile_append)

text \<open>A form is read as it was written.\<close>

lemma form_entries_serialise [simp]: "form_entries (serialise ps) = ps"
proof (cases "ps = []")
  case False
  let ?qs = "map (\<lambda>(k, v). form_encode k @ ''='' @ form_encode v) ps"
  have "split_at CHR ''&'' (join ''&'' ?qs) = ?qs"
    using False form_encode_plain by (intro split_at_join) auto
  then show ?thesis
    by (auto simp: form_entries_def serialise_def filter_map o_def form_pair_encoded case_prod_beta intro: map_idI)
qed (simp add: form_entries_def serialise_def)

lemma form_get_serialise [simp]: "form_get (serialise ps) = map_of ps"
  by (rule ext) (simp add: form_get_def)

subsection \<open>JSON values\<close>

datatype json = J_null | J_bool bool | J_num int | J_string string | J_array "json list" | J_object "(string \<times> json) list"

text \<open>A member of a value is \<open>None\<close> when it is \<^verbatim>\<open>undefined\<close>; the member of \<^verbatim>\<open>null\<close> raises, which callers check.\<close>

definition member_of :: "json \<Rightarrow> string \<Rightarrow> json option" where
  "member_of j f = (case j of J_object ms \<Rightarrow> from_entries ms f | _ \<Rightarrow> None)"

definition true_value :: "json option \<Rightarrow> bool" where
  "true_value j =
     (case j of
        None \<Rightarrow> False | Some J_null \<Rightarrow> False | Some (J_bool b) \<Rightarrow> b | Some (J_num n) \<Rightarrow> n \<noteq> 0
      | Some (J_string s) \<Rightarrow> s \<noteq> [] | Some _ \<Rightarrow> True)"

fun primitive :: "json \<Rightarrow> bool" where
  "primitive (J_array xs) = False" | "primitive (J_object ms) = False" | "primitive j = True"

subsection \<open>Checks\<close>

text \<open>A list of results; the exit code is 1 when one of them failed, 3 when the script ended with an exception.\<close>

type_synonym results = "(string \<times> bool) list"

definition check :: "string \<Rightarrow> bool \<Rightarrow> results \<Rightarrow> results" where
  "check name ok rs = rs @ [(name, ok)]"

definition failed :: "results \<Rightarrow> nat" where
  "failed rs = length (filter (\<lambda>r. \<not> snd r) rs)"

definition exit_code :: "results \<Rightarrow> int" where
  "exit_code rs = (if failed rs \<noteq> 0 then 1 else 0)"

definition harness_error :: int where
  "harness_error = 3"

lemma failed_append [simp]: "failed (rs @ rs') = failed rs + failed rs'"
  by (simp add: failed_def)

lemma exit_code_0_iff: "exit_code rs = 0 \<longleftrightarrow> (\<forall>r \<in> set rs. snd r)"
  by (auto simp: exit_code_def failed_def filter_empty_conv)

lemma exit_code_cases: "exit_code rs = 0 \<or> exit_code rs = 1"
  by (simp add: exit_code_def)

subsection \<open>Scripts\<close>

text \<open>A script is a function of the results so far and the world it acts on, which gives an exception or a value.\<close>

type_synonym ('w, 'a) raising = "'w \<Rightarrow> (string + 'a) \<times> 'w"
type_synonym ('w, 'a) script = "results \<times> 'w \<Rightarrow> (string + 'a) \<times> results \<times> 'w"

definition seq :: "('w, 'a) script \<Rightarrow> ('a \<Rightarrow> ('w, 'b) script) \<Rightarrow> ('w, 'b) script" where
  "seq f g s = (case f s of (Inl e, s') \<Rightarrow> (Inl e, s') | (Inr a, s') \<Rightarrow> g a s')"

definition return :: "'a \<Rightarrow> ('w, 'a) script" where
  "return a s = (Inr a, s)"

definition throw :: "string \<Rightarrow> ('w, 'a) script" where
  "throw e s = (Inl e, s)"

definition lift :: "('w, 'a) raising \<Rightarrow> ('w, 'a) script" where
  "lift f s = (case f (snd s) of (a, w) \<Rightarrow> (a, fst s, w))"

definition run :: "('w \<Rightarrow> 'w) \<Rightarrow> ('w, unit) script" where
  "run f s = (Inr (), fst s, f (snd s))"

definition record_check :: "string \<Rightarrow> bool \<Rightarrow> ('w, unit) script" where
  "record_check name ok s = (Inr (), check name ok (fst s), snd s)"

lemma seq_Inr: "seq f g s = (Inr b, t) \<longleftrightarrow> (\<exists>a s'. f s = (Inr a, s') \<and> g a s' = (Inr b, t))"
  by (auto simp: seq_def split: prod.splits sum.splits)

lemma seq_value [simp]: "f s = (Inr a, s') \<Longrightarrow> seq f g s = g a s'"
  by (simp add: seq_def)

lemma script_simps [simp]:
  "return a s = (Inr b, t) \<longleftrightarrow> b = a \<and> t = s" "\<not> throw e s = (Inr c, t)"
  "run f (rs, w) = (Inr (), rs, f w)" "record_check name ok (rs, w) = (Inr (), rs @ [(name, ok)], w)"
  by (auto simp: return_def throw_def run_def record_check_def check_def)

lemma lift_results: "lift f s = (Inr a, t) \<Longrightarrow> fst t = fst s"
  by (auto simp: lift_def split: prod.splits)

lemma run_results: "run f s = (Inr a, t) \<Longrightarrow> fst t = fst s"
  by (auto simp: run_def)

lemma record_check_results: "record_check name ok s = (Inr a, t) \<Longrightarrow> fst t = fst s @ [(name, ok)]"
  by (auto simp: record_check_def check_def)

end
