(* ===== verification/Tool_Rp.thy ===== *)
theory Tool_Rp
  imports Tool_Prelude
begin

section \<open>The demonstration relying party\<close>

text \<open>
  \<^verbatim>\<open>src/tools/rp-logout-check/demo-rp.mjs\<close>: an application that signs users in through the identity provider and
  ends their session when the provider sends a logout token.

  The state are the three tables of the script and the callbacks that wait for the answer of the token endpoint. A
  request is what the server gets of it: the path and the query of the parsed URL, the method, the cookie header and
  the body, which is \<open>None\<close> when the connection breaks while it is read. Random values are arguments of the requests that
  draw them. Parameters stand for the hash of the code challenge and for the parsing of the base64url encoded JSON of
  a token, where \<open>None\<close> is an exception. An exception that the handler does not catch ends the process: the state is then
  \<open>None\<close>.
\<close>

subsection \<open>Arguments\<close>

fun flag_entries :: "string list \<Rightarrow> (string \<times> string) list" where
  "flag_entries [] = []"
| "flag_entries (x # xs) =
     (if starts_with x ''--''
      then [(drop 2 x, case xs of [] \<Rightarrow> ''true'' | next # _ \<Rightarrow> if starts_with next ''--'' then ''true'' else next)]
      else []) @ flag_entries xs"

record rp_config =
  idp :: string
  client_id :: string
  base :: string
  broken :: bool

text \<open>The parameter is the conversion of the port to a number and back to a string.\<close>

definition configure :: "(string \<Rightarrow> string) \<Rightarrow> string list \<Rightarrow> rp_config" where
  "configure number_text argv =
     (let args = from_entries (flag_entries argv)
      in \<lparr>idp = or_else (args ''idp'') ''http://localhost:9411'', client_id = or_else (args ''client-id'') ''demo'',
          base = ''http://localhost:'' @ number_text (or_else (args ''port'') ''4711''),
          broken = (args ''broken'' = Some ''true'')\<rparr>)"

subsection \<open>State and requests\<close>

record session =
  session_sub :: "string option"
  session_sid :: "string option"

record claims =
  sub :: "string option"
  sid :: "string option"

record rp =
  sessions_by_sid :: "string \<rightharpoonup> string"
  sessions :: "string \<rightharpoonup> session"
  pkce :: "string \<rightharpoonup> string"
  exchanges :: "(string \<times> string) list"

definition new_rp :: rp where
  "new_rp = \<lparr>sessions_by_sid = Map.empty, sessions = Map.empty, pkce = Map.empty, exchanges = []\<rparr>"

record request =
  pathname :: string
  search :: string
  verb :: string
  cookie :: "string option"
  body :: "string option"

record reply =
  status :: nat
  headers :: "(string \<times> string) list"
  content :: string

text \<open>The cookies of a request: the part between the first and the second \<^verbatim>\<open>=\<close> is the value.\<close>

definition cookie_entries :: "string \<Rightarrow> (string \<times> string) list" where
  "cookie_entries h =
     concat (map (\<lambda>c. case split_at CHR ''='' (trim c) of k # v # _ \<Rightarrow> if v \<noteq> [] then [(k, v)] else [] | _ \<Rightarrow> [])
       (split_at CHR '';'' h))"

definition cookies :: "request \<Rightarrow> string \<rightharpoonup> string" where
  "cookies r = from_entries (cookie_entries (or_else (cookie r) []))"

definition token_claims :: "(string \<Rightarrow> claims option) \<Rightarrow> string \<Rightarrow> claims option" where
  "token_claims parse t = (case split_at CHR ''.'' t of _ # p # _ \<Rightarrow> parse p | _ \<Rightarrow> None)"

subsection \<open>The handler\<close>

definition login :: "(string \<Rightarrow> string) \<Rightarrow> rp_config \<Rightarrow> string \<Rightarrow> string \<Rightarrow> rp \<Rightarrow> reply \<times> rp" where
  "login challenge cfg verifier state s =
     (\<lparr>status = 302,
       headers = [(''Location'', idp cfg @ ''/oauth2/authorize?'' @ serialise
         [(''response_type'', ''code''), (''client_id'', client_id cfg), (''redirect_uri'', base cfg @ ''/callback''),
          (''scope'', ''openid email''), (''state'', state), (''code_challenge'', challenge verifier),
          (''code_challenge_method'', ''S256'')])],
       content = []\<rparr>,
      s\<lparr>pkce := (pkce s)(state \<mapsto> verifier)\<rparr>)"

text \<open>The callback up to its request to the token endpoint: it answers at once, or it waits.\<close>

definition callback :: "request \<Rightarrow> rp \<Rightarrow> reply option \<times> rp" where
  "callback r s =
     (let code = form_get (search r) ''code''; verifier = Option.bind (form_get (search r) ''state'') (pkce s)
      in if \<not> truthy code \<or> \<not> truthy verifier
         then (Some \<lparr>status = 400, headers = [], content = ''bad callback''\<rparr>, s)
         else (None, s\<lparr>exchanges := exchanges s @ [(the code, the verifier)]\<rparr>))"

definition token_request :: "rp_config \<Rightarrow> string \<times> string \<Rightarrow> string" where
  "token_request cfg e =
     serialise [(''grant_type'', ''authorization_code''), (''code'', fst e), (''client_id'', client_id cfg),
       (''redirect_uri'', base cfg @ ''/callback''), (''code_verifier'', snd e)]"

text \<open>The session that a callback begins, and its entry in the index.\<close>

definition begin_session :: "claims \<Rightarrow> string \<Rightarrow> rp \<Rightarrow> rp" where
  "begin_session c ours s =
     s\<lparr>sessions := (sessions s)(ours \<mapsto> \<lparr>session_sub = sub c, session_sid = sid c\<rparr>),
       sessions_by_sid := (if truthy (sid c) then (sessions_by_sid s)(the (sid c) \<mapsto> ours) else sessions_by_sid s)\<rparr>"

text \<open>The rest of the callback, given the id token of the answer. The answer that cannot be read at all is \<open>None\<close>.\<close>

definition finish_callback ::
  "(string \<Rightarrow> claims option) \<Rightarrow> string option option \<Rightarrow> string \<Rightarrow> rp \<Rightarrow> (reply \<times> rp) option" where
  "finish_callback parse answer ours s =
     (case answer of
        None \<Rightarrow> None
      | Some id_token \<Rightarrow>
          if \<not> truthy id_token then Some (\<lparr>status = 400, headers = [], content = ''token exchange failed''\<rparr>, s)
          else (case token_claims parse (the id_token) of
            None \<Rightarrow> None
          | Some c \<Rightarrow>
              Some (\<lparr>status = 302, headers = [(''Location'', ''/account''), (''Set-Cookie'', ''rp='' @ ours @ ''; Path=/; HttpOnly'')],
                     content = []\<rparr>,
                begin_session c ours s)))"

definition account :: "request \<Rightarrow> rp \<Rightarrow> reply" where
  "account r s =
     (case Option.bind (cookies r ''rp'') (sessions s) of
        None \<Rightarrow> \<lparr>status = 302, headers = [(''Location'', ''/login'')], content = []\<rparr>
      | Some u \<Rightarrow> \<lparr>status = 200, headers = [(''Content-Type'', ''text/html'')],
          content = ''<h1>Signed in as '' @ (case session_sub u of None \<Rightarrow> ''undefined'' | Some n \<Rightarrow> n) @ ''</h1>''\<rparr>)"

definition end_session :: "claims \<Rightarrow> rp \<Rightarrow> rp" where
  "end_session c s =
     (case (if truthy (sid c) then sessions_by_sid s (the (sid c)) else None) of
        Some ours \<Rightarrow>
          if ours \<noteq> [] then s\<lparr>sessions := (sessions s)(ours := None), sessions_by_sid := (sessions_by_sid s)(the (sid c) := None)\<rparr>
          else s
      | None \<Rightarrow> s)"

definition backchannel_logout :: "(string \<Rightarrow> claims option) \<Rightarrow> rp_config \<Rightarrow> request \<Rightarrow> rp \<Rightarrow> (reply \<times> rp) option" where
  "backchannel_logout parse cfg r s =
     (case body r of
        None \<Rightarrow> None
      | Some b \<Rightarrow>
          let token = form_get b ''logout_token''
          in if broken cfg then Some (\<lparr>status = 200, headers = [], content = []\<rparr>, s)
             else (case Option.bind token (token_claims parse) of
               Some c \<Rightarrow> Some (\<lparr>status = 200, headers = [(''Cache-Control'', ''no-store'')], content = []\<rparr>, end_session c s)
             | None \<Rightarrow> Some (\<lparr>status = 400, headers = [], content = []\<rparr>, s)))"

text \<open>The whole handler. The outer \<open>None\<close> is an exception, the inner one a callback that waits.\<close>

definition handle ::
  "(string \<Rightarrow> string) \<Rightarrow> (string \<Rightarrow> claims option) \<Rightarrow> rp_config \<Rightarrow> string \<times> string \<Rightarrow> request \<Rightarrow> rp \<Rightarrow> (reply option \<times> rp) option" where
  "handle challenge parse cfg drawn r s =
     (if pathname r = ''/login'' then
        (case login challenge cfg (fst drawn) (snd drawn) s of (a, s') \<Rightarrow> Some (Some a, s'))
      else if pathname r = ''/callback'' then Some (callback r s)
      else if pathname r = ''/account'' then Some (Some (account r s), s)
      else if pathname r = ''/backchannel-logout'' \<and> verb r = ''POST'' then
        map_option (\<lambda>(a, s'). (Some a, s')) (backchannel_logout parse cfg r s)
      else if pathname r = ''/'' then
        Some (Some \<lparr>status = 200, headers = [(''Content-Type'', ''text/html'')],
          content = ''<h1>Demo RP</h1><p><a href='' @ [CHR 0x22] @ ''/account'' @ [CHR 0x22] @ ''>Account</a></p>''\<rparr>, s)
      else Some (Some \<lparr>status = 404, headers = [], content = []\<rparr>, s))"

subsection \<open>Runs\<close>

text \<open>What happens to the server: a request with the values it draws, or the answer of the token endpoint for the
  callback at a place of the queue, with the session identifier that is drawn.\<close>

datatype rp_event = Request "string \<times> string" request | Token_answer nat "string option option" string

fun rp_step :: "(string \<Rightarrow> string) \<Rightarrow> (string \<Rightarrow> claims option) \<Rightarrow> rp_config \<Rightarrow> rp_event \<Rightarrow> rp \<Rightarrow> rp option" where
  "rp_step ch parse cfg (Request drawn r) s = map_option snd (handle ch parse cfg drawn r s)"
| "rp_step ch parse cfg (Token_answer i answer ours) s =
     (if i < length (exchanges s)
      then map_option snd (finish_callback parse answer ours (s\<lparr>exchanges := take i (exchanges s) @ drop (Suc i) (exchanges s)\<rparr>))
      else Some s)"

fun rp_run :: "(string \<Rightarrow> string) \<Rightarrow> (string \<Rightarrow> claims option) \<Rightarrow> rp_config \<Rightarrow> rp_event list \<Rightarrow> rp \<Rightarrow> rp option" where
  "rp_run ch parse cfg [] s = Some s"
| "rp_run ch parse cfg (e # es) s = Option.bind (rp_step ch parse cfg e s) (rp_run ch parse cfg es)"

subsection \<open>The index of the sessions\<close>

fun drawn_id :: "rp_event \<Rightarrow> string list" where
  "drawn_id (Token_answer i answer ours) = [ours]"
| "drawn_id (Request drawn r) = []"

definition drawn_ids :: "rp_event list \<Rightarrow> string list" where
  "drawn_ids es = concat (map drawn_id es)"

text \<open>Every entry of the index belongs to a session that has this \<^verbatim>\<open>sid\<close>.\<close>

definition rp_inv :: "rp \<Rightarrow> bool" where
  "rp_inv s \<longleftrightarrow>
     (\<forall>d ours. sessions_by_sid s d = Some ours \<longrightarrow>
        d \<noteq> [] \<and> ours \<noteq> [] \<and> (\<exists>u. sessions s ours = Some u \<and> session_sid u = Some d))"

lemma drawn_ids_simps [simp]:
  "drawn_ids [] = []" "drawn_ids (e # es) = drawn_id e @ drawn_ids es" "drawn_ids (es @ es') = drawn_ids es @ drawn_ids es'"
  by (simp_all add: drawn_ids_def)

lemma new_rp_inv: "rp_inv new_rp"
  by (simp add: rp_inv_def new_rp_def)

lemma rp_invD:
  assumes "rp_inv s" and "sessions_by_sid s d = Some ours"
  shows "d \<noteq> []" "ours \<noteq> []" "\<exists>u. sessions s ours = Some u \<and> session_sid u = Some d"
  using assms unfolding rp_inv_def by blast+

text \<open>A logout notice removes exactly the session that its \<^verbatim>\<open>sid\<close> leads to.\<close>

lemma end_session_indexed:
  assumes "rp_inv s" and "sid c = Some d" and "sessions_by_sid s d = Some ours"
  shows "end_session c s = s\<lparr>sessions := (sessions s)(ours := None), sessions_by_sid := (sessions_by_sid s)(d := None)\<rparr>"
  using assms(2,3) rp_invD [OF assms(1,3)] by (simp add: end_session_def)

lemma end_session_cases:
  assumes "rp_inv s"
  obtains "end_session c s = s"
  | d ours where "sid c = Some d" "sessions_by_sid s d = Some ours"
      "end_session c s = s\<lparr>sessions := (sessions s)(ours := None), sessions_by_sid := (sessions_by_sid s)(d := None)\<rparr>"
proof (cases "\<exists>d ours. sid c = Some d \<and> sessions_by_sid s d = Some ours")
  case True
  then show ?thesis using that(2) end_session_indexed [OF assms] by blast
next
  case False
  then have "end_session c s = s"
    by (auto simp: end_session_def truthy_def split: option.splits)
  then show ?thesis by (rule that(1))
qed

lemma end_session_inv:
  assumes "rp_inv s"
  shows "rp_inv (end_session c s)"
proof (cases rule: end_session_cases [OF assms, of c])
  case (2 d ours)
  have "ours' \<noteq> ours" if "sessions_by_sid s d' = Some ours'" "d' \<noteq> d" for d' ours'
    using rp_invD(3) [OF assms that(1)] rp_invD(3) [OF assms 2(2)] that(2) by auto
  then show ?thesis
    using assms 2(3) unfolding rp_inv_def by auto
qed (use assms in simp)

text \<open>The callback begins one session or leaves the tables alone.\<close>

lemma finish_callback_cases:
  assumes "finish_callback parse answer ours s = Some (a, s')"
  obtains "s' = s"
  | t c where "answer = Some (Some t)" "token_claims parse t = Some c" "s' = begin_session c ours s"
proof (cases answer)
  case (Some id_token)
  then show ?thesis
    using assms that by (cases id_token) (auto simp: finish_callback_def split: option.splits if_splits)
qed (use assms in \<open>simp add: finish_callback_def\<close>)

lemma begin_session_inv:
  assumes "rp_inv s" and "ours \<noteq> []" and "sessions s ours = None"
  shows "rp_inv (begin_session c ours s)"
  unfolding rp_inv_def
proof (intro allI impI)
  fix d o'
  assume o': "sessions_by_sid (begin_session c ours s) d = Some o'"
  show "d \<noteq> [] \<and> o' \<noteq> [] \<and> (\<exists>u. sessions (begin_session c ours s) o' = Some u \<and> session_sid u = Some d)"
  proof (cases "truthy (sid c) \<and> d = the (sid c)")
    case True
    then show ?thesis
      using o' assms(2) by (auto simp: begin_session_def truthy_def split: option.splits)
  next
    case False
    then have "sessions_by_sid s d = Some o'"
      using o' by (auto simp: begin_session_def split: if_splits)
    from rp_invD [OF assms(1) this] show ?thesis
      using assms(3) by (auto simp: begin_session_def)
  qed
qed

text \<open>A request ends at most the session of a logout notice, and begins none.\<close>

lemma handle_cases:
  assumes "handle ch parse cfg drawn r s = Some (a, s')"
  obtains "sessions s' = sessions s" and "sessions_by_sid s' = sessions_by_sid s"
  | c where "\<not> broken cfg" and "s' = end_session c s"
  using assms
  by (auto simp: handle_def login_def callback_def backchannel_logout_def Let_def split: if_splits option.splits)

lemma rp_step_inv:
  assumes "rp_inv s" and "rp_step ch parse cfg e s = Some s'"
    and "\<And>ours. ours \<in> set (drawn_id e) \<Longrightarrow> ours \<noteq> [] \<and> sessions s ours = None"
  shows "rp_inv s'"
proof (cases e)
  case (Request drawn r)
  then obtain a where "handle ch parse cfg drawn r s = Some (a, s')" using assms(2) by auto
  then show ?thesis
  proof (cases rule: handle_cases)
    case 1
    then show ?thesis using assms(1) by (simp add: rp_inv_def)
  qed (use assms(1) end_session_inv in simp)
next
  case (Token_answer i answer ours)
  show ?thesis
  proof (cases "i < length (exchanges s)")
    case True
    then obtain a where f: "finish_callback parse answer ours (s\<lparr>exchanges := take i (exchanges s) @ drop (Suc i) (exchanges s)\<rparr>) = Some (a, s')"
      using assms(2) Token_answer by auto
    have "rp_inv (s\<lparr>exchanges := take i (exchanges s) @ drop (Suc i) (exchanges s)\<rparr>)"
      using assms(1) by (simp add: rp_inv_def)
    with f show ?thesis
      using assms(3) Token_answer by (cases rule: finish_callback_cases) (simp_all add: begin_session_inv)
  qed (use assms Token_answer in simp)
qed

lemma end_session_sessions: "sessions (end_session c s) k = Some u \<Longrightarrow> sessions s k = Some u"
  by (auto simp: end_session_def split: option.splits if_splits)

lemma rp_step_sessions:
  assumes "rp_step ch parse cfg e s = Some s'"
  shows "dom (sessions s') \<subseteq> dom (sessions s) \<union> set (drawn_id e)"
proof (cases e)
  case (Request drawn r)
  then obtain a where "handle ch parse cfg drawn r s = Some (a, s')" using assms by auto
  then show ?thesis
    by (cases rule: handle_cases) (auto dest: end_session_sessions)
next
  case (Token_answer i answer ours)
  then show ?thesis
    using assms by (auto simp: finish_callback_def begin_session_def split: if_splits option.splits)
qed

lemma rp_run_Cons: "rp_run ch parse cfg (e # es) s = Some s' \<longleftrightarrow> (\<exists>s1. rp_step ch parse cfg e s = Some s1 \<and> rp_run ch parse cfg es s1 = Some s')"
  by (auto simp: bind_eq_Some_conv)

lemma rp_run_append: "rp_run ch parse cfg (es @ es') s = Option.bind (rp_run ch parse cfg es s) (rp_run ch parse cfg es')"
  by (induction es arbitrary: s) (auto split: bind_split)

text \<open>A session that has ended never comes back, as long as no identifier is drawn twice.\<close>

lemma rp_run_sessions:
  "rp_run ch parse cfg es s = Some s' \<Longrightarrow> dom (sessions s') \<subseteq> dom (sessions s) \<union> set (drawn_ids es)"
proof (induction es arbitrary: s)
  case (Cons e es)
  then obtain s1 where 1: "rp_step ch parse cfg e s = Some s1" "rp_run ch parse cfg es s1 = Some s'"
    by (auto simp: bind_eq_Some_conv)
  show ?case
    using rp_step_sessions [OF 1(1)] Cons.IH [OF 1(2)] by (simp add: subset_iff) blast
qed simp

lemma rp_run_inv:
  assumes "rp_run ch parse cfg es s = Some s'" and "rp_inv s" and "distinct (drawn_ids es)" and "[] \<notin> set (drawn_ids es)"
    and "set (drawn_ids es) \<inter> dom (sessions s) = {}"
  shows "rp_inv s'"
  using assms
proof (induction es arbitrary: s)
  case (Cons e es)
  then obtain s1 where 1: "rp_step ch parse cfg e s = Some s1" "rp_run ch parse cfg es s1 = Some s'"
    by (auto simp: bind_eq_Some_conv)
  have "rp_inv s1"
    using Cons.prems by (intro rp_step_inv [OF _ 1(1)]) auto
  moreover have "set (drawn_ids es) \<inter> dom (sessions s1) = {}"
    using Cons.prems(3,5) rp_step_sessions [OF 1(1)] by (simp add: subset_iff disjoint_iff) blast
  ultimately show ?case
    using Cons.IH [OF 1(2)] Cons.prems by simp
qed simp

subsection \<open>Logout\<close>

text \<open>A logout notice: a request to the back channel whose token carries the \<^verbatim>\<open>sid\<close>.\<close>

definition logout_notice :: "(string \<Rightarrow> claims option) \<Rightarrow> string \<Rightarrow> request \<Rightarrow> bool" where
  "logout_notice parse d r =
     (pathname r = ''/backchannel-logout'' \<and> verb r = ''POST''
      \<and> (case Option.bind (Option.bind (body r) (\<lambda>b. form_get b ''logout_token'')) (token_claims parse) of
           None \<Rightarrow> False | Some c \<Rightarrow> sid c = Some d))"

lemma logout_notice_step:
  assumes "logout_notice parse d r" and "\<not> broken cfg"
  obtains c where "sid c = Some d" and "rp_step ch parse cfg (Request drawn r) s = Some (end_session c s)"
proof -
  obtain b t c where "body r = Some b" "form_get b ''logout_token'' = Some t" "token_claims parse t = Some c" "sid c = Some d"
    using assms(1) by (auto simp: logout_notice_def bind_eq_Some_conv split: option.splits)
  then show thesis
    using that assms by (simp add: logout_notice_def handle_def backchannel_logout_def)
qed

lemma account_status: "status (account q s) = (case Option.bind (cookies q ''rp'') (sessions s) of None \<Rightarrow> 302 | Some _ \<Rightarrow> 200)"
  by (simp add: account_def split: option.split)

text \<open>(C36) Back-channel logout works: while the session that the index has for a \<^verbatim>\<open>sid\<close> is alive its user is served;
  once a logout notice for this \<^verbatim>\<open>sid\<close> has been handled, no request with its cookie is served again, whatever requests
  and answers follow, and the notice has ended no other session. Identifiers of sessions are assumed not to be drawn twice.\<close>

theorem logout_ends_session:
  assumes "\<not> broken cfg" and ids: "distinct (drawn_ids (es @ es'))" "[] \<notin> set (drawn_ids (es @ es'))"
    and before: "rp_run ch parse cfg es new_rp = Some s" and index: "sessions_by_sid s d = Some ours"
    and notice: "logout_notice parse d r" and after: "rp_run ch parse cfg (Request drawn r # es') s = Some s'"
    and q: "cookies q ''rp'' = Some ours"
  shows "status (account q s) = 200 \<and> status (account q s') = 302
    \<and> (\<exists>s1. rp_step ch parse cfg (Request drawn r) s = Some s1 \<and> sessions s1 = (sessions s)(ours := None))"
proof -
  have inv: "rp_inv s"
    using rp_run_inv [OF before new_rp_inv] ids by (simp add: new_rp_def)
  obtain u where u: "sessions s ours = Some u"
    using rp_invD(3) [OF inv index] by blast
  obtain c where c: "sid c = Some d" "rp_step ch parse cfg (Request drawn r) s = Some (end_session c s)"
    by (rule logout_notice_step [OF notice assms(1)])
  have ended: "sessions (end_session c s) = (sessions s)(ours := None)"
    using end_session_indexed [OF inv c(1) index] by simp
  have "ours \<in> set (drawn_ids es)"
    using rp_run_sessions [OF before] u by (auto simp: new_rp_def)
  then have "ours \<notin> set (drawn_ids es')"
    using ids(1) by auto
  moreover have "rp_run ch parse cfg es' (end_session c s) = Some s'"
    using after c(2) by (simp only: rp_run.simps Option.bind.simps)
  ultimately have "sessions s' ours = None"
    using rp_run_sessions ended by (fastforce simp: domIff)
  then show ?thesis
    using u q by (intro conjI exI [of _ "end_session c s"] c(2) ended) (simp_all add: account_status)
qed

definition one_user :: "string \<Rightarrow> claims option" where
  "one_user p = Some \<lparr>sub = Some ''alice'', sid = Some p\<rparr>"

definition get_request :: "string \<Rightarrow> string \<Rightarrow> request" where
  "get_request path query = \<lparr>pathname = path, search = query, verb = ''GET'', cookie = Some ''a=b; rp=ours'', body = Some []\<rparr>"

definition sign_in :: "rp_event list" where
  "sign_in = [Request (''verifier'', ''state'') (get_request ''/login'' []),
     Request ([], []) (get_request ''/callback'' ''code=c&state=state''), Token_answer 0 (Some (Some ''h.d.s'')) ''ours'']"

definition notice :: request where
  "notice = \<lparr>pathname = ''/backchannel-logout'', search = [], verb = ''POST'', cookie = None, body = Some ''logout_token=h.d.s''\<rparr>"

theorem logout_ends_session_witness:
  "status (account (get_request ''/account'' []) (the (rp_run id one_user (configure id []) (sign_in @ [Request ([], []) notice]) new_rp))) = 302"
proof -
  let ?run = "rp_run id one_user (configure id [])" and ?q = "get_request ''/account'' []"
  have "\<not> Option.is_none (?run (sign_in @ [Request ([], []) notice]) new_rp)"
    by code_simp
  then obtain s s' where s: "?run sign_in new_rp = Some s" and s': "?run [Request ([], []) notice] s = Some s'"
    "?run (sign_in @ [Request ([], []) notice]) new_rp = Some s'"
    by (auto simp only: rp_run_append Option.is_none_def not_None_eq bind_eq_Some_conv)
  have "sessions_by_sid (the (?run sign_in new_rp)) ''d'' = Some ''ours''"
    by code_simp
  then have index: "sessions_by_sid s ''d'' = Some ''ours''"
    using s by simp
  have "\<not> broken (configure id [])" "logout_notice one_user ''d'' notice" "cookies ?q ''rp'' = Some ''ours''"
    "distinct (drawn_ids (sign_in @ []))" "[] \<notin> set (drawn_ids (sign_in @ []))"
    by code_simp+
  with logout_ends_session [OF _ _ _ s index _ s'(1), of ?q] s'(2) show ?thesis
    by simp
qed

text \<open>A server that ignores the notices keeps every session.\<close>

lemma broken_keeps_sessions:
  assumes "broken cfg" and "rp_run ch parse cfg es s = Some s'" and "sessions s k = Some u" and "k \<notin> set (drawn_ids es)"
  shows "sessions s' k = Some u"
  using assms(2-)
proof (induction es arbitrary: s)
  case (Cons e es)
  then obtain s1 where 1: "rp_step ch parse cfg e s = Some s1" "rp_run ch parse cfg es s1 = Some s'"
    by (auto simp: bind_eq_Some_conv)
  have "sessions s1 k = Some u"
  proof (cases e)
    case (Request drawn r)
    then obtain a where "handle ch parse cfg drawn r s = Some (a, s1)" using 1(1) by auto
    then show ?thesis using Cons.prems assms(1) by (cases rule: handle_cases) simp_all
  next
    case (Token_answer i answer ours)
    then show ?thesis
      using 1(1) Cons.prems by (auto simp: finish_callback_def begin_session_def split: if_splits option.splits)
  qed
  then show ?case
    using Cons.IH [OF 1(2)] Cons.prems by simp
qed simp

text \<open>Of two sessions with the same \<^verbatim>\<open>sid\<close> a logout notice ends the younger one only, since the index holds one.\<close>

lemma older_session_survives:
  assumes "k \<noteq> k'" and "k' \<noteq> []" and "sid c = Some d" and "d \<noteq> []"
  shows "sessions (end_session c (begin_session c k' (begin_session c k s))) k \<noteq> None"
  using assms by (simp add: end_session_def begin_session_def)

text \<open>The verifier of a sign-in is not removed by its callback, which is therefore accepted again.\<close>

lemma callback_accepted_again: "fst (callback r s) = None \<Longrightarrow> fst (callback r (snd (callback r s))) = None"
  by (simp add: callback_def Let_def split: if_splits)

text \<open>The callback finds the verifier of the login whose state comes back, until a login draws the same state.\<close>

lemma login_then_callback:
  assumes "form_get (search r) ''state'' = Some st" and "form_get (search r) ''code'' = Some code" and "code \<noteq> []" and "verifier \<noteq> []"
  shows "callback r (snd (login ch cfg verifier st s)) =
    (None, snd (login ch cfg verifier st s)\<lparr>exchanges := exchanges s @ [(code, verifier)]\<rparr>)"
  using assms by (simp add: callback_def login_def Let_def)

end
