(* ===== verification/Tool_Cdp.thy ===== *)
theory Tool_Cdp
  imports Tool_Prelude
begin

section \<open>The DevTools connection\<close>

text \<open>
  The class \<^verbatim>\<open>CDP\<close> of \<^verbatim>\<open>check.mjs\<close>, which \<^verbatim>\<open>passkey-e2e.mjs\<close> has too with another timeout: requests to the browser over a
  socket, each a promise that an answer or a timeout settles. The state keeps the counter and the table of
  the class, the timers that are armed, and how the promises were settled.
\<close>

datatype settlement = Resolved json | Rejected string

record cdp =
  last_id :: nat
  pending :: "nat \<rightharpoonup> string"
  timers :: "nat list"
  settled :: "(nat \<times> settlement) list"
  sent :: "(nat \<times> string) list"

definition new_cdp :: cdp where
  "new_cdp = \<lparr>last_id = 0, pending = Map.empty, timers = [], settled = [], sent = []\<rparr>"

text \<open>A message of the browser: the identifier of the request it answers, if it is an answer, and the text of the error or
  the result.\<close>

record message =
  m_id :: "nat option"
  m_error :: "string option"
  m_result :: json

definition settle :: "nat \<Rightarrow> settlement \<Rightarrow> cdp \<Rightarrow> cdp" where
  "settle i v s = s\<lparr>pending := (pending s)(i := None), settled := settled s @ [(i, v)]\<rparr>"

definition cdp_message :: "message \<Rightarrow> cdp \<Rightarrow> cdp" where
  "cdp_message m s =
     (case m_id m of
        None \<Rightarrow> s
      | Some i \<Rightarrow>
          if i \<noteq> 0 \<and> pending s i \<noteq> None
          then settle i (case m_error m of Some e \<Rightarrow> Rejected e | None \<Rightarrow> Resolved (m_result m)) s
          else s)"

definition cdp_send :: "string \<Rightarrow> cdp \<Rightarrow> nat \<times> cdp" where
  "cdp_send meth s =
     (let i = last_id s + 1
      in (i, s\<lparr>last_id := i, pending := (pending s)(i \<mapsto> meth), timers := timers s @ [i], sent := sent s @ [(i, meth)]\<rparr>))"

definition cdp_timeout :: "nat \<Rightarrow> cdp \<Rightarrow> cdp" where
  "cdp_timeout i s =
     (let s1 = s\<lparr>timers := removeAll i (timers s)\<rparr>
      in case pending s i of
           None \<Rightarrow> s1
         | Some meth \<Rightarrow> settle i (Rejected (meth @ '' timed out'')) s1)"

subsection \<open>Every request is settled once\<close>

datatype cdp_event = Send string | Message message | Timeout nat

fun cdp_step :: "cdp_event \<Rightarrow> cdp \<Rightarrow> cdp" where
  "cdp_step (Send meth) s = snd (cdp_send meth s)"
| "cdp_step (Message m) s = cdp_message m s"
| "cdp_step (Timeout i) s = (if i \<in> set (timers s) then cdp_timeout i s else s)"

definition cdp_inv :: "cdp \<Rightarrow> bool" where
  "cdp_inv s \<longleftrightarrow>
     distinct (map fst (settled s)) \<and> dom (pending s) \<inter> set (map fst (settled s)) = {}
     \<and> dom (pending s) \<union> set (map fst (settled s)) = {1..last_id s}
     \<and> map fst (sent s) = [1..<Suc (last_id s)] \<and> dom (pending s) \<subseteq> set (timers s)
     \<and> set (timers s) \<subseteq> {1..last_id s}"

lemma cdp_invD:
  assumes "cdp_inv s"
  shows "i \<in> fst ` set (settled s) \<longleftrightarrow> 1 \<le> i \<and> i \<le> last_id s \<and> pending s i = None"
    and "pending s i = Some meth \<Longrightarrow> 1 \<le> i \<and> i \<le> last_id s \<and> i \<in> set (timers s)"
proof -
  have "i \<in> dom (pending s) \<union> fst ` set (settled s) \<longleftrightarrow> i \<in> {1..last_id s}"
    "i \<notin> dom (pending s) \<inter> fst ` set (settled s)" "i \<in> dom (pending s) \<longrightarrow> i \<in> set (timers s)"
    using assms unfolding cdp_inv_def by (auto simp del: upt_Suc)
  then show "i \<in> fst ` set (settled s) \<longleftrightarrow> 1 \<le> i \<and> i \<le> last_id s \<and> pending s i = None"
    and "pending s i = Some meth \<Longrightarrow> 1 \<le> i \<and> i \<le> last_id s \<and> i \<in> set (timers s)"
    by (auto simp: domIff)
qed

lemma new_cdp_inv: "cdp_inv new_cdp"
  by (simp add: cdp_inv_def new_cdp_def)

lemma settle_inv:
  assumes "cdp_inv s" and "pending s i \<noteq> None"
  shows "cdp_inv (settle i v s)"
  using assms unfolding cdp_inv_def settle_def by (auto simp: dom_def)

lemma timer_gone_inv:
  assumes "cdp_inv s" and "pending s i = None"
  shows "cdp_inv (s\<lparr>timers := removeAll i (timers s)\<rparr>)"
  using assms unfolding cdp_inv_def by auto

lemma cdp_send_inv:
  assumes "cdp_inv s"
  shows "cdp_inv (snd (cdp_send meth s))"
proof -
  have "Suc (last_id s) \<notin> set (map fst (settled s))"
    using cdp_invD(1) [OF assms, of "Suc (last_id s)"] by simp
  then show ?thesis
    using assms unfolding cdp_inv_def cdp_send_def by (auto simp: Let_def atLeastAtMostSuc_conv)
qed

lemma cdp_step_inv: "cdp_inv s \<Longrightarrow> cdp_inv (cdp_step e s)"
proof (cases e)
  case (Timeout i)
  assume inv: "cdp_inv s"
  show ?thesis
  proof (cases "pending s i")
    case None
    then show ?thesis using inv Timeout by (simp add: cdp_timeout_def timer_gone_inv)
  next
    case (Some meth)
    have "settle i v (s\<lparr>timers := removeAll i (timers s)\<rparr>) = (settle i v s)\<lparr>timers := removeAll i (timers (settle i v s))\<rparr>" for v
      by (cases s) (simp add: settle_def)
    moreover have "cdp_inv ((settle i v s)\<lparr>timers := removeAll i (timers (settle i v s))\<rparr>)" for v
      using inv Some by (intro timer_gone_inv settle_inv) (simp_all add: settle_def)
    ultimately show ?thesis
      using inv Timeout Some by (simp add: cdp_timeout_def)
  qed
qed (auto simp: cdp_send_inv cdp_message_def settle_inv split: option.split)

lemma cdp_run_inv: "cdp_inv s \<Longrightarrow> cdp_inv (fold cdp_step es s)"
  by (induction es arbitrary: s) (simp_all add: cdp_step_inv)

lemma settled_stays: "set (settled s) \<subseteq> set (settled (fold cdp_step es s))"
proof (induction es arbitrary: s)
  case (Cons e es)
  have "set (settled s) \<subseteq> set (settled (cdp_step e s))"
    by (cases e) (auto simp: cdp_send_def cdp_message_def cdp_timeout_def settle_def Let_def split: option.split)
  then show ?case using Cons by fastforce
qed simp

text \<open>(C37) The promises of the connection: whatever the browser answers and whenever timers fire, the requests are numbered
  from 1 in the order of their sending, each of them is settled at most once and is otherwise still pending with its timer
  armed; and once the timer of a request has fired, the request is settled for good.\<close>

theorem requests_settled_once:
  "let s = fold cdp_step es new_cdp
   in map fst (sent s) = [1..<Suc (last_id s)] \<and> distinct (map fst (settled s))
    \<and> (\<forall>i. 1 \<le> i \<and> i \<le> last_id s \<longrightarrow>
          (i \<in> fst ` set (settled s) \<longleftrightarrow> pending s i = None) \<and> (pending s i \<noteq> None \<longrightarrow> i \<in> set (timers s))
          \<and> i \<in> fst ` set (settled (fold cdp_step es' (cdp_step (Timeout i) s))))"
proof -
  define s where "s = fold cdp_step es new_cdp"
  have inv: "cdp_inv s"
    using cdp_run_inv [OF new_cdp_inv] by (simp add: s_def)
  have now: "(i \<in> fst ` set (settled s) \<longleftrightarrow> pending s i = None) \<and> (pending s i \<noteq> None \<longrightarrow> i \<in> set (timers s))"
    if "1 \<le> i" "i \<le> last_id s" for i
    using cdp_invD [OF inv, of i] that by auto
  have later: "i \<in> fst ` set (settled (fold cdp_step es' (cdp_step (Timeout i) s)))" if "1 \<le> i" "i \<le> last_id s" for i
  proof -
    have "i \<in> fst ` set (settled (cdp_step (Timeout i) s))"
      using now [OF that] by (cases "pending s i") (force simp: cdp_timeout_def settle_def Let_def)+
    then show ?thesis
      using settled_stays image_mono by blast
  qed
  show ?thesis
    using inv now later by (simp add: s_def [symmetric] Let_def cdp_inv_def)
qed

theorem requests_settled_once_witness:
  "1 \<in> fst ` set (settled (fold cdp_step [Send ''b''] (cdp_step (Timeout 1) (fold cdp_step [Send ''a''] new_cdp))))"
  using requests_settled_once [of "[Send ''a'']" "[Send ''b'']"]
  by (simp add: Let_def cdp_send_def new_cdp_def del: cdp_step.simps(3))

end
