(* ===== verification/Tool_Check.thy ===== *)
theory Tool_Check
  imports Tool_Rp Tool_Cdp
begin

section \<open>The logout check\<close>

text \<open>
  \<^verbatim>\<open>src/tools/rp-logout-check/check.mjs\<close>: a script that drives a browser through a sign-in to an application, signs out at
  the identity provider and asks the application until it refuses or the time of grace is over.

  The browser is a record of operations on a world of any type: what the script has it do through the DevTools
  connection, each of which may raise. The parameter \<open>number\<close> is the conversion of a string to a number, taken to be whole, and
  \<open>origin_of\<close> the origin of a URL, if it is one.
\<close>

subsection \<open>Arguments\<close>

text \<open>Here the value of a flag is whatever follows it.\<close>

fun arg_entries :: "string list \<Rightarrow> (string \<times> string option) list" where
  "arg_entries [] = []"
| "arg_entries (a # as) =
     (if starts_with a ''--'' then [(drop 2 a, case as of [] \<Rightarrow> None | next # _ \<Rightarrow> Some next)] else []) @ arg_entries as"

definition check_args :: "string list \<Rightarrow> string \<Rightarrow> string option" where
  "check_args argv k = Option.bind (from_entries (arg_entries argv) k) id"

definition REQUIRED :: "string list" where
  "REQUIRED = [''rp-login'', ''rp-protected'', ''idp'', ''username'', ''password'']"

definition missing :: "(string \<Rightarrow> string option) \<Rightarrow> string list" where
  "missing args = filter (\<lambda>k. \<not> truthy (args k)) REQUIRED"

definition GRACE :: "(string \<Rightarrow> jsnum) \<Rightarrow> (string \<Rightarrow> string option) \<Rightarrow> jsnum" where
  "GRACE number args = (if truthy (args ''grace'') then number (the (args ''grace'')) else Some 10)"

subsection \<open>The browser\<close>

record 'w browser =
  spawn :: "'w \<Rightarrow> 'w"
  poll :: "'w \<Rightarrow> string option \<times> 'w"
  attach :: "string \<Rightarrow> ('w, unit) raising"
  navigate :: "string \<Rightarrow> ('w, unit) raising"
  sleep :: "nat \<Rightarrow> 'w \<Rightarrow> 'w"
  origin :: "('w, string) raising"
  fetch :: "string \<Rightarrow> ('w, nat \<times> string) raising"
  login_form :: "('w, (string \<times> string option) option) raising"
  post :: "string \<Rightarrow> (string \<times> string) list \<Rightarrow> 'w \<Rightarrow> 'w"
  close :: "'w \<Rightarrow> 'w"
  kill :: "'w \<Rightarrow> 'w"

definition goto :: "'w browser \<Rightarrow> string \<Rightarrow> ('w, unit) script" where
  "goto br url = seq (lift (navigate br url)) (\<lambda>_. run (sleep br 1500))"

text \<open>At most forty times the script asks for the address of the debugger.\<close>

fun await_debugger :: "'w browser \<Rightarrow> nat \<Rightarrow> 'w \<Rightarrow> string option \<times> 'w" where
  "await_debugger br 0 w = (None, w)"
| "await_debugger br (Suc n) w =
     (case poll br (sleep br 250 w) of (u, w') \<Rightarrow> if truthy u then (u, w') else await_debugger br n w')"

subsection \<open>The probe\<close>

record probe =
  p_status :: nat
  p_type :: string
  signed_in :: bool

definition signed_in_answer :: "nat \<times> string \<Rightarrow> probe" where
  "signed_in_answer r =
     \<lparr>p_status = fst r, p_type = snd r,
      signed_in = (snd r \<noteq> ''opaqueredirect'' \<and> 200 \<le> fst r \<and> fst r < 300)\<rparr>"

text \<open>The second parameter is the origin of the protected page.\<close>

definition protected_state :: "'w browser \<Rightarrow> string \<Rightarrow> (string \<Rightarrow> string option) \<Rightarrow> ('w, probe) script" where
  "protected_state br rp_origin args =
     seq (goto br (or_else (args ''home'') (rp_origin @ ''/''))) (\<lambda>_.
     seq (lift (origin br)) (\<lambda>here.
       if here \<noteq> rp_origin
       then return \<lparr>p_status = 0, p_type = ''redirected-away'', signed_in = False\<rparr>
       else seq (lift (fetch br (the (args ''rp-protected'')))) (\<lambda>r. return (signed_in_answer r))))"

subsection \<open>The three steps\<close>

definition sign_in_through_app :: "'w browser \<Rightarrow> string \<Rightarrow> (string \<Rightarrow> string option) \<Rightarrow> ('w, unit) script" where
  "sign_in_through_app br rp_origin args =
     seq (goto br (the (args ''rp-login''))) (\<lambda>_.
     seq (lift (login_form br)) (\<lambda>form.
     seq (case form of
            None \<Rightarrow> seq (record_check ''sign in through your application'' False) (\<lambda>_. throw ''cannot continue without a session'')
          | Some (csrf, authz) \<Rightarrow>
              run (post br ''/login'' [(''username'', the (args ''username'')), (''password'', the (args ''password'')),
                (''csrf_token'', csrf), (''authz'', or_else authz [])])) (\<lambda>_.
     seq (goto br (the (args ''rp-login''))) (\<lambda>_.
     seq (run (sleep br 3500)) (\<lambda>_.
     seq (protected_state br rp_origin args) (\<lambda>before.
     seq (record_check ''sign in through your application'' True) (\<lambda>_.
     seq (record_check ''your application grants access after sign-in'' (signed_in before)) (\<lambda>_.
       if \<not> signed_in before then throw ''never established an application session; nothing to test''
       else return ()))))))))"

definition sign_out_at_idp :: "'w browser \<Rightarrow> (string \<Rightarrow> string option) \<Rightarrow> ('w, unit) script" where
  "sign_out_at_idp br args =
     seq (goto br (the (args ''idp'') @ ''/oauth2/logout'')) (\<lambda>_. record_check ''signed out at the identity provider'' True)"

text \<open>The loop gives whether the session has ended and the last probe, if there was one.\<close>

fun await_end :: "'w browser \<Rightarrow> string \<Rightarrow> (string \<Rightarrow> string option) \<Rightarrow> nat \<Rightarrow> probe option \<Rightarrow> ('w, bool \<times> probe option) script" where
  "await_end br rp_origin args 0 after s = return (False, after) s"
| "await_end br rp_origin args (Suc n) after s =
     seq (run (sleep br 1000)) (\<lambda>_. seq (protected_state br rp_origin args) (\<lambda>p s'.
       if signed_in p then await_end br rp_origin args n (Some p) s' else return (True, Some p) s')) s"

text \<open>The text of the failed check reads the status of the last probe, which raises when there was none.\<close>

definition actual_question :: "'w browser \<Rightarrow> string \<Rightarrow> (string \<Rightarrow> string option) \<Rightarrow> jsnum \<Rightarrow> ('w, unit) script" where
  "actual_question br rp_origin args grace =
     seq (await_end br rp_origin args (case grace of None \<Rightarrow> 0 | Some n \<Rightarrow> nat n) None) (\<lambda>(ended, after).
       case after of
         None \<Rightarrow> throw ''TypeError''
       | Some _ \<Rightarrow> record_check ''your application ended the session too'' ended)"

definition check_main ::
  "'w browser \<Rightarrow> (string \<Rightarrow> string option) \<Rightarrow> (string \<Rightarrow> string option) \<Rightarrow> jsnum \<Rightarrow> ('w, unit) script" where
  "check_main br origin_of args grace s =
     (let (u, w) = await_debugger br 40 (spawn br (snd s));
          (r, rs, w') =
            (if \<not> truthy u then throw ''could not start Chrome'' (fst s, w)
             else seq (lift (attach br (the u))) (\<lambda>_.
               case origin_of (the (args ''rp-protected'')) of
                 None \<Rightarrow> throw ''Invalid URL''
               | Some rp_origin \<Rightarrow>
                   seq (sign_in_through_app br rp_origin args) (\<lambda>_.
                   seq (sign_out_at_idp br args) (\<lambda>_.
                   seq (actual_question br rp_origin args grace) (\<lambda>_. run (close br))))) (fst s, w))
      in (r, rs, kill br w'))"

text \<open>The whole script: its exit code, the results and the world it leaves.\<close>

definition check_tool ::
  "'w browser \<Rightarrow> (string \<Rightarrow> string option) \<Rightarrow> (string \<Rightarrow> jsnum) \<Rightarrow> string list \<Rightarrow> 'w \<Rightarrow> int \<times> results \<times> 'w" where
  "check_tool br origin_of number argv w =
     (let args = check_args argv
      in if missing args \<noteq> [] then (2, [], w)
         else case check_main br origin_of args (GRACE number args) ([], w) of
           (Inr _, rs, w') \<Rightarrow> (exit_code rs, rs, w')
         | (Inl _, rs, w') \<Rightarrow> (harness_error, rs, w'))"

subsection \<open>What the exit code says\<close>

lemma goto_results: "goto br u s = (Inr a, t) \<Longrightarrow> fst t = fst s"
  by (auto simp: goto_def seq_Inr dest!: lift_results run_results)

lemma probe_results: "protected_state br rp_origin args s = (Inr p, t) \<Longrightarrow> fst t = fst s"
  by (auto simp: protected_state_def seq_Inr dest!: lift_results goto_results split: if_splits)

lemmas step_results = lift_results run_results goto_results probe_results

lemma await_results: "await_end br rp_origin args n after s = (Inr r, t) \<Longrightarrow> fst t = fst s"
proof (induction n arbitrary: after s)
  case (Suc n)
  then obtain u s1 p s2 where "run (sleep br 1000) s = (Inr u, s1)" "protected_state br rp_origin args s1 = (Inr p, s2)"
    and rest: "(if signed_in p then await_end br rp_origin args n (Some p) s2 else return (True, Some p) s2) = (Inr r, t)"
    by (auto simp: seq_Inr)
  then have "fst s2 = fst s" by (simp add: step_results)
  moreover have "fst t = fst s2"
    using rest Suc.IH by (auto split: if_splits)
  ultimately show ?case by simp
qed simp

text \<open>The results of a run that was carried to its end.\<close>

definition verdict :: "bool \<Rightarrow> results" where
  "verdict ended =
     [(''sign in through your application'', True), (''your application grants access after sign-in'', True),
      (''signed out at the identity provider'', True), (''your application ended the session too'', ended)]"

lemma sign_in_results:
  "sign_in_through_app br rp_origin args s = (Inr a, t) \<Longrightarrow>
     fst t = fst s @ [(''sign in through your application'', True), (''your application grants access after sign-in'', True)]"
  by (auto simp: sign_in_through_app_def seq_Inr split: option.splits if_splits dest!: step_results record_check_results)

lemma sign_out_results:
  "sign_out_at_idp br args s = (Inr a, t) \<Longrightarrow> fst t = fst s @ [(''signed out at the identity provider'', True)]"
  by (auto simp: sign_out_at_idp_def seq_Inr dest!: step_results record_check_results)

lemma question_results:
  "actual_question br rp_origin args grace s = (Inr a, t) \<Longrightarrow>
     \<exists>ended. fst t = fst s @ [(''your application ended the session too'', ended)]"
  by (auto simp: actual_question_def seq_Inr split: option.splits dest!: await_results record_check_results)

lemma main_results:
  assumes "check_main br origin_of args grace ([], w) = (Inr a, rs, w')"
  obtains ended where "rs = verdict ended"
proof -
  obtain u v rp_origin b c d t1 t2 t3 t4 where "seq (lift (attach br (the u))) (\<lambda>_. return ()) ([], v) = (Inr (), t1)"
    "sign_in_through_app br rp_origin args t1 = (Inr b, t2)" "sign_out_at_idp br args t2 = (Inr c, t3)"
    "actual_question br rp_origin args grace t3 = (Inr d, t4)" "rs = fst t4"
    using assms by (auto simp: check_main_def Let_def seq_Inr run_def split: prod.splits if_splits option.splits)
  then show thesis
    using that by (auto simp: seq_Inr verdict_def dest!: lift_results sign_in_results sign_out_results question_results)
qed

text \<open>What the exit code of the check means: with code 0 or 1 the user was signed in through the application, the
  application then served the protected page, and the user was signed out at the provider; the code is 0 exactly when the
  application refused the page within the time of grace. Everything else ends with another code.\<close>

theorem check_verdict:
  assumes "check_tool br origin_of number argv w = (code, rs, w')" and "code = 0 \<or> code = 1"
  shows "rs = verdict (code = 0)"
proof -
  obtain a where m: "check_main br origin_of (check_args argv) (GRACE number (check_args argv)) ([], w) = (Inr a, rs, w')" "code = exit_code rs"
    using assms by (auto simp: check_tool_def harness_error_def Let_def split: if_splits prod.splits sum.splits)
  obtain ended where "rs = verdict ended"
    by (rule main_results [OF m(1)])
  then show ?thesis
    using m(2) by (cases ended) (auto simp: verdict_def exit_code_def failed_def)
qed

text \<open>No time of grace, or one that is not a number, ends the check with an exception instead of a verdict.\<close>

lemma no_grace_raises: "grace = None \<or> grace = Some 0 \<Longrightarrow> fst (actual_question br rp_origin args grace s) = Inl ''TypeError''"
  by (auto simp: actual_question_def seq_def return_def throw_def)

text \<open>A flag without its value takes the next flag for it.\<close>

lemma bare_flag_takes_next: "check_args [''--username'', ''--password'', ''x''] ''username'' = Some ''--password''"
  by code_simp

subsection \<open>The check of the demonstration party\<close>

text \<open>
  The check against the demonstration party. The world holds the server, \<open>None\<close> after an exception, and the events that come
  to it, those of one second between two probes together. The browser stands on the public page of the application and
  asks for the protected page with the cookies of the request \<open>q\<close>: a redirect that is not followed has the type
  \<^verbatim>\<open>opaqueredirect\<close> and the status 0.
\<close>

record rp_world =
  site :: "rp option"
  coming :: "rp_event list list"

definition manual_fetch :: "reply \<Rightarrow> nat \<times> string" where
  "manual_fetch a = (if 300 \<le> status a \<and> status a < 400 then (0, ''opaqueredirect'') else (status a, ''basic''))"

definition rp_browser ::
  "(string \<Rightarrow> string) \<Rightarrow> (string \<Rightarrow> claims option) \<Rightarrow> rp_config \<Rightarrow> request \<Rightarrow> string \<Rightarrow> rp_world browser \<Rightarrow> rp_world browser" where
  "rp_browser ch parse cfg q rp_origin br =
     br\<lparr>navigate := \<lambda>u w. (Inr (), w),
        sleep := \<lambda>ms w. if ms = 1000 \<and> coming w \<noteq> []
          then \<lparr>site = Option.bind (site w) (rp_run ch parse cfg (hd (coming w))), coming = tl (coming w)\<rparr> else w,
        origin := \<lambda>w. (Inr rp_origin, w),
        fetch := \<lambda>u w. (case site w of None \<Rightarrow> Inl ''Failed to fetch'' | Some s \<Rightarrow> Inr (manual_fetch (account q s)), w)\<rparr>"

definition served :: "request \<Rightarrow> rp \<Rightarrow> bool" where
  "served q s = (Option.bind (cookies q ''rp'') (sessions s) \<noteq> None)"

lemma rp_probe:
  "protected_state (rp_browser ch parse cfg q rp_origin br) rp_origin args (rs, \<lparr>site = Some s, coming = bs\<rparr>) =
     (Inr (signed_in_answer (manual_fetch (account q s))), rs, \<lparr>site = Some s, coming = bs\<rparr>)"
  by (simp add: protected_state_def goto_def seq_def lift_def rp_browser_def run_def return_def)

lemma probe_served: "signed_in (signed_in_answer (manual_fetch (account q s))) = served q s"
  by (simp add: signed_in_answer_def manual_fetch_def account_status served_def split: option.split)

lemma rp_round:
  assumes "rp_run ch parse cfg b s = Some s1"
  shows "await_end (rp_browser ch parse cfg q rp_origin br) rp_origin args (Suc n) after (rs, \<lparr>site = Some s, coming = b # bs\<rparr>) =
    (if served q s1
     then await_end (rp_browser ch parse cfg q rp_origin br) rp_origin args n
       (Some (signed_in_answer (manual_fetch (account q s1)))) (rs, \<lparr>site = Some s1, coming = bs\<rparr>)
     else (Inr (True, Some (signed_in_answer (manual_fetch (account q s1)))), rs, \<lparr>site = Some s1, coming = bs\<rparr>))"
proof -
  have "run (sleep (rp_browser ch parse cfg q rp_origin br) 1000) (rs, \<lparr>site = Some s, coming = b # bs\<rparr>) =
      (Inr (), rs, \<lparr>site = Some s1, coming = bs\<rparr>)"
    using assms by (simp add: rp_browser_def)
  then show ?thesis
    by (simp add: rp_probe probe_served return_def)
qed

text \<open>The loop finds out whether the session is gone at one of the probes.\<close>

lemma await_end_rp:
  assumes "n \<le> length bs" and "rp_run ch parse cfg (concat bs) s \<noteq> None"
  shows "\<exists>a w. await_end (rp_browser ch parse cfg q rp_origin br) rp_origin args n after (rs, \<lparr>site = Some s, coming = bs\<rparr>) =
      (Inr (\<exists>i \<in> {1..n}. \<not> served q (the (rp_run ch parse cfg (concat (take i bs)) s)), a), rs, w) \<and> (0 < n \<longrightarrow> a \<noteq> None)"
  using assms
proof (induction n arbitrary: s bs after)
  case (Suc n)
  then obtain b bs' where bs: "bs = b # bs'" by (cases bs) auto
  then obtain s1 where s1: "rp_run ch parse cfg b s = Some s1" "rp_run ch parse cfg (concat bs') s1 \<noteq> None"
    using Suc.prems(2) by (auto simp: rp_run_append bind_eq_Some_conv)
  have split: "{1..Suc n} = insert 1 (Suc ` {1..n})"
    by (auto simp: image_iff)
  have ends: "(\<exists>i \<in> {1..Suc n}. \<not> served q (the (rp_run ch parse cfg (concat (take i bs)) s))) \<longleftrightarrow>
      \<not> served q s1 \<or> (\<exists>i \<in> {1..n}. \<not> served q (the (rp_run ch parse cfg (concat (take i bs')) s1)))"
    unfolding split bex_simps(5) using s1(1) by (simp add: bs rp_run_append del: image_Suc_atLeastAtMost)
  show ?case
  proof (cases "served q s1")
    case True
    have len: "n \<le> length bs'" using Suc.prems(1) bs by simp
    obtain a w where r: "await_end (rp_browser ch parse cfg q rp_origin br) rp_origin args n
        (Some (signed_in_answer (manual_fetch (account q s1)))) (rs, \<lparr>site = Some s1, coming = bs'\<rparr>) =
        (Inr (\<exists>i \<in> {1..n}. \<not> served q (the (rp_run ch parse cfg (concat (take i bs')) s1)), a), rs, w)" "0 < n \<longrightarrow> a \<noteq> None"
      using Suc.IH [OF len s1(2)] by blast
    have "a \<noteq> None"
      using r by (cases n) (auto simp: return_def)
    then show ?thesis
      unfolding ends unfolding bs rp_round [OF s1(1)] using True r(1) by simp
  next
    case False
    then show ?thesis
      unfolding ends unfolding bs rp_round [OF s1(1)] by simp
  qed
qed (simp add: return_def)

subsubsection \<open>The session during the time of grace\<close>

text \<open>Someone signs in with this \<^verbatim>\<open>sid\<close>.\<close>

fun signs_in :: "(string \<Rightarrow> claims option) \<Rightarrow> string \<Rightarrow> rp_event \<Rightarrow> bool" where
  "signs_in parse d (Request drawn r) = False"
| "signs_in parse d (Token_answer i answer ours) =
     (case Option.bind (Option.bind answer id) (token_claims parse) of None \<Rightarrow> False | Some c \<Rightarrow> sid c = Some d)"

text \<open>Until it is gone, the index leads to the session.\<close>

definition reachable_session :: "string \<Rightarrow> string \<Rightarrow> rp \<Rightarrow> bool" where
  "reachable_session d ours s \<longleftrightarrow> sessions s ours = None \<or> sessions_by_sid s d = Some ours"

lemma reachable_step:
  assumes "reachable_session d ours s" and "rp_step ch parse cfg e s = Some s'" and "\<not> signs_in parse d e"
    and "ours \<notin> set (drawn_id e)" and "d \<noteq> []"
  shows "reachable_session d ours s'"
proof (cases e)
  case (Request drawn r)
  then obtain a where "handle ch parse cfg drawn r s = Some (a, s')" using assms(2) by auto
  then show ?thesis
    using assms(1) by (cases rule: handle_cases) (auto simp: reachable_session_def end_session_def split: option.splits)
next
  case (Token_answer i answer k)
  show ?thesis
  proof (cases "i < length (exchanges s)")
    case True
    then obtain a where f: "finish_callback parse answer k (s\<lparr>exchanges := take i (exchanges s) @ drop (Suc i) (exchanges s)\<rparr>) = Some (a, s')"
      using assms(2) Token_answer by auto
    then show ?thesis
    proof (cases rule: finish_callback_cases)
      case 1
      then show ?thesis using assms(1) by (simp add: reachable_session_def)
    next
      case (2 t c)
      then have "sid c \<noteq> Some d" using assms(3) Token_answer by simp
      then show ?thesis
        using 2(3) assms(1,4,5) Token_answer by (auto simp: reachable_session_def begin_session_def truthy_def split: option.splits)
    qed
  qed (use assms Token_answer in simp)
qed

lemma gone_after_notice:
  assumes "rp_run ch parse cfg es s = Some s'" and "reachable_session d ours s" and "\<And>e. e \<in> set es \<Longrightarrow> \<not> signs_in parse d e"
    and "ours \<notin> set (drawn_ids es)" and "d \<noteq> []" and "ours \<noteq> []" and "\<not> broken cfg"
    and "Request drawn r \<in> set es" and "logout_notice parse d r"
  shows "sessions s' ours = None"
  using assms(1-4,8)
proof (induction es arbitrary: s)
  case (Cons e es)
  then obtain s1 where 1: "rp_step ch parse cfg e s = Some s1" "rp_run ch parse cfg es s1 = Some s'"
    by (auto simp: bind_eq_Some_conv)
  show ?case
  proof (cases "e = Request drawn r")
    case True
    obtain c where c: "sid c = Some d" "rp_step ch parse cfg (Request drawn r) s = Some (end_session c s)"
      by (rule logout_notice_step [OF assms(9,7)])
    have "s1 = end_session c s" using c(2) 1(1) [unfolded True] by (simp only: option.inject)
    then have "sessions s1 ours = None"
      using c(1) Cons.prems(2) assms(5,6) by (auto simp: end_session_def reachable_session_def split: option.splits)
    then show ?thesis
      using rp_run_sessions [OF 1(2)] Cons.prems(4) by (auto simp: domIff)
  next
    case False
    have "reachable_session d ours s1"
      using reachable_step [OF Cons.prems(2) 1(1)] Cons.prems(3,4) assms(5) by simp
    then show ?thesis
      using Cons.IH [OF 1(2)] Cons.prems False by simp
  qed
qed simp

lemma concat_take_mem: "x \<in> set (concat (take n bs)) \<Longrightarrow> x \<in> set (concat bs)"
  by (auto dest: in_set_takeD)

lemma rp_run_prefix:
  assumes "rp_run ch parse cfg (concat bs) s \<noteq> None"
  obtains s' where "rp_run ch parse cfg (concat (take i bs)) s = Some s'"
proof -
  have "concat bs = concat (take i bs) @ concat (drop i bs)"
    by (simp flip: concat_append)
  then show thesis
    using assms that by (auto simp: rp_run_append bind_eq_Some_conv)
qed

lemma drawn_ids_prefix: "set (drawn_ids (concat (take i bs))) \<subseteq> set (drawn_ids (concat bs))"
  by (auto simp: drawn_ids_def dest: in_set_takeD)


subsection \<open>Witnesses\<close>

text \<open>A browser that finds a login form everywhere, and one on an application that stops serving after two seconds.\<close>

definition plain_browser :: "'w browser" where
  "plain_browser = \<lparr>spawn = \<lambda>w. w, poll = \<lambda>w. (Some ''ws://'', w), attach = \<lambda>u w. (Inr (), w), navigate = \<lambda>u w. (Inr (), w),
     sleep = \<lambda>ms w. w, origin = \<lambda>w. (Inr ''https://app'', w), fetch = \<lambda>u w. (Inr (200, ''basic''), w),
     login_form = \<lambda>w. (Inr (Some (''t'', None)), w), post = \<lambda>p b w. w, close = \<lambda>w. w, kill = \<lambda>w. w\<rparr>"

definition forgetful :: "nat browser" where
  "forgetful = plain_browser\<lparr>sleep := \<lambda>ms w. if ms = 1000 then w + 1 else w,
     fetch := \<lambda>u w. (Inr (if w < 2 then (200, ''basic'') else (0, ''opaqueredirect'')), w)\<rparr>"

definition example_argv :: "string list" where
  "example_argv = [''--rp-login'', ''https://app/login'', ''--rp-protected'', ''https://app/account'', ''--idp'', ''https://id'',
     ''--username'', ''alice'', ''--password'', ''secret'']"

theorem check_verdict_witness:
  "fst (snd (check_tool forgetful (\<lambda>_. Some ''https://app'') (\<lambda>_. None) example_argv 0)) = verdict True
   \<and> fst (check_tool forgetful (\<lambda>_. Some ''https://app'') (\<lambda>_. None) example_argv 0) = 0"
proof -
  let ?r = "check_tool forgetful (\<lambda>_. Some ''https://app'') (\<lambda>_. None) example_argv 0"
  obtain code rs w' where r: "?r = (code, rs, w')"
    by (rule prod_cases3)
  have "fst ?r = 0"
    by code_simp
  then show ?thesis
    using check_verdict [OF r] r by simp
qed


end
