(* ===== verification/Tool_Preflight.thy ===== *)
theory Tool_Preflight
  imports Tool_Prelude "HOL-Library.AList"
begin

section \<open>The conformance preflight\<close>

text \<open>
  \<^verbatim>\<open>src/tools/conformance-preflight/preflight.mjs\<close>: a script that goes through one authorization code flow with an OpenID
  provider and checks what it answers.

  The provider is a function from requests to responses on a world of any type; a request may raise. The world of a script is
  this world with the cookie jar. Parameters stand for the parsing of JSON, the decoding of a part of a token, the
  conversion of a JSON value that is no string to text, random values, the hash of the code challenge and the time. The callback URL
  is taken to be a URL, and a field of a document that is no string is no URL. Names of headers are in lower case, as
  the \<^verbatim>\<open>Headers\<close> of a response have them.
\<close>

subsection \<open>The cookie jar\<close>

type_synonym jar = "(string \<times> string) list"

definition cookie_header :: "jar \<Rightarrow> string" where
  "cookie_header j = join ''; '' (map (\<lambda>(k, v). k @ ''='' @ v) j)"

text \<open>A comma separates two cookies when an equals sign follows, after at least one character and before the next semicolon.\<close>

definition cookie_follows :: "string \<Rightarrow> bool" where
  "cookie_follows s = (CHR ''='' \<in> set (tl (takeWhile (\<lambda>c. c \<noteq> CHR '';'') s)))"

fun split_cookies :: "string \<Rightarrow> string list" where
  "split_cookies [] = [[]]"
| "split_cookies (c # s) =
     (if c = CHR '','' \<and> cookie_follows s then [] # split_cookies s
      else case split_cookies s of [] \<Rightarrow> [[c]] | p # ps \<Rightarrow> (c # p) # ps)"

definition store_cookie :: "string \<Rightarrow> jar \<Rightarrow> jar" where
  "store_cookie part j =
     (case split_at CHR ''='' (hd (split_at CHR '';'' part)) of
        name # value # more \<Rightarrow> if name \<noteq> [] then AList.update (trim name) (trim (join ''='' (value # more))) j else j
      | _ \<Rightarrow> j)"

definition store_cookies :: "(string \<times> string) list \<Rightarrow> jar \<Rightarrow> jar" where
  "store_cookies hs j = fold (\<lambda>(k, v) j. if k = ''set-cookie'' then fold store_cookie (split_cookies v) j else j) hs j"

subsection \<open>Requests\<close>

record http_request =
  url :: string
  verb :: string
  req_headers :: "(string \<times> string) list"
  req_body :: "string option"

record http_response =
  rs_status :: int
  rs_headers :: "(string \<times> string) list"
  rs_body :: string

type_synonym 'w provider = "http_request \<Rightarrow> ('w, http_response) raising"

definition get_url :: "string \<Rightarrow> http_request" where
  "get_url u = \<lparr>url = u, verb = ''GET'', req_headers = [], req_body = None\<rparr>"

definition post_form :: "string \<Rightarrow> (string \<times> string) list \<Rightarrow> http_request" where
  "post_form u ps = \<lparr>url = u, verb = ''POST'', req_headers = [(''content-type'', ''application/x-www-form-urlencoded'')],
     req_body = Some (serialise ps)\<rparr>"

text \<open>Without the jar, and with it.\<close>

definition plain_fetch :: "'w provider \<Rightarrow> http_request \<Rightarrow> (jar \<times> 'w, http_response) script" where
  "plain_fetch ask r = lift (\<lambda>(j, w). case ask r w of (a, w') \<Rightarrow> (a, j, w'))"

definition req :: "'w provider \<Rightarrow> http_request \<Rightarrow> (jar \<times> 'w, http_response) script" where
  "req ask r =
     lift (\<lambda>(j, w).
       let c = cookie_header j
       in case ask (r\<lparr>req_headers := req_headers r @ (if c \<noteq> [] then [(''cookie'', c)] else [])\<rparr>) w of
            (Inl e, w') \<Rightarrow> (Inl e, j, w')
          | (Inr a, w') \<Rightarrow> (Inr a, store_cookies (rs_headers a) j, w'))"

definition header :: "http_response \<Rightarrow> string \<Rightarrow> string option" where
  "header a = map_of (rs_headers a)"

subsection \<open>Values\<close>

record platform =
  parse_json :: "string \<Rightarrow> json option"
  decode_part :: "string \<Rightarrow> json option"
  other_text :: "json \<Rightarrow> string"

record settings =
  issuer :: string
  cid :: string
  redirect_uri :: string
  username :: string
  password :: string
  verifier :: string
  challenge :: string
  csrf_state :: string
  nonce :: string
  current_time :: int

text \<open>The object whose members are read next: \<^verbatim>\<open>null\<close> raises.\<close>

definition json_of :: "json option \<Rightarrow> ('w, json) script" where
  "json_of j = (case j of None \<Rightarrow> throw ''SyntaxError'' | Some J_null \<Rightarrow> throw ''TypeError'' | Some v \<Rightarrow> return v)"

definition url_of :: "json option \<Rightarrow> ('w, string) script" where
  "url_of j = (case j of Some (J_string u) \<Rightarrow> return u | _ \<Rightarrow> throw ''Failed to parse URL'')"

definition text_of :: "platform \<Rightarrow> json option \<Rightarrow> string" where
  "text_of pf j = (case j of None \<Rightarrow> ''undefined'' | Some (J_string s) \<Rightarrow> s | Some v \<Rightarrow> other_text pf v)"

text \<open>Strict equality: two values that are no primitives differ.\<close>

definition strict_eq :: "json option \<Rightarrow> json option \<Rightarrow> bool" where
  "strict_eq a b = (a = b \<and> (case a of None \<Rightarrow> True | Some j \<Rightarrow> primitive j))"

text \<open>\<^verbatim>\<open>every\<close> and \<^verbatim>\<open>some\<close> over the keys of a key set: both stop early, and a key that is \<^verbatim>\<open>null\<close> raises.\<close>

fun every_key :: "(json \<Rightarrow> bool) \<Rightarrow> json list \<Rightarrow> ('w, bool) script" where
  "every_key p [] = return True"
| "every_key p (k # ks) = (if k = J_null then throw ''TypeError'' else if p k then every_key p ks else return False)"

fun some_key :: "(json \<Rightarrow> bool) \<Rightarrow> json list \<Rightarrow> ('w, bool) script" where
  "some_key p [] = return False"
| "some_key p (k # ks) = (if k = J_null then throw ''TypeError'' else if p k then return True else some_key p ks)"

definition keys_of :: "json option \<Rightarrow> ('w, json list) script" where
  "keys_of j = (case j of Some (J_array ks) \<Rightarrow> return ks | _ \<Rightarrow> throw ''TypeError'')"

definition list_includes :: "json option \<Rightarrow> string \<Rightarrow> ('w, bool) script" where
  "list_includes j s =
     (if \<not> true_value j then return False
      else case j of Some (J_array xs) \<Rightarrow> return (J_string s \<in> set xs) | Some (J_string t) \<Rightarrow> return (contains t s) | _ \<Rightarrow> throw ''TypeError'')"

definition number_value :: "json option \<Rightarrow> int option" where
  "number_value j = (case j of Some (J_num n) \<Rightarrow> Some n | Some (J_bool b) \<Rightarrow> Some (if b then 1 else 0) | Some J_null \<Rightarrow> Some 0 | _ \<Rightarrow> None)"

subsection \<open>The login page and the way back\<close>

text \<open>The first match of \<^verbatim>\<open>prefix([^"]*)"\<close>.\<close>

fun field_value :: "string \<Rightarrow> string \<Rightarrow> string option" where
  "field_value p [] = None"
| "field_value p (c # s) =
     (if starts_with (c # s) p \<and> CHR 0x22 \<in> set (drop (length p) (c # s))
      then Some (takeWhile (\<lambda>c. c \<noteq> CHR 0x22) (drop (length p) (c # s))) else field_value p s)"

definition named_field :: "string \<Rightarrow> string" where
  "named_field n = ''name='' @ [CHR 0x22] @ n @ [CHR 0x22] @ '' value='' @ [CHR 0x22]"

function replace_all :: "string \<Rightarrow> string \<Rightarrow> string \<Rightarrow> string" where
  "replace_all old new [] = []"
| "replace_all old new (c # s) =
     (if old \<noteq> [] \<and> starts_with (c # s) old then new @ replace_all old new (drop (length old) (c # s))
      else c # replace_all old new s)"
  by pat_completeness auto
termination
  by (relation "measure (\<lambda>(old, new, s). length s)") (auto simp: starts_with_def)

definition unescape :: "string \<Rightarrow> string" where
  "unescape s = replace_all ''&#34;'' [CHR 0x22] (replace_all ''&#43;'' ''+'' (replace_all ''&amp;'' ''&'' s))"

text \<open>At most five redirects are followed, and the callback URL is where it stops.\<close>

fun follow :: "'w provider \<Rightarrow> settings \<Rightarrow> nat \<Rightarrow> string option \<Rightarrow> (jar \<times> 'w, string) script" where
  "follow ask st 0 loc = return []"
| "follow ask st (Suc n) loc =
     (case loc of
        None \<Rightarrow> return []
      | Some l \<Rightarrow>
          if l = [] then return []
          else if starts_with l (redirect_uri st) then return l
          else seq (req ask (get_url (if starts_with l ''http'' then l else issuer st @ l)))
                 (\<lambda>a. follow ask st n (header a ''location'')))"

definition query_of :: "string \<Rightarrow> string" where
  "query_of u = drop 1 (dropWhile (\<lambda>c. c \<noteq> CHR ''?'') (takeWhile (\<lambda>c. c \<noteq> CHR ''#'') u))"

subsection \<open>The checks\<close>

definition METADATA :: "string list" where
  "METADATA = [''authorization_endpoint'', ''token_endpoint'', ''jwks_uri'', ''response_types_supported'',
     ''subject_types_supported'', ''id_token_signing_alg_values_supported'']"

definition record_checks :: "results \<Rightarrow> ('w, unit) script" where
  "record_checks cs s = (Inr (), fst s @ cs, snd s)"

definition discovery :: "platform \<Rightarrow> 'w provider \<Rightarrow> settings \<Rightarrow> (jar \<times> 'w, json) script" where
  "discovery pf ask st =
     seq (plain_fetch ask (get_url (issuer st @ ''/.well-known/openid-configuration''))) (\<lambda>a.
     seq (json_of (parse_json pf (rs_body a))) (\<lambda>disco.
     seq (record_checks ((''issuer in the document equals the requested issuer'', member_of disco ''issuer'' = Some (J_string (issuer st)))
       # map (\<lambda>f. (''REQUIRED metadata: '' @ f, member_of disco f \<noteq> None)) METADATA)) (\<lambda>_.
     seq (list_includes (member_of disco ''id_token_signing_alg_values_supported'') ''RS256'') (\<lambda>ok.
     seq (record_check ''RS256 is offered'' ok) (\<lambda>_. return disco)))))"

definition key_set :: "platform \<Rightarrow> 'w provider \<Rightarrow> json \<Rightarrow> (jar \<times> 'w, json list) script" where
  "key_set pf ask disco =
     seq (url_of (member_of disco ''jwks_uri'')) (\<lambda>u.
     seq (plain_fetch ask (get_url u)) (\<lambda>a.
     seq (json_of (parse_json pf (rs_body a))) (\<lambda>jwks.
     seq (record_check ''JWKS contains keys''
       (case member_of jwks ''keys'' of Some (J_array ks) \<Rightarrow> ks \<noteq> [] | _ \<Rightarrow> False)) (\<lambda>_.
     seq (keys_of (member_of jwks ''keys'')) (\<lambda>ks.
     seq (every_key (\<lambda>k. true_value (member_of k ''kid'')) ks) (\<lambda>ok.
     seq (record_check ''every key has a kid'' ok) (\<lambda>_.
     seq (every_key (\<lambda>k. \<not> true_value (member_of k ''d'') \<and> \<not> true_value (member_of k ''p'') \<and> \<not> true_value (member_of k ''q'')) ks) (\<lambda>ok.
     seq (record_check ''no private key material is published'' ok) (\<lambda>_. return ks)))))))))"

definition error_requests :: "'w provider \<Rightarrow> settings \<Rightarrow> json \<Rightarrow> (jar \<times> 'w, unit) script" where
  "error_requests ask st disco =
     seq (url_of (member_of disco ''authorization_endpoint'')) (\<lambda>u.
     seq (req ask (get_url (u @ ''?response_type=code&client_id='' @ encode_uri_component (cid st)
       @ ''&redirect_uri='' @ encode_uri_component ''https://attacker.test/steal'' @ ''&scope=openid''))) (\<lambda>bad.
     seq (record_check ''an unregistered redirect_uri is NOT redirected to''
       (\<not> starts_with (or_else (header bad ''location'') []) ''https://attacker.test'')) (\<lambda>_.
     seq (req ask (get_url (u @ ''?client_id='' @ encode_uri_component (cid st)
       @ ''&redirect_uri='' @ encode_uri_component (redirect_uri st) @ ''&scope=openid''))) (\<lambda>no_rt.
     record_check ''missing response_type returns invalid_request TO THE CLIENT''
       (contains (or_else (header no_rt ''location'') []) ''error=invalid_request'')))))"

text \<open>The flow up to the callback, whose query is the value; \<open>None\<close> ends the run early.\<close>

definition authorize :: "'w provider \<Rightarrow> settings \<Rightarrow> json \<Rightarrow> (jar \<times> 'w, string option) script" where
  "authorize ask st disco =
     seq (url_of (member_of disco ''authorization_endpoint'')) (\<lambda>u.
     seq (req ask (get_url (u @ ''?'' @ serialise [(''response_type'', ''code''), (''client_id'', cid st),
       (''redirect_uri'', redirect_uri st), (''scope'', ''openid email''), (''state'', csrf_state st), (''nonce'', nonce st),
       (''code_challenge'', challenge st), (''code_challenge_method'', ''S256'')]))) (\<lambda>page.
     if \<not> truthy (field_value (named_field ''csrf_token'') (rs_body page)) then
       seq (record_check ''the authorization endpoint presented a login form'' False) (\<lambda>_. return None)
     else
       seq (req ask (post_form (issuer st @ ''/login'') [(''username'', username st), (''password'', password st),
         (''csrf_token'', the (field_value (named_field ''csrf_token'') (rs_body page))),
         (''authz'', or_else (map_option unescape (field_value (named_field ''authz'') (rs_body page))) [])])) (\<lambda>login.
       seq (follow ask st 5 (header login ''location'')) (\<lambda>cb.
       seq (return (query_of (if cb = [] then ''http://x/'' else cb))) (\<lambda>cbq.
       seq (record_checks
         [(''authorization code returned to the registered redirect_uri'', truthy (form_get cbq ''code'')),
          (''state is echoed verbatim'', form_get cbq ''state'' = Some (csrf_state st)),
          (''iss is returned in the authorization response'', form_get cbq ''iss'' = Some (issuer st))]) (\<lambda>_.
       return (Some cbq)))))))"

definition token_body :: "settings \<Rightarrow> string \<Rightarrow> (string \<times> string) list" where
  "token_body st cbq =
     [(''grant_type'', ''authorization_code''), (''code'', case form_get cbq ''code'' of None \<Rightarrow> ''null'' | Some c \<Rightarrow> c),
      (''client_id'', cid st), (''redirect_uri'', redirect_uri st), (''code_verifier'', verifier st)]"

definition jwt_part :: "platform \<Rightarrow> json option \<Rightarrow> nat \<Rightarrow> ('w, json) script" where
  "jwt_part pf t i =
     (case t of
        Some (J_string s) \<Rightarrow>
          if i < length (split_at CHR ''.'' s) then json_of (decode_part pf (split_at CHR ''.'' s ! i)) else throw ''TypeError''
      | _ \<Rightarrow> throw ''TypeError'')"

definition token :: "platform \<Rightarrow> 'w provider \<Rightarrow> settings \<Rightarrow> json \<Rightarrow> string \<Rightarrow> (jar \<times> 'w, json) script" where
  "token pf ask st disco cbq =
     seq (url_of (member_of disco ''token_endpoint'')) (\<lambda>u.
     seq (plain_fetch ask (post_form u (token_body st cbq))) (\<lambda>tr.
     seq (json_of (parse_json pf (rs_body tr))) (\<lambda>tok.
     seq (record_checks
       [(''token response returns access_token and id_token'', true_value (member_of tok ''access_token'') \<and> true_value (member_of tok ''id_token'')),
        (''token_type is Bearer'', member_of tok ''token_type'' = Some (J_string ''Bearer'')),
        (''token response is not cacheable'', contains (or_else (header tr ''cache-control'') []) ''no-store'')]) (\<lambda>_.
     return tok))))"

definition id_token_checks :: "settings \<Rightarrow> json \<Rightarrow> results" where
  "id_token_checks st idc =
     [(''iss matches the issuer exactly'', member_of idc ''iss'' = Some (J_string (issuer st))),
      (''aud contains the client id'', (case member_of idc ''aud'' of
         Some (J_string a) \<Rightarrow> a = cid st | Some (J_array as) \<Rightarrow> J_string (cid st) \<in> set as | _ \<Rightarrow> False)),
      (''sub is present'', true_value (member_of idc ''sub'')),
      (''exp is in the future'', (case number_value (member_of idc ''exp'') of None \<Rightarrow> False | Some e \<Rightarrow> current_time st < e * 1000)),
      (''iat is present'', true_value (member_of idc ''iat'')),
      (''nonce is echoed verbatim'', member_of idc ''nonce'' = Some (J_string (nonce st)))]"

definition id_token :: "platform \<Rightarrow> settings \<Rightarrow> json list \<Rightarrow> json \<Rightarrow> ('w, json) script" where
  "id_token pf st ks tok =
     seq (jwt_part pf (member_of tok ''id_token'') 1) (\<lambda>idc.
     seq (jwt_part pf (member_of tok ''id_token'') 0) (\<lambda>idh.
     seq (record_checks (id_token_checks st idc)) (\<lambda>_.
     seq (some_key (\<lambda>k. strict_eq (member_of k ''kid'') (member_of idh ''kid'')) ks) (\<lambda>ok.
     seq (record_checks
       [(''the signing kid is published in the JWKS'', ok),
        (''alg is not none'', true_value (member_of idh ''alg'') \<and> member_of idh ''alg'' \<noteq> Some (J_string ''none''))]) (\<lambda>_.
     return idc)))))"

definition replay_check :: "'w provider \<Rightarrow> settings \<Rightarrow> json \<Rightarrow> string \<Rightarrow> (jar \<times> 'w, unit) script" where
  "replay_check ask st disco cbq =
     seq (url_of (member_of disco ''token_endpoint'')) (\<lambda>u.
     seq (plain_fetch ask (post_form u (token_body st cbq))) (\<lambda>replay.
     record_check ''an authorization code cannot be replayed'' (rs_status replay \<noteq> 200)))"

definition userinfo :: "platform \<Rightarrow> 'w provider \<Rightarrow> json \<Rightarrow> json \<Rightarrow> json \<Rightarrow> (jar \<times> 'w, unit) script" where
  "userinfo pf ask disco tok idc =
     seq (url_of (member_of disco ''userinfo_endpoint'')) (\<lambda>u.
     seq (plain_fetch ask ((get_url u)\<lparr>req_headers := [(''authorization'', ''Bearer '' @ text_of pf (member_of tok ''access_token''))]\<rparr>)) (\<lambda>ui.
     seq (json_of (Some (case parse_json pf (rs_body ui) of None \<Rightarrow> J_object [] | Some j \<Rightarrow> j))) (\<lambda>uij.
     seq (record_checks [(''userinfo returns sub'', true_value (member_of uij ''sub'')),
       (''userinfo sub MATCHES the id_token sub'', strict_eq (member_of uij ''sub'') (member_of idc ''sub''))]) (\<lambda>_.
     seq (plain_fetch ask (get_url u)) (\<lambda>no_auth.
     record_check ''userinfo without a token is refused'' (rs_status no_auth = 401))))))"

definition preflight_main :: "platform \<Rightarrow> 'w provider \<Rightarrow> settings \<Rightarrow> (jar \<times> 'w, unit) script" where
  "preflight_main pf ask st =
     seq (discovery pf ask st) (\<lambda>disco.
     seq (key_set pf ask disco) (\<lambda>ks.
     seq (error_requests ask st disco) (\<lambda>_.
     seq (authorize ask st disco) (\<lambda>r.
       case r of
         None \<Rightarrow> return ()
       | Some cbq \<Rightarrow>
           seq (token pf ask st disco cbq) (\<lambda>tok.
           seq (id_token pf st ks tok) (\<lambda>idc.
           seq (replay_check ask st disco cbq) (\<lambda>_.
           userinfo pf ask disco tok idc)))))))"

text \<open>The exit code, the results, and the jar and the world that are left. The five arguments have to be there.\<close>

definition preflight :: "platform \<Rightarrow> 'w provider \<Rightarrow> settings \<Rightarrow> 'w \<Rightarrow> int \<times> results \<times> jar \<times> 'w" where
  "preflight pf ask st w =
     (if [] \<in> {issuer st, cid st, redirect_uri st, username st, password st} then (2, [], [], w)
      else case preflight_main pf ask st ([], [], w) of
        (Inr _, rs, jw) \<Rightarrow> (exit_code rs, rs, jw)
      | (Inl _, rs, jw) \<Rightarrow> (harness_error, rs, jw))"

subsection \<open>What a passed preflight shows\<close>

text \<open>A provider whose world also keeps what was asked and answered.\<close>

type_synonym exchanges = "(http_request \<times> http_response) list"

definition logged :: "'w provider \<Rightarrow> (exchanges \<times> 'w) provider" where
  "logged ask r lw =
     (case ask r (snd lw) of (Inl e, w') \<Rightarrow> (Inl e, fst lw, w') | (Inr a, w') \<Rightarrow> (Inr a, fst lw @ [(r, a)], w'))"

definition heard :: "results \<times> jar \<times> exchanges \<times> 'w \<Rightarrow> exchanges" where
  "heard s = fst (snd (snd s))"

definition all_ok :: "results \<Rightarrow> bool" where
  "all_ok rs = list_all snd rs"

lemma all_ok_simps [simp]: "all_ok (rs @ rs') \<longleftrightarrow> all_ok rs \<and> all_ok rs'" "all_ok []" "all_ok ((n, ok) # rs) \<longleftrightarrow> ok \<and> all_ok rs"
  by (simp_all add: all_ok_def)

lemma exit_code_all_ok: "exit_code rs = 0 \<longleftrightarrow> all_ok rs"
  by (simp add: exit_code_0_iff all_ok_def list_all_iff)

lemma heard_simp [simp]: "heard (rs, j, l, w) = l"
  by (simp add: heard_def)

lemma record_steps:
  "record_check n ok s = (Inr a, t) \<Longrightarrow> fst t = fst s @ [(n, ok)] \<and> heard t = heard s"
  "record_checks cs s = (Inr a, t) \<Longrightarrow> fst t = fst s @ cs \<and> heard t = heard s"
  by (auto simp: record_check_def check_def record_checks_def heard_def)

lemma plain_fetch_step: "plain_fetch (logged ask) r s = (Inr a, t) \<Longrightarrow> fst t = fst s \<and> heard t = heard s @ [(r, a)]"
  by (auto simp: plain_fetch_def lift_def logged_def heard_def split: prod.splits sum.splits)

lemma req_step: "req (logged ask) r s = (Inr a, t) \<Longrightarrow> fst t = fst s \<and> (\<exists>r'. heard t = heard s @ [(r', a)])"
  by (auto simp: req_def lift_def logged_def heard_def Let_def split: prod.splits sum.splits)

lemma value_results:
  "json_of j s = (Inr v, t) \<Longrightarrow> t = s \<and> j = Some v" "url_of j s = (Inr u, t) \<Longrightarrow> t = s \<and> j = Some (J_string u)"
  "keys_of j s = (Inr ks, t) \<Longrightarrow> t = s \<and> j = Some (J_array ks)" "list_includes j x s = (Inr b, t) \<Longrightarrow> t = s"
  by (auto simp: json_of_def url_of_def keys_of_def list_includes_def split: option.splits json.splits if_splits)

lemma every_key_results: "every_key p ks s = (Inr b, t) \<Longrightarrow> t = s \<and> (b \<longleftrightarrow> list_all p ks)"
  by (induction p ks arbitrary: s rule: every_key.induct) (auto split: if_splits)

lemma some_key_results: "some_key p ks s = (Inr b, t) \<Longrightarrow> t = s \<and> (b \<longleftrightarrow> list_ex p ks)"
  by (induction p ks arbitrary: s rule: some_key.induct) (auto split: if_splits)

lemma jwt_part_results:
  "jwt_part pf j i s = (Inr v, t) \<Longrightarrow>
     t = s \<and> (\<exists>x. j = Some (J_string x) \<and> i < length (split_at CHR ''.'' x) \<and> decode_part pf (split_at CHR ''.'' x ! i) = Some v)"
  by (auto simp: jwt_part_def dest!: value_results(1) split: option.splits json.splits if_splits)

text \<open>The way back ends at the callback only when a response has led there.\<close>

lemma follow_step:
  "follow (logged ask) st n loc s = (Inr cb, t) \<Longrightarrow> fst t = fst s \<and> (\<exists>l. heard t = heard s @ l
     \<and> (cb = [] \<or> starts_with cb (redirect_uri st) \<and> (loc = Some cb \<or> (\<exists>r a. (r, a) \<in> set l \<and> header a ''location'' = Some cb))))"
proof (induction n arbitrary: loc s)
  case (Suc n)
  show ?case
  proof (cases "\<exists>l. loc = Some l \<and> l \<noteq> [] \<and> \<not> starts_with l (redirect_uri st)")
    case True
    then obtain u a s1 where 1: "req (logged ask) (get_url u) s = (Inr a, s1)"
      and 2: "follow (logged ask) st n (header a ''location'') s1 = (Inr cb, t)"
      using Suc.prems by (auto simp: seq_Inr)
    obtain r l where "fst s1 = fst s" "heard s1 = heard s @ [(r, a)]" "fst t = fst s1" "heard t = heard s1 @ l"
      "cb = [] \<or> starts_with cb (redirect_uri st) \<and> (header a ''location'' = Some cb \<or> (\<exists>r a. (r, a) \<in> set l \<and> header a ''location'' = Some cb))"
      using req_step [OF 1] Suc.IH [OF 2] by blast
    then show ?thesis
      by (auto intro!: exI [of _ "(r, a) # l"])
  next
    case False
    then show ?thesis
      using Suc.prems by (auto split: option.splits if_splits)
  qed
qed simp

lemmas preflight_steps = record_steps plain_fetch_step req_step value_results every_key_results some_key_results
  jwt_part_results follow_step

lemma discovery_ok:
  assumes "discovery pf (logged ask) st s = (Inr disco, t)"
  shows "\<exists>cs l a. fst t = fst s @ cs \<and> heard t = heard s @ l \<and> (get_url (issuer st @ ''/.well-known/openid-configuration''), a) \<in> set l
    \<and> parse_json pf (rs_body a) = Some disco \<and> (all_ok cs \<longrightarrow> member_of disco ''issuer'' = Some (J_string (issuer st)))"
  using assms by (auto simp: discovery_def seq_Inr dest!: preflight_steps)

lemma key_set_ok:
  assumes "key_set pf (logged ask) disco s = (Inr ks, t)"
  shows "\<exists>cs l u a jwks. fst t = fst s @ cs \<and> heard t = heard s @ l \<and> member_of disco ''jwks_uri'' = Some (J_string u)
    \<and> (get_url u, a) \<in> set l \<and> parse_json pf (rs_body a) = Some jwks \<and> member_of jwks ''keys'' = Some (J_array ks)
    \<and> (all_ok cs \<longrightarrow> ks \<noteq> [] \<and> (\<forall>k \<in> set ks. \<not> true_value (member_of k ''d'')))"
  using assms by (auto simp: key_set_def seq_Inr list_all_iff dest!: preflight_steps)

lemma error_requests_ok:
  assumes "error_requests (logged ask) st disco s = (Inr u, t)"
  shows "\<exists>cs l. fst t = fst s @ cs \<and> heard t = heard s @ l"
  using assms by (auto simp: error_requests_def seq_Inr dest!: preflight_steps)

lemma replay_ok:
  assumes "replay_check (logged ask) st disco cbq s = (Inr v, t)"
  shows "\<exists>cs l. fst t = fst s @ cs \<and> heard t = heard s @ l"
  using assms by (auto simp: replay_check_def seq_Inr dest!: preflight_steps)

lemma userinfo_ok:
  assumes "userinfo pf (logged ask) disco tok idc s = (Inr v, t)"
  shows "\<exists>cs l. fst t = fst s @ cs \<and> heard t = heard s @ l"
  using assms by (auto simp: userinfo_def seq_Inr dest!: preflight_steps)

lemma token_ok:
  assumes "token pf (logged ask) st disco cbq s = (Inr tok, t)"
  shows "\<exists>cs l u a. fst t = fst s @ cs \<and> heard t = heard s @ l \<and> member_of disco ''token_endpoint'' = Some (J_string u)
    \<and> (post_form u (token_body st cbq), a) \<in> set l \<and> parse_json pf (rs_body a) = Some tok"
  using assms by (auto simp: token_def seq_Inr dest!: preflight_steps)

text \<open>The query of a callback that the checks accept.\<close>

definition good_callback :: "settings \<Rightarrow> string \<Rightarrow> bool" where
  "good_callback st cb \<longleftrightarrow>
     starts_with cb (redirect_uri st) \<and> truthy (form_get (query_of cb) ''code'')
     \<and> form_get (query_of cb) ''state'' = Some (csrf_state st) \<and> form_get (query_of cb) ''iss'' = Some (issuer st)"

lemma no_callback_no_code: "\<not> truthy (form_get (query_of ''http://x/'') ''code'')"
  by code_simp

lemma authorize_ok:
  assumes "authorize (logged ask) st disco s = (Inr r, t)"
  shows "\<exists>cs l. fst t = fst s @ cs \<and> heard t = heard s @ l \<and> (all_ok cs \<longrightarrow> (\<exists>cb q a. r = Some (query_of cb)
    \<and> (q, a) \<in> set l \<and> header a ''location'' = Some cb \<and> good_callback st cb))"
proof (cases r)
  case None
  then show ?thesis
    using assms by (auto simp: authorize_def seq_Inr dest!: preflight_steps split: if_splits)
next
  case (Some cbq)
  obtain u s1 page s2 login s3 ps cb s4 v where run: "req (logged ask) u s1 = (Inr page, s2)" "s1 = s"
    "req (logged ask) ps s2 = (Inr login, s3)" "follow (logged ask) st 5 (header login ''location'') s3 = (Inr cb, s4)"
    "record_checks [(''authorization code returned to the registered redirect_uri'', truthy (form_get cbq ''code'')),
          (''state is echoed verbatim'', form_get cbq ''state'' = Some (csrf_state st)),
          (''iss is returned in the authorization response'', form_get cbq ''iss'' = Some (issuer st))] s4 = (Inr v, t)"
    "cbq = query_of (if cb = [] then ''http://x/'' else cb)"
    using assms Some by (auto simp: authorize_def seq_Inr dest!: value_results split: if_splits)
  obtain r2 where 2: "fst s2 = fst s" "heard s2 = heard s @ [(r2, page)]"
    using req_step [OF run(1)] run(2) by blast
  obtain r3 where 3: "fst s3 = fst s2" "heard s3 = heard s2 @ [(r3, login)]"
    using req_step [OF run(3)] by blast
  obtain l where 4: "fst s4 = fst s3" "heard s4 = heard s3 @ l"
    and cb: "cb = [] \<or> starts_with cb (redirect_uri st) \<and> (header login ''location'' = Some cb \<or> (\<exists>r a. (r, a) \<in> set l \<and> header a ''location'' = Some cb))"
    using follow_step [OF run(4)] by blast
  have "heard t = heard s @ (r2, page) # (r3, login) # l"
    and "fst t = fst s @ [(''authorization code returned to the registered redirect_uri'', truthy (form_get cbq ''code'')),
          (''state is echoed verbatim'', form_get cbq ''state'' = Some (csrf_state st)),
          (''iss is returned in the authorization response'', form_get cbq ''iss'' = Some (issuer st))]"
    using 2 3 4 record_steps(2) [OF run(5)] by simp_all
  moreover have "\<exists>q a. (q, a) \<in> set ((r2, page) # (r3, login) # l) \<and> header a ''location'' = Some cb \<and> cbq = query_of cb \<and> good_callback st cb"
    if "truthy (form_get cbq ''code'')" "form_get cbq ''state'' = Some (csrf_state st)" "form_get cbq ''iss'' = Some (issuer st)"
  proof -
    have "cb \<noteq> []" using that(1) run(6) no_callback_no_code by auto
    then show ?thesis using cb that run(6) by (auto simp: good_callback_def)
  qed
  ultimately show ?thesis
    unfolding Some by (intro exI conjI) (assumption | auto)+
qed

text \<open>The identity token that a passed run has received.\<close>

definition good_id_token :: "settings \<Rightarrow> json list \<Rightarrow> json \<Rightarrow> json \<Rightarrow> bool" where
  "good_id_token st ks idh idc \<longleftrightarrow>
     member_of idc ''iss'' = Some (J_string (issuer st))
     \<and> (member_of idc ''aud'' = Some (J_string (cid st)) \<or> (\<exists>as. member_of idc ''aud'' = Some (J_array as) \<and> J_string (cid st) \<in> set as))
     \<and> member_of idc ''nonce'' = Some (J_string (nonce st)) \<and> true_value (member_of idc ''sub'')
     \<and> (\<exists>e. number_value (member_of idc ''exp'') = Some e \<and> current_time st < e * 1000)
     \<and> (\<exists>k \<in> set ks. strict_eq (member_of k ''kid'') (member_of idh ''kid'')) \<and> member_of idh ''alg'' \<noteq> Some (J_string ''none'')"

lemma id_token_ok:
  assumes "id_token pf st ks tok s = (Inr idc, t)"
  shows "\<exists>cs. fst t = fst s @ cs \<and> heard t = heard s \<and> (all_ok cs \<longrightarrow> (\<exists>x idh. member_of tok ''id_token'' = Some (J_string x)
    \<and> decode_part pf (split_at CHR ''.'' x ! 1) = Some idc \<and> decode_part pf (split_at CHR ''.'' x ! 0) = Some idh
    \<and> good_id_token st ks idh idc))"
proof -
  obtain idh s1 s2 ok s3 s4 where run: "jwt_part pf (member_of tok ''id_token'') 1 s = (Inr idc, s1)"
    "jwt_part pf (member_of tok ''id_token'') 0 s1 = (Inr idh, s2)" "record_checks (id_token_checks st idc) s2 = (Inr (), s3)"
    "some_key (\<lambda>k. strict_eq (member_of k ''kid'') (member_of idh ''kid'')) ks s3 = (Inr ok, s4)"
    "record_checks [(''the signing kid is published in the JWKS'', ok),
        (''alg is not none'', true_value (member_of idh ''alg'') \<and> member_of idh ''alg'' \<noteq> Some (J_string ''none''))] s4 = (Inr (), t)"
    using assms unfolding id_token_def seq_Inr by auto
  let ?cs = "id_token_checks st idc @ [(''the signing kid is published in the JWKS'', ok),
        (''alg is not none'', true_value (member_of idh ''alg'') \<and> member_of idh ''alg'' \<noteq> Some (J_string ''none''))]"
  have "fst t = fst s @ ?cs" "heard t = heard s" and ok: "ok \<longleftrightarrow> list_ex (\<lambda>k. strict_eq (member_of k ''kid'') (member_of idh ''kid'')) ks"
    using jwt_part_results [OF run(1)] jwt_part_results [OF run(2)] record_steps(2) [OF run(3)]
      some_key_results [OF run(4)] record_steps(2) [OF run(5)] by simp_all
  moreover have "good_id_token st ks idh idc" if "all_ok ?cs"
    using that ok by (auto simp: good_id_token_def id_token_checks_def list_ex_iff split: option.splits json.splits)
  moreover obtain x where "member_of tok ''id_token'' = Some (J_string x)" "decode_part pf (split_at CHR ''.'' x ! 1) = Some idc"
    "decode_part pf (split_at CHR ''.'' x ! 0) = Some idh"
    using jwt_part_results [OF run(1)] jwt_part_results [OF run(2)] by auto
  ultimately show ?thesis by blast
qed

lemma late_checks_ok:
  assumes "(case r of None \<Rightarrow> return () | Some cbq \<Rightarrow> seq (token pf (logged ask) st disco cbq) (\<lambda>tok. seq (id_token pf st ks tok) (\<lambda>idc.
       seq (replay_check (logged ask) st disco cbq) (\<lambda>_. userinfo pf (logged ask) disco tok idc)))) s = (Inr u, rs, j, log, w')"
  shows "\<exists>cs l. rs = fst s @ cs \<and> log = heard s @ l \<and> (\<forall>cbq. r = Some cbq \<longrightarrow> all_ok cs \<longrightarrow>
    (\<exists>v y tok x idh idc. member_of disco ''token_endpoint'' = Some (J_string v)
      \<and> (post_form v (token_body st cbq), y) \<in> set l \<and> parse_json pf (rs_body y) = Some tok \<and> member_of tok ''id_token'' = Some (J_string x)
      \<and> decode_part pf (split_at CHR ''.'' x ! 1) = Some idc \<and> decode_part pf (split_at CHR ''.'' x ! 0) = Some idh
      \<and> good_id_token st ks idh idc))"
proof (cases r)
  case (Some cbq)
  then obtain tok s5 idc s6 y s7 where "token pf (logged ask) st disco cbq s = (Inr tok, s5)" "id_token pf st ks tok s5 = (Inr idc, s6)"
    "replay_check (logged ask) st disco cbq s6 = (Inr y, s7)" "userinfo pf (logged ask) disco tok idc s7 = (Inr u, rs, j, log, w')"
    using assms by (simp only: option.case seq_Inr) blast
  note later = token_ok [OF this(1)] id_token_ok [OF this(2)] replay_ok [OF this(3)] userinfo_ok [OF this(4)]
  from later(1) obtain cs1 l1 v a where t: "fst s5 = fst s @ cs1" "heard s5 = heard s @ l1" "member_of disco ''token_endpoint'' = Some (J_string v)"
    "(post_form v (token_body st cbq), a) \<in> set l1" "parse_json pf (rs_body a) = Some tok" by blast
  from later(2-4) obtain cs2 cs3 l3 cs4 l4 where i: "rs = fst s5 @ cs2 @ cs3 @ cs4" "log = heard s5 @ l3 @ l4"
    "all_ok cs2 \<longrightarrow> (\<exists>x idh. member_of tok ''id_token'' = Some (J_string x) \<and> decode_part pf (split_at CHR ''.'' x ! 1) = Some idc
      \<and> decode_part pf (split_at CHR ''.'' x ! 0) = Some idh \<and> good_id_token st ks idh idc)" by auto
  show ?thesis
    using t i Some by (intro exI [of _ "cs1 @ cs2 @ cs3 @ cs4"] exI [of _ "l1 @ l3 @ l4"] conjI) (simp_all, blast)
qed (use assms in \<open>auto simp: return_def heard_def\<close>)


text \<open>A provider that passes.\<close>

definition example_settings :: settings where
  "example_settings = \<lparr>issuer = ''https://id'', cid = ''app'', redirect_uri = ''https://app/cb'', username = ''alice'', password = ''secret'',
     verifier = ''v'', challenge = ''c'', csrf_state = ''st'', nonce = ''n'', current_time = 5000\<rparr>"

definition example_platform :: platform where
  "example_platform = \<lparr>
     parse_json = map_of
       [(''disco'', J_object ([(''issuer'', J_string ''https://id''), (''authorization_endpoint'', J_string ''https://id/a''),
           (''token_endpoint'', J_string ''https://id/t''), (''jwks_uri'', J_string ''https://id/k''),
           (''userinfo_endpoint'', J_string ''https://id/u''), (''response_types_supported'', J_array []), (''subject_types_supported'', J_array []),
           (''id_token_signing_alg_values_supported'', J_array [J_string ''RS256''])])),
        (''jwks'', J_object [(''keys'', J_array [J_object [(''kid'', J_string ''k1'')]])]),
        (''tok'', J_object [(''access_token'', J_string ''at''), (''id_token'', J_string ''h.p.s''), (''token_type'', J_string ''Bearer'')]),
        (''ui'', J_object [(''sub'', J_string ''u1'')])],
     decode_part = map_of
       [(''h'', J_object [(''kid'', J_string ''k1''), (''alg'', J_string ''RS256'')]),
        (''p'', J_object [(''iss'', J_string ''https://id''), (''aud'', J_string ''app''), (''sub'', J_string ''u1''), (''exp'', J_num 9),
           (''iat'', J_num 4), (''nonce'', J_string ''n'')])],
     other_text = \<lambda>_. []\<rparr>"

definition answer :: "int \<Rightarrow> (string \<times> string) list \<Rightarrow> string \<Rightarrow> http_response" where
  "answer s hs b = \<lparr>rs_status = s, rs_headers = hs, rs_body = b\<rparr>"

text \<open>The world counts the requests to the token endpoint.\<close>

definition example_provider :: "nat provider" where
  "example_provider r n =
     (if starts_with (url r) ''https://id/.well'' then (Inr (answer 200 [] ''disco''), n)
      else if starts_with (url r) ''https://id/k'' then (Inr (answer 200 [] ''jwks''), n)
      else if starts_with (url r) ''https://id/a?response_type=code&client_id=app&redirect_uri=https%3A%2F%2Fattacker''
      then (Inr (answer 400 [] []), n)
      else if starts_with (url r) ''https://id/a?client_id'' then (Inr (answer 302 [(''location'', ''https://app/cb?error=invalid_request'')] []), n)
      else if starts_with (url r) ''https://id/a?'' then
        (Inr (answer 200 [(''set-cookie'', ''s=1; Path=/'')] (named_field ''csrf_token'' @ ''tt'' @ [CHR 0x22])), n)
      else if starts_with (url r) ''https://id/login'' then
        (Inr (answer 302 [(''location'', ''https://app/cb?'' @ serialise [(''code'', ''cc''), (''state'', ''st''), (''iss'', ''https://id'')])] []), n)
      else if starts_with (url r) ''https://id/t'' then
        (Inr (if n = 0 then answer 200 [(''cache-control'', ''no-store'')] ''tok'' else answer 400 [] []), n + 1)
      else if req_headers r \<noteq> [] then (Inr (answer 200 [] ''ui''), n) else (Inr (answer 401 [] []), n))"


subsection \<open>Cookies\<close>

text \<open>A name and a value are kept as they are when they have no separators and no space at their ends.\<close>

definition clean :: "string \<Rightarrow> bool" where
  "clean s \<longleftrightarrow> s \<noteq> [] \<and> CHR '';'' \<notin> set s \<and> trim s = s"

lemma split_at_hd: "c \<notin> set p \<Longrightarrow> rest = [] \<or> hd rest = c \<Longrightarrow> hd (split_at c (p @ rest)) = p"
  by (cases rest) (auto simp: split_at_no_sep split_at_sep)

text \<open>A cookie is stored under its name with the whole of its value, equals signs included, and without its attributes.\<close>

lemma store_cookie_value:
  assumes "clean n" and "CHR ''='' \<notin> set n" and "clean v" and "attributes = [] \<or> hd attributes = CHR '';''"
  shows "store_cookie (n @ ''='' @ v @ attributes) j = AList.update n v j"
proof -
  have "hd (split_at CHR '';'' ((n @ CHR ''='' # v) @ attributes)) = n @ CHR ''='' # v"
    using assms by (intro split_at_hd) (auto simp: clean_def)
  moreover have "split_at CHR ''='' (n @ CHR ''='' # v) = n # split_at CHR ''='' v"
    using assms(2) by (rule split_at_sep)
  moreover obtain w ws where "split_at CHR ''='' v = w # ws"
    by (cases "split_at CHR ''='' v") auto
  moreover from this have "join ''='' (w # ws) = v"
    using join_split_at [of "CHR ''=''" v] by simp
  ultimately show ?thesis
    using assms(1,3) by (simp add: store_cookie_def clean_def)
qed

lemma store_cookie_distinct: "distinct (map fst j) \<Longrightarrow> distinct (map fst (store_cookie part j))"
  by (auto simp: store_cookie_def distinct_update split: list.split)

lemma fold_store_distinct: "distinct (map fst j) \<Longrightarrow> distinct (map fst (fold store_cookie parts j))"
  by (induction parts arbitrary: j) (simp_all add: store_cookie_distinct)

text \<open>Whatever the headers say, the jar has one value for a name.\<close>

lemma store_cookies_distinct: "distinct (map fst j) \<Longrightarrow> distinct (map fst (store_cookies hs j))"
  unfolding store_cookies_def by (induction hs arbitrary: j) (auto simp: fold_store_distinct)

text \<open>The comma in a date does not separate cookies; one in a value followed by a pair does.\<close>

lemma date_is_not_split:
  "split_cookies ''a=b; Expires=Wed, 21 Oct 2026 07:28:00 GMT; Path=/'' = [''a=b; Expires=Wed, 21 Oct 2026 07:28:00 GMT; Path=/'']"
  by code_simp

lemma joined_cookies_are_split: "split_cookies ''a=b; Path=/,c=d'' = [''a=b; Path=/'', ''c=d'']"
  by code_simp

text \<open>A cookie that the provider deletes stays in the jar, since attributes are not read.\<close>

lemma deleted_cookie_stays: "store_cookie ''s=; Max-Age=0'' [(''s'', ''1'')] = [(''s'', [])]"
  by code_simp

end
