(* ===== verification/Tool_Interop.thy ===== *)
theory Tool_Interop
  imports Tool_Prelude
begin

section \<open>The interoperability scripts\<close>

text \<open>
  \<^verbatim>\<open>src/interop/verify.mjs\<close>, which has a second implementation of JSON web tokens verify the tokens of the engine, and
  \<^verbatim>\<open>src/interop/passkey-e2e.mjs\<close>, which signs in with a passkey through a browser with a virtual authenticator.

  The library \<^verbatim>\<open>jose\<close> is a record of functions, where \<open>None\<close> or \<open>Inl\<close> is an exception, as are the fetch of the
  discovery document, the hash, the base64url encoding and the text of a value that is no string. Times in a token are taken to be
  numbers or missing. The browser is a record of operations on a world of any type, as
  for the logout check.
\<close>

subsection \<open>Verifying tokens\<close>

record jose =
  protected_header :: "string \<Rightarrow> json option"
  decode_jwt :: "string \<Rightarrow> json option"
  jwt_verify :: "string \<Rightarrow> string \<Rightarrow> json option \<Rightarrow> string + json"
  is_url :: "string \<Rightarrow> bool"

record crypto =
  sha256 :: "string \<Rightarrow> nat list"
  base64url :: "nat list \<Rightarrow> string"
  plain_text :: "json \<Rightarrow> string"

definition num_member :: "json \<Rightarrow> string \<Rightarrow> int option" where
  "num_member j f = (case member_of j f of Some (J_num n) \<Rightarrow> Some n | _ \<Rightarrow> None)"

definition raise_none :: "'a option \<Rightarrow> (unit, 'a) script" where
  "raise_none j = (case j of None \<Rightarrow> throw ''exception'' | Some v \<Rightarrow> return v)"

definition advertises :: "crypto \<Rightarrow> json \<Rightarrow> json option \<Rightarrow> (unit, bool) script" where
  "advertises cr discovery alg =
     (case member_of discovery ''id_token_signing_alg_values_supported'' of
        Some (J_array xs) \<Rightarrow> return (\<exists>a \<in> set xs. alg = Some a \<and> primitive a)
      | Some (J_string t) \<Rightarrow>
          return (contains t (case alg of None \<Rightarrow> ''undefined'' | Some (J_string a) \<Rightarrow> a | Some v \<Rightarrow> plain_text cr v))
      | _ \<Rightarrow> throw ''TypeError'')"

text \<open>The token's own audience is what the library is asked to check.\<close>

definition verify_id_token :: "jose \<Rightarrow> int \<Rightarrow> string \<Rightarrow> string \<Rightarrow> (unit, unit) script" where
  "verify_id_token lib now issuer t =
     (case (case decode_jwt lib t of None \<Rightarrow> Inl ''exception'' | Some c \<Rightarrow> jwt_verify lib t issuer (member_of c ''aud'')) of
        Inl e \<Rightarrow> record_check ''id_token signature verifies under an independent implementation'' False
      | Inr payload \<Rightarrow>
          seq (record_check ''id_token signature verifies under an independent implementation'' True) (\<lambda>_.
          seq (record_check ''id_token has sub'' (true_value (member_of payload ''sub''))) (\<lambda>_.
          seq (record_check ''id_token has sid'' (true_value (member_of payload ''sid''))) (\<lambda>_.
          seq (record_check ''id_token exp is in the future''
            (case num_member payload ''exp'' of None \<Rightarrow> False | Some e \<Rightarrow> now < e * 1000)) (\<lambda>_.
          record_check ''id_token iat is not in the future''
            (case num_member payload ''iat'' of None \<Rightarrow> False | Some i \<Rightarrow> i * 1000 \<le> now + 60000))))))"

definition verify_access_token :: "jose \<Rightarrow> string \<Rightarrow> string \<Rightarrow> (unit, unit) script" where
  "verify_access_token lib issuer t =
     (case jwt_verify lib t issuer None of
        Inl e \<Rightarrow> record_check ''access_token signature verifies independently'' False
      | Inr payload \<Rightarrow>
          seq (record_check ''access_token signature verifies independently'' True) (\<lambda>_.
          seq (record_check ''access_token has jti'' (true_value (member_of payload ''jti''))) (\<lambda>_.
          record_check ''access_token aud is present'' (true_value (member_of payload ''aud'')))))"

definition expected_at_hash :: "crypto \<Rightarrow> string \<Rightarrow> string" where
  "expected_at_hash cr t = base64url cr (take 16 (sha256 cr t))"

definition verify_at_hash :: "jose \<Rightarrow> crypto \<Rightarrow> string \<Rightarrow> string \<Rightarrow> (unit, unit) script" where
  "verify_at_hash lib cr id_token access_token =
     seq (raise_none (decode_jwt lib id_token)) (\<lambda>claims.
       if true_value (member_of claims ''at_hash'')
       then record_check ''at_hash is the left-most half of SHA-256(access_token)''
         (member_of claims ''at_hash'' = Some (J_string (expected_at_hash cr access_token)))
       else return ())"

definition verify_access :: "jose \<Rightarrow> crypto \<Rightarrow> string \<Rightarrow> string \<Rightarrow> json \<Rightarrow> string option \<Rightarrow> (unit, unit) script" where
  "verify_access lib cr issuer id_token header access_token =
     (if \<not> truthy access_token then return ()
      else
        seq (raise_none (protected_header lib (the access_token))) (\<lambda>at_header.
        seq (record_check ''access_token typ is at+jwt (RFC 9068)'' (member_of at_header ''typ'' = Some (J_string ''at+jwt''))) (\<lambda>_.
        seq (record_check ''id_token typ is NOT at+jwt'' (member_of header ''typ'' \<noteq> Some (J_string ''at+jwt''))) (\<lambda>_.
        seq (verify_access_token lib issuer (the access_token)) (\<lambda>_.
        verify_at_hash lib cr id_token (the access_token))))))"

definition jwks_text :: "crypto \<Rightarrow> json \<Rightarrow> string" where
  "jwks_text cr discovery =
     (case member_of discovery ''jwks_uri'' of None \<Rightarrow> ''undefined'' | Some (J_string u) \<Rightarrow> u | Some v \<Rightarrow> plain_text cr v)"

definition verify_main ::
  "jose \<Rightarrow> crypto \<Rightarrow> int \<Rightarrow> json option \<Rightarrow> string \<Rightarrow> string \<Rightarrow> string option \<Rightarrow> (unit, unit) script" where
  "verify_main lib cr now fetched issuer id_token access_token =
     seq (raise_none fetched) (\<lambda>discovery.
     seq (record_check ''discovery issuer matches the requested issuer'' (member_of discovery ''issuer'' = Some (J_string issuer))) (\<lambda>_.
     seq (record_check ''jwks_uri is under the issuer'' (starts_with (jwks_text cr discovery) issuer)) (\<lambda>_.
     seq (if is_url lib (jwks_text cr discovery) then return () else throw ''Invalid URL'') (\<lambda>_.
     seq (raise_none (protected_header lib id_token)) (\<lambda>header.
     seq (record_check ''id_token header carries a kid'' (true_value (member_of header ''kid''))) (\<lambda>_.
     seq (advertises cr discovery (member_of header ''alg'')) (\<lambda>ok.
     seq (record_check ''id_token alg is advertised in discovery'' ok) (\<lambda>_.
     seq (verify_id_token lib now issuer id_token) (\<lambda>_.
     verify_access lib cr issuer id_token header access_token)))))))))"

text \<open>An exception that nothing catches ends the process with code 1, too.\<close>

definition verify ::
  "jose \<Rightarrow> crypto \<Rightarrow> int \<Rightarrow> (string \<Rightarrow> json option) \<Rightarrow> string option \<Rightarrow> string option \<Rightarrow> string option \<Rightarrow> int \<times> results" where
  "verify lib cr now discover issuer id_token access_token =
     (if \<not> truthy issuer \<or> \<not> truthy id_token then (2, [])
      else case verify_main lib cr now (discover (the issuer @ ''/.well-known/openid-configuration'')) (the issuer) (the id_token) access_token ([], ()) of
        (Inr _, rs, _) \<Rightarrow> (exit_code rs, rs)
      | (Inl _, rs, _) \<Rightarrow> (1, rs))"

subsection \<open>What a passed verification shows\<close>

lemma record_only [simp]: "record_check n ok s = (Inr a, t) \<longleftrightarrow> t = (fst s @ [(n, ok)], snd s)"
  by (auto simp: record_check_def check_def)

lemma raise_none_eq [simp]: "raise_none j s = (Inr v, t) \<longleftrightarrow> j = Some v \<and> t = s"
  by (auto simp: raise_none_def split: option.split)

lemma advertises_eq: "advertises cr d a s = (Inr b, t) \<Longrightarrow> t = s"
  by (auto simp: advertises_def split: option.splits json.splits)

lemma verify_id_token_ok:
  assumes "verify_id_token lib now issuer x s = (Inr u, t)"
  shows "\<exists>cs. fst t = fst s @ cs \<and> ((\<forall>r \<in> set cs. snd r) \<longrightarrow> (\<exists>c p e. decode_jwt lib x = Some c
    \<and> jwt_verify lib x issuer (member_of c ''aud'') = Inr p \<and> true_value (member_of p ''sub'') \<and> true_value (member_of p ''sid'')
    \<and> num_member p ''exp'' = Some e \<and> now < e * 1000))"
  using assms by (auto simp: verify_id_token_def seq_Inr split: option.splits sum.splits)

lemma verify_access_ok:
  assumes "verify_access lib cr issuer x header access s = (Inr u, t)"
  shows "\<exists>cs. fst t = fst s @ cs \<and> ((\<forall>r \<in> set cs. snd r) \<longrightarrow> truthy access \<longrightarrow> (\<exists>h c p. protected_header lib (the access) = Some h
    \<and> member_of h ''typ'' = Some (J_string ''at+jwt'') \<and> member_of header ''typ'' \<noteq> Some (J_string ''at+jwt'')
    \<and> jwt_verify lib (the access) issuer None = Inr p \<and> true_value (member_of p ''jti'') \<and> decode_jwt lib x = Some c
    \<and> (true_value (member_of c ''at_hash'') \<longrightarrow> member_of c ''at_hash'' = Some (J_string (expected_at_hash cr (the access))))))"
  using assms by (auto simp: verify_access_def verify_access_token_def verify_at_hash_def seq_Inr split: if_splits sum.splits)

text \<open>A verification that passes: the second implementation has verified the identity token under the issuer, with a subject,
  a session identifier and an expiry in the future; and when an access token is given, that one too, under the type of access
  tokens, which the identity token does not have, and a hash of it in the identity token is the expected one.\<close>

theorem verify_pass_is_sound:
  assumes "verify lib cr now discover (Some issuer) (Some x) access = (0, rs)"
  shows "\<exists>h c p e. protected_header lib x = Some h \<and> decode_jwt lib x = Some c \<and> jwt_verify lib x issuer (member_of c ''aud'') = Inr p
    \<and> true_value (member_of p ''sub'') \<and> true_value (member_of p ''sid'') \<and> num_member p ''exp'' = Some e \<and> now < e * 1000
    \<and> (truthy access \<longrightarrow> (\<exists>ah ap. protected_header lib (the access) = Some ah \<and> member_of ah ''typ'' = Some (J_string ''at+jwt'')
        \<and> member_of h ''typ'' \<noteq> Some (J_string ''at+jwt'') \<and> jwt_verify lib (the access) issuer None = Inr ap
        \<and> (true_value (member_of c ''at_hash'') \<longrightarrow> member_of c ''at_hash'' = Some (J_string (expected_at_hash cr (the access))))))"
proof -
  obtain u v where m: "verify_main lib cr now (discover (issuer @ ''/.well-known/openid-configuration'')) issuer x access ([], ()) = (Inr u, rs, v)"
    and ok: "\<forall>r \<in> set rs. snd r"
    using assms by (auto simp: verify_def exit_code_0_iff split: if_splits prod.splits sum.splits)
  obtain h s1 s2 a where h: "protected_header lib x = Some h" and 1: "verify_id_token lib now issuer x s1 = (Inr a, s2)"
    and 2: "verify_access lib cr issuer x h access s2 = (Inr u, rs, v)"
    using m unfolding verify_main_def seq_Inr by (auto split: if_splits)
  obtain cs cs' where "fst s2 = fst s1 @ cs" "rs = fst s2 @ cs'"
    and id_ok: "(\<forall>r \<in> set cs. snd r) \<longrightarrow> (\<exists>c p e. decode_jwt lib x = Some c
      \<and> jwt_verify lib x issuer (member_of c ''aud'') = Inr p \<and> true_value (member_of p ''sub'') \<and> true_value (member_of p ''sid'')
      \<and> num_member p ''exp'' = Some e \<and> now < e * 1000)"
    and at_ok: "(\<forall>r \<in> set cs'. snd r) \<longrightarrow> truthy access \<longrightarrow> (\<exists>ah c p. protected_header lib (the access) = Some ah
      \<and> member_of ah ''typ'' = Some (J_string ''at+jwt'') \<and> member_of h ''typ'' \<noteq> Some (J_string ''at+jwt'')
      \<and> jwt_verify lib (the access) issuer None = Inr p \<and> true_value (member_of p ''jti'') \<and> decode_jwt lib x = Some c
      \<and> (true_value (member_of c ''at_hash'') \<longrightarrow> member_of c ''at_hash'' = Some (J_string (expected_at_hash cr (the access)))))"
    using verify_id_token_ok [OF 1] verify_access_ok [OF 2] unfolding fst_conv by blast
  then have "\<forall>r \<in> set cs. snd r" "\<forall>r \<in> set cs'. snd r"
    using ok by auto
  then obtain c p e where c: "decode_jwt lib x = Some c" "jwt_verify lib x issuer (member_of c ''aud'') = Inr p"
    "true_value (member_of p ''sub'')" "true_value (member_of p ''sid'')" "num_member p ''exp'' = Some e" "now < e * 1000"
    and "truthy access \<Longrightarrow> \<exists>ah ap. protected_header lib (the access) = Some ah \<and> member_of ah ''typ'' = Some (J_string ''at+jwt'')
      \<and> member_of h ''typ'' \<noteq> Some (J_string ''at+jwt'') \<and> jwt_verify lib (the access) issuer None = Inr ap
      \<and> (true_value (member_of c ''at_hash'') \<longrightarrow> member_of c ''at_hash'' = Some (J_string (expected_at_hash cr (the access))))"
    using id_ok at_ok by fastforce
  then show ?thesis
    using h c by blast
qed

subsection \<open>The passkey script\<close>

record 'w device =
  d_spawn :: "'w \<Rightarrow> 'w"
  d_poll :: "'w \<Rightarrow> string option \<times> 'w"
  d_attach :: "string \<Rightarrow> ('w, unit) raising"
  add_authenticator :: "('w, string option) raising"
  d_navigate :: "string \<Rightarrow> ('w, unit) raising"
  d_sleep :: "nat \<Rightarrow> 'w \<Rightarrow> 'w"
  password_login :: "string \<Rightarrow> string \<Rightarrow> ('w, int) raising"
  register_passkey :: "('w, bool) raising"
  credentials :: "string option \<Rightarrow> ('w, bool list) raising"
  logout :: "('w, unit) raising"
  begin_passkey :: "('w, int) raising"
  remove_authenticator :: "string option \<Rightarrow> ('w, unit) raising"
  d_close :: "'w \<Rightarrow> 'w"
  d_kill :: "'w \<Rightarrow> 'w"

definition d_goto :: "'w device \<Rightarrow> string \<Rightarrow> ('w, unit) script" where
  "d_goto br u = seq (lift (d_navigate br u)) (\<lambda>_. run (d_sleep br 700))"

definition is_signed_in :: "'w device \<Rightarrow> ('w, bool) script" where
  "is_signed_in br = seq (lift (begin_passkey br)) (\<lambda>st. return (st = 200))"

fun d_await_debugger :: "'w device \<Rightarrow> nat \<Rightarrow> 'w \<Rightarrow> string option \<times> 'w" where
  "d_await_debugger br 0 w = (None, w)"
| "d_await_debugger br (Suc n) w =
     (case d_poll br (d_sleep br 250 w) of (u, w') \<Rightarrow> if truthy u then (u, w') else d_await_debugger br n w')"

text \<open>Exceptions of the probe are ignored while the page reloads.\<close>

fun await_passkey :: "'w device \<Rightarrow> nat \<Rightarrow> ('w, bool) script" where
  "await_passkey br 0 s = return False s"
| "await_passkey br (Suc n) s =
     (case is_signed_in br (fst s, d_sleep br 400 (snd s)) of
        (Inr True, s') \<Rightarrow> return True s'
      | (_, s') \<Rightarrow> await_passkey br n s')"

definition ceremony :: "'w device \<Rightarrow> string \<Rightarrow> string \<Rightarrow> string \<Rightarrow> ('w, unit) script" where
  "ceremony br base email password =
     seq (lift (add_authenticator br)) (\<lambda>a.
     seq (record_check ''virtual authenticator attached'' (truthy a)) (\<lambda>_.
     seq (d_goto br (base @ ''/login'')) (\<lambda>_.
     seq (lift (password_login br email password)) (\<lambda>st.
     seq (record_check ''password sign-in'' (st = 200 \<or> st = 302)) (\<lambda>_.
     seq (lift (register_passkey br)) (\<lambda>ok.
     seq (record_check ''passkey registration ceremony'' ok) (\<lambda>_.
     seq (lift (credentials br a)) (\<lambda>cs.
     seq (record_check ''authenticator holds a resident credential'' (cs = [True])) (\<lambda>_.
     seq (lift (logout br)) (\<lambda>_.
     seq (is_signed_in br) (\<lambda>still.
     seq (record_check ''signed out'' (\<not> still)) (\<lambda>_.
     seq (d_goto br (base @ ''/login'')) (\<lambda>_.
     seq (await_passkey br 20) (\<lambda>ok.
     seq (record_check ''usernameless passkey sign-in (conditional UI)'' ok) (\<lambda>_.
     seq (lift (remove_authenticator br a)) (\<lambda>_. run (d_close br)))))))))))))))))"

definition passkey_e2e :: "'w device \<Rightarrow> string \<Rightarrow> string \<Rightarrow> string \<Rightarrow> 'w \<Rightarrow> int \<times> results \<times> 'w" where
  "passkey_e2e br base email password w =
     (if [] \<in> {base, email, password} then (2, [], w)
      else
        let (u, w1) = d_await_debugger br 40 (d_spawn br w);
            (r, rs, w2) = (if \<not> truthy u then throw ''Chrome did not expose a debugging endpoint'' ([], w1)
              else seq (lift (d_attach br (the u))) (\<lambda>_. ceremony br base email password) ([], w1))
        in (case r of Inr _ \<Rightarrow> exit_code rs | Inl _ \<Rightarrow> harness_error, rs, d_kill br w2))"

lemma is_signed_in_results: "is_signed_in br s = (r, t) \<Longrightarrow> fst t = fst s"
  by (auto simp: is_signed_in_def seq_def lift_def return_def split: prod.splits sum.splits)

lemma await_passkey_returns: "\<exists>b t. await_passkey br n s = (Inr b, t) \<and> fst t = fst s"
proof (induction n arbitrary: s)
  case (Suc n)
  obtain r s' where s': "is_signed_in br (fst s, d_sleep br 400 (snd s)) = (r, s')" by (metis surj_pair)
  then show ?case
    using Suc.IH [of s'] is_signed_in_results [OF s'] by (cases s') (auto simp: return_def split: sum.splits bool.splits)
qed (auto simp: return_def)

lemma d_goto_results: "d_goto br u s = (Inr a, t) \<Longrightarrow> fst t = fst s"
  by (auto simp: d_goto_def seq_Inr dest!: lift_results run_results)

text \<open>The names of the checks of a run that was carried to its end.\<close>

definition passkey_checks :: "string list" where
  "passkey_checks = [''virtual authenticator attached'', ''password sign-in'', ''passkey registration ceremony'',
     ''authenticator holds a resident credential'', ''signed out'', ''usernameless passkey sign-in (conditional UI)'']"

lemma ceremony_results:
  assumes "ceremony br base email password s = (Inr u, t)"
  shows "\<exists>oks. length oks = 6 \<and> fst t = fst s @ zip passkey_checks oks"
proof -
  have wait: "fst t = fst s" if "await_passkey br 20 s = (Inr b, t)" for s b t
    using await_passkey_returns [of br 20 s] that by auto
  show ?thesis
    using assms unfolding ceremony_def seq_Inr
    by (auto dest!: lift_results d_goto_results is_signed_in_results wait run_results simp: passkey_checks_def)
      (rule exI [of _ "[_, _, _, _, _, _]"], simp)
qed

text \<open>What the exit code of the passkey script means: with code 0 or 1 all six checks were made, and the code is 0 exactly when
  each of them passed.\<close>

theorem passkey_verdict:
  assumes "passkey_e2e br base email password w = (code, rs, w')" and "code = 0 \<or> code = 1"
  shows "map fst rs = passkey_checks \<and> (code = 0 \<longleftrightarrow> (\<forall>r \<in> set rs. snd r))"
proof -
  obtain u v t where "seq (lift (d_attach br u)) (\<lambda>_. ceremony br base email password) ([], v) = (Inr (), t)" "rs = fst t" "code = exit_code rs"
    using assms by (auto simp: passkey_e2e_def harness_error_def throw_def Let_def split: if_splits prod.splits sum.splits)
  then obtain oks where "length oks = 6" "rs = zip passkey_checks oks"
    by (auto simp: seq_Inr dest!: lift_results ceremony_results)
  then show ?thesis
    using \<open>code = exit_code rs\<close> by (simp add: exit_code_0_iff passkey_checks_def)
qed

end
