(* ===== verification/Guac_Status.thy ===== *)
theory Guac_Status
  imports Guac_Prelude
begin

section \<open>Guacamole.Status: status codes and their sources\<close>

text \<open>
  A status is a numeric code with an optional message; the code is \<^typ>\<open>jsnum\<close> because the
  WebSocket tunnel fills it from \<^verbatim>\<open>parseInt\<close> of a close reason, which may be \<^verbatim>\<open>NaN\<close>.
  \<open>status_name\<close> and \<open>status_code\<close> are the table \<^verbatim>\<open>Guacamole.Status.Code\<close>;
  \<open>from_http_code\<close> and \<open>from_websocket_code\<close> are the two translations.
\<close>

datatype status_name =
  SUCCESS | UNSUPPORTED | SERVER_ERROR | SERVER_BUSY | UPSTREAM_TIMEOUT | UPSTREAM_ERROR
| RESOURCE_NOT_FOUND | RESOURCE_CONFLICT | RESOURCE_CLOSED | UPSTREAM_NOT_FOUND
| UPSTREAM_UNAVAILABLE | SESSION_CONFLICT | SESSION_TIMEOUT | SESSION_CLOSED
| CLIENT_BAD_REQUEST | CLIENT_UNAUTHORIZED | CLIENT_FORBIDDEN | CLIENT_TIMEOUT
| CLIENT_OVERRUN | CLIENT_BAD_TYPE | CLIENT_TOO_MANY

fun status_code :: "status_name \<Rightarrow> int" where
  "status_code SUCCESS = 0x0000"
| "status_code UNSUPPORTED = 0x0100"
| "status_code SERVER_ERROR = 0x0200"
| "status_code SERVER_BUSY = 0x0201"
| "status_code UPSTREAM_TIMEOUT = 0x0202"
| "status_code UPSTREAM_ERROR = 0x0203"
| "status_code RESOURCE_NOT_FOUND = 0x0204"
| "status_code RESOURCE_CONFLICT = 0x0205"
| "status_code RESOURCE_CLOSED = 0x0206"
| "status_code UPSTREAM_NOT_FOUND = 0x0207"
| "status_code UPSTREAM_UNAVAILABLE = 0x0208"
| "status_code SESSION_CONFLICT = 0x0209"
| "status_code SESSION_TIMEOUT = 0x020A"
| "status_code SESSION_CLOSED = 0x020B"
| "status_code CLIENT_BAD_REQUEST = 0x0300"
| "status_code CLIENT_UNAUTHORIZED = 0x0301"
| "status_code CLIENT_FORBIDDEN = 0x0303"
| "status_code CLIENT_TIMEOUT = 0x0308"
| "status_code CLIENT_OVERRUN = 0x030D"
| "status_code CLIENT_BAD_TYPE = 0x030F"
| "status_code CLIENT_TOO_MANY = 0x031D"

record status =
  code :: jsnum
  message :: "jsstring option"

definition new_status :: "jsnum \<Rightarrow> jsstring option \<Rightarrow> status" where
  "new_status c m = \<lparr>code = c, message = m\<rparr>"

definition named_status :: "status_name \<Rightarrow> jsstring option \<Rightarrow> status" where
  "named_status n m = new_status (Some (status_code n)) m"

text \<open>Every comparison with \<^verbatim>\<open>NaN\<close> is false.\<close>

definition is_error :: "status \<Rightarrow> bool" where
  "is_error s = (case code s of None \<Rightarrow> False | Some c \<Rightarrow> c < 0 \<or> c > 0x00FF)"

definition from_http_code :: "int \<Rightarrow> status_name" where
  "from_http_code st =
     (if st = 400 then CLIENT_BAD_REQUEST
      else if st = 403 then CLIENT_FORBIDDEN
      else if st = 404 then RESOURCE_NOT_FOUND
      else if st = 429 then CLIENT_TOO_MANY
      else if st = 503 then SERVER_BUSY
      else SERVER_ERROR)"

definition from_websocket_code :: "int \<Rightarrow> status_name" where
  "from_websocket_code c =
     (if c = 1000 then SUCCESS
      else if c = 1006 \<or> c = 1015 then UPSTREAM_NOT_FOUND
      else if c = 1001 \<or> c = 1012 \<or> c = 1013 \<or> c = 1014 then UPSTREAM_UNAVAILABLE
      else SERVER_ERROR)"

lemma status_code_inject [simp]: "status_code a = status_code b \<longleftrightarrow> a = b"
  by (cases a; cases b) simp_all

lemma is_error_named [simp]: "is_error (named_status n m) \<longleftrightarrow> n \<noteq> SUCCESS"
  by (cases n) (simp_all add: is_error_def named_status_def new_status_def)

lemma code_named [simp]: "code (named_status n m) = Some (status_code n)"
  by (simp add: named_status_def new_status_def)

lemma code_new_status [simp]: "code (new_status c m) = c"
  by (simp add: new_status_def)

text \<open>
  The translations of transport codes never hide a failure: an HTTP code that is not a
  success always becomes an error status, a WebSocket close code becomes \<^verbatim>\<open>SUCCESS\<close> exactly
  for 1000 (normal closure) and an error status otherwise, and the codes of the table are
  pairwise distinct, so an error can be told from every other.
\<close>

theorem transport_codes_keep_failure:
  "is_error (named_status (from_http_code h) m)
   \<and> (\<not> is_error (named_status (from_websocket_code w) m)) = (w = 1000)
   \<and> (status_code a = status_code b) = (a = b)"
  by (simp add: from_http_code_def from_websocket_code_def)

end
