(* ===== verification/Guac_Audio.thy ===== *)
theory Guac_Audio
  imports Guac_Prelude Guac_Status Complex_Main
begin

section \<open>Guacamole.RawAudioFormat, RawAudioPlayer and RawAudioRecorder\<close>

text \<open>
  The format of raw audio, its playback and its recording. Times and the values of samples are real
  numbers, and the arithmetic on them is taken to be exact; samples on the wire are integers, eight or
  sixteen bits wide. The audio context of the browser appears as the time and the sample rate given to
  the operations, an audio buffer as the list of its channels, and what the player schedules and the
  recorder sends as lists.
\<close>

subsection \<open>RawAudioFormat\<close>

record raw_audio_format =
  bytes_per_sample :: nat
  channels :: jsnum
  rate :: jsnum

fun js_split :: "code_unit \<Rightarrow> jsstring \<Rightarrow> jsstring list" where
  "js_split d [] = [[]]"
| "js_split d (c # s) = (if c = d then [] # js_split d s
                         else (case js_split d s of [] \<Rightarrow> [[c]] | w # ws \<Rightarrow> (c # w) # ws))"

text \<open>The rate is \<open>None\<close> until it is given, and may then still be not a number.\<close>

fun parse_parameters :: "jsstring list \<Rightarrow> jsnum \<Rightarrow> jsnum option \<Rightarrow> (jsnum \<times> jsnum option) option" where
  "parse_parameters [] ch rt = Some (ch, rt)"
| "parse_parameters (p # ps) ch rt =
     (let equals = js_index_of p 61 0
      in if equals = -1 then None
         else
           (let name = js_substring p 0 equals; val = js_substring p (equals + 1) (int (length p))
            in if name = js ''channels'' then parse_parameters ps (parse_int val) rt
               else if name = js ''rate'' then parse_parameters ps ch (Some (parse_int val))
               else None))"

definition parse_format :: "jsstring \<Rightarrow> raw_audio_format option" where
  "parse_format mimetype =
     (let typed = (if js_substring mimetype 0 9 = js ''audio/L8;'' then Some (1, drop 9 mimetype)
                   else if js_substring mimetype 0 10 = js ''audio/L16;'' then Some (2, drop 10 mimetype)
                   else None)
      in case typed of
           None \<Rightarrow> None
         | Some (bytes, rest) \<Rightarrow>
             (case parse_parameters (js_split 44 rest) (Some 1) None of
                Some (ch, Some rt) \<Rightarrow> Some \<lparr>bytes_per_sample = bytes, channels = ch, rate = rt\<rparr>
              | _ \<Rightarrow> None))"

definition is_supported_type :: "bool \<Rightarrow> jsstring \<Rightarrow> bool" where
  "is_supported_type audio_context mimetype \<longleftrightarrow> audio_context \<and> parse_format mimetype \<noteq> None"

definition get_supported_types :: "bool \<Rightarrow> jsstring list" where
  "get_supported_types audio_context = (if audio_context then [js ''audio/L8'', js ''audio/L16''] else [])"

lemma js_split_none: "d \<notin> set s \<Longrightarrow> js_split d s = [s]"
  by (induction s) auto

lemma js_split_append: "d \<notin> set s \<Longrightarrow> js_split d (s @ d # t) = s # js_split d t"
  by (induction s) auto

definition rate_parameter :: "nat \<Rightarrow> jsstring" where
  "rate_parameter r = js ''rate='' @ nat_str r"

definition channels_parameter :: "nat \<Rightarrow> jsstring" where
  "channels_parameter c = js ''channels='' @ nat_str c"

lemma parameter_parts:
  assumes "61 \<notin> set name"
  shows "js_index_of (name @ 61 # val) 61 0 = int (length name)"
    and "js_substring (name @ 61 # val) 0 (int (length name)) = name"
    and "js_substring (name @ 61 # val) (int (length name) + 1) (int (length (name @ 61 # val))) = val"
  using assms by (simp_all add: js_index_of_def find_unit_hit js_substring_def nat_add_distrib)

lemma parse_parameters_known:
  "parse_parameters (rate_parameter r # ps) ch rt = parse_parameters ps ch (Some (Some (int r)))"
  "parse_parameters (channels_parameter c # ps) ch rt = parse_parameters ps (Some (int c)) rt"
proof -
  have r: "rate_parameter r = js ''rate'' @ 61 # nat_str r" "61 \<notin> set (js ''rate'')"
    and c: "channels_parameter c = js ''channels'' @ 61 # nat_str c" "61 \<notin> set (js ''channels'')"
    by (simp_all add: rate_parameter_def channels_parameter_def js_def)
  show "parse_parameters (rate_parameter r # ps) ch rt = parse_parameters ps ch (Some (Some (int r)))"
    using parameter_parts [OF r(2), of "nat_str r"] unfolding r(1) by (simp add: Let_def js_simps) (simp add: js_def)
  show "parse_parameters (channels_parameter c # ps) ch rt = parse_parameters ps (Some (int c)) rt"
    using parameter_parts [OF c(2), of "nat_str c"] unfolding c(1) by (simp add: Let_def js_simps)
qed

lemma parameter_no_comma: "44 \<notin> set (rate_parameter r)" "44 \<notin> set (channels_parameter c)"
  using nat_str_no_unit [of 44] by (auto simp: rate_parameter_def channels_parameter_def js_def)

text \<open>
  A mimetype that names a rate and a number of channels, in either order, is parsed to exactly
  those numbers and the number of bytes of its type; without channels there is one.
\<close>

theorem audio_format_parsed:
  "parse_format (js ''audio/L16;'' @ rate_parameter r @ js '','' @ channels_parameter c)
     = Some \<lparr>bytes_per_sample = 2, channels = Some (int c), rate = Some (int r)\<rparr>
   \<and> parse_format (js ''audio/L8;'' @ channels_parameter c @ js '','' @ rate_parameter r)
     = Some \<lparr>bytes_per_sample = 1, channels = Some (int c), rate = Some (int r)\<rparr>
   \<and> parse_format (js ''audio/L16;'' @ rate_parameter r)
     = Some \<lparr>bytes_per_sample = 2, channels = Some 1, rate = Some (int r)\<rparr>"
proof -
  have "js_split 44 (rate_parameter r @ js '','' @ channels_parameter c) = [rate_parameter r, channels_parameter c]"
    "js_split 44 (channels_parameter c @ js '','' @ rate_parameter r) = [channels_parameter c, rate_parameter r]"
    "js_split 44 (rate_parameter r) = [rate_parameter r]"
    using parameter_no_comma by (simp_all add: js_def js_split_append js_split_none)
  then show ?thesis
    by (simp add: parse_format_def js_def js_substring_def parse_parameters_known del: parse_parameters.simps(2))
qed

text \<open>A rate that is not a number is accepted.\<close>

theorem unreadable_rate_accepted:
  "is_supported_type True (js ''audio/L16;rate=fast'')
   \<and> map_option rate (parse_format (js ''audio/L16;rate=fast'')) = Some None"
  by (simp add: is_supported_type_def parse_format_def js_eval)

subsection \<open>RawAudioPlayer\<close>

record audio_player =
  player_channels :: nat
  player_rate :: nat
  next_packet_time :: real
  packet_queue :: "int list list"
  scheduled :: "(real \<times> int list) list"
  playback_errors :: nat

definition new_audio_player :: "nat \<Rightarrow> nat \<Rightarrow> real \<Rightarrow> audio_player" where
  "new_audio_player ch rt now = \<lparr>player_channels = ch, player_rate = rt, next_packet_time = now, packet_queue = [],
     scheduled = [], playback_errors = 0\<rparr>"

definition max_sample_value :: "nat \<Rightarrow> int" where
  "max_sample_value bytes = (if bytes = 1 then 128 else 32768)"

definition max_latency :: real where "max_latency = 3 / 10"

text \<open>The least size of a split packet is 0.02 seconds.\<close>

definition min_split_samples :: "nat \<Rightarrow> nat" where
  "min_split_samples rt = rt div 50"

definition join_audio_packets :: "int list list \<Rightarrow> int list option" where
  "join_audio_packets ps = (case ps of [] \<Rightarrow> None | [p] \<Rightarrow> Some p | _ \<Rightarrow> Some (concat ps))"

text \<open>The sum over the channels at an offset; reading past the end of the packet gives not a number.\<close>

definition total_value :: "nat \<Rightarrow> int list \<Rightarrow> nat \<Rightarrow> int option" where
  "total_value ch data off =
     (if off + ch \<le> length data then Some (\<Sum>c\<leftarrow>[0..<ch]. \<bar>data ! (off + c)\<bar>) else None)"

text \<open>The loop over the end of the packet; without channels it never moves on. The smallest value begins as \<^verbatim>\<open>Number.MAX_VALUE\<close>, here \<open>None\<close>.\<close>

definition better_split :: "nat \<Rightarrow> int list \<Rightarrow> nat \<Rightarrow> nat \<times> int option \<Rightarrow> nat \<times> int option" where
  "better_split ch data off best =
     (case total_value ch data off of
        None \<Rightarrow> best
      | Some v \<Rightarrow> if (case snd best of None \<Rightarrow> True | Some m \<Rightarrow> v \<le> m) then (off + ch, Some v) else best)"

partial_function (option) find_split :: "nat \<Rightarrow> int list \<Rightarrow> nat \<Rightarrow> nat \<times> int option \<Rightarrow> nat option" where
  [code]: "find_split ch data off best =
     (if off < length data then find_split ch data (off + ch) (better_split ch data off best) else Some (fst best))"

definition split_start :: "nat \<Rightarrow> nat \<Rightarrow> int list \<Rightarrow> nat" where
  "split_start ch rt data =
     (let samples = length data div ch; least = min_split_samples rt in max (ch * least) (ch * (samples - least)))"

definition split_audio_packet :: "nat \<Rightarrow> nat \<Rightarrow> int list \<Rightarrow> int list list option" where
  "split_audio_packet ch rt data =
     (case find_split ch data (split_start ch rt data) (length data, None) of
        None \<Rightarrow> None
      | Some n \<Rightarrow> Some (if n = length data then [data] else [take n data, drop n data]))"

definition push_audio_packet :: "int list \<Rightarrow> audio_player \<Rightarrow> audio_player" where
  "push_audio_packet data p = p\<lparr>packet_queue := packet_queue p @ [data]\<rparr>"

definition shift_audio_packet :: "audio_player \<Rightarrow> (int list option \<times> audio_player) option" where
  "shift_audio_packet p =
     (case join_audio_packets (packet_queue p) of
        None \<Rightarrow> Some (None, p)
      | Some data \<Rightarrow>
          (case split_audio_packet (player_channels p) (player_rate p) data of
             None \<Rightarrow> None
           | Some ps \<Rightarrow> Some (Some (hd ps), p\<lparr>packet_queue := tl ps\<rparr>)))"

definition to_audio_buffer :: "nat \<Rightarrow> nat \<Rightarrow> int list \<Rightarrow> real list list" where
  "to_audio_buffer bytes ch data =
     map (\<lambda>c. map (\<lambda>i. of_int (data ! (c + i * ch)) / of_int (max_sample_value bytes)) [0..<length data div ch]) [0..<ch]"

text \<open>An audio buffer without samples cannot be created: the exception leaves the packet unplayed.\<close>

definition play_received_audio :: "real \<Rightarrow> int list \<Rightarrow> audio_player \<Rightarrow> audio_player option" where
  "play_received_audio now data p =
     (case shift_audio_packet (push_audio_packet data p) of
        None \<Rightarrow> None
      | Some (None, p1) \<Rightarrow> Some p1
      | Some (Some packet, p1) \<Rightarrow>
          (let start = max (next_packet_time p1) now; p2 = p1\<lparr>next_packet_time := start\<rparr>
           in if length packet div player_channels p2 = 0 then Some (p2\<lparr>playback_errors := playback_errors p2 + 1\<rparr>)
              else Some (p2\<lparr>scheduled := scheduled p2 @ [(start, packet)],
                            next_packet_time := start + real (length packet) / real (player_channels p2) / real (player_rate p2)\<rparr>)))"

definition sync_player :: "real \<Rightarrow> audio_player \<Rightarrow> audio_player" where
  "sync_player now p = p\<lparr>next_packet_time := min (next_packet_time p) (now + max_latency)\<rparr>"

datatype player_event = Received real "int list" | Sync real

fun player_on :: "player_event \<Rightarrow> audio_player \<Rightarrow> audio_player option" where
  "player_on (Received now data) p = play_received_audio now data p"
| "player_on (Sync now) p = Some (sync_player now p)"

fun player_run :: "player_event list \<Rightarrow> audio_player \<Rightarrow> audio_player option" where
  "player_run [] p = Some p"
| "player_run (e # es) p = Option.bind (player_on e p) (player_run es)"

fun received :: "player_event list \<Rightarrow> int list" where
  "received [] = []"
| "received (Received now data # es) = data @ received es"
| "received (Sync now # es) = received es"

subsection \<open>Splitting\<close>

lemma find_split_step:
  "find_split ch data off best =
     (if off < length data then find_split ch data (off + ch) (better_split ch data off best) else Some (fst best))"
  by (rule find_split.simps)

text \<open>A split point is the whole packet or lies after a whole sample of all channels, in the range searched.\<close>

definition split_point :: "nat \<Rightarrow> int list \<Rightarrow> nat \<Rightarrow> nat \<Rightarrow> bool" where
  "split_point ch data start n \<longleftrightarrow> n = length data \<or> (n \<le> length data \<and> ch dvd n \<and> start < n)"

lemma better_split_point:
  assumes "split_point ch data start (fst best)" "ch dvd off" "start \<le> off" "0 < ch"
  shows "split_point ch data start (fst (better_split ch data off best))"
  using assms by (auto simp: better_split_def total_value_def split_point_def split: option.splits if_splits)

lemma find_split_total:
  assumes "0 < ch" "split_point ch data start (fst best)" "ch dvd off" "start \<le> off"
  shows "\<exists>n. find_split ch data off best = Some n \<and> split_point ch data start n"
  using assms(2-4)
proof (induction "length data - off" arbitrary: off best rule: less_induct)
  case less
  show ?case
  proof (cases "off < length data")
    case True
    have "length data - (off + ch) < length data - off"
      using True assms(1) by linarith
    moreover have "split_point ch data start (fst (better_split ch data off best))"
      by (rule better_split_point [OF less.prems assms(1)])
    moreover have "ch dvd off + ch" "start \<le> off + ch"
      using less.prems by auto
    ultimately show ?thesis
      using less.hyps True by (subst find_split_step) simp
  next
    case False
    then show ?thesis
      using less.prems by (subst find_split_step) simp
  qed
qed

lemma split_audio_packet_parts:
  assumes "0 < ch"
  obtains n where "split_audio_packet ch rt data = Some (if n = length data then [data] else [take n data, drop n data])"
    and "split_point ch data (split_start ch rt data) n"
proof -
  have "ch dvd split_start ch rt data" "split_point ch data (split_start ch rt data) (fst (length data, None :: int option))"
    by (simp_all add: split_start_def Let_def max_def split_point_def)
  from find_split_total [OF assms this(2,1) order_refl] show thesis
    using that by (auto simp: split_audio_packet_def)
qed

lemma find_split_stuck:
  assumes "find_split ch data off best = Some n"
  shows "\<not> (ch = 0 \<and> off < length data)"
proof (rule find_split.raw_induct [where P = "\<lambda>ch data off best n. \<not> (ch = 0 \<and> off < length data)", OF _ assms])
  fix loop ch data off best n
  assume "\<And>ch data off best n. loop ch data off best = Some n \<Longrightarrow> \<not> (ch = 0 \<and> off < length data)"
    and "(if off < length data then loop ch data (off + ch) (better_split ch data off best) else Some (fst best)) = Some n"
  then show "\<not> (ch = 0 \<and> off < length data)"
    by (metis add.right_neutral)
qed

text \<open>With a format that has no channels, the first packet with a sample is searched for ever.\<close>

theorem no_channels_hangs:
  assumes "data \<noteq> []"
  shows "play_received_audio now data (new_audio_player 0 rt now) = None"
proof -
  have "find_split 0 data 0 (length data, None) = None"
    using find_split_stuck [of 0 data 0] assms by (cases "find_split 0 data 0 (length data, None)") auto
  then show ?thesis
    by (simp add: play_received_audio_def shift_audio_packet_def push_audio_packet_def new_audio_player_def
        join_audio_packets_def split_audio_packet_def split_start_def)
qed

subsection \<open>Every sample is played once\<close>

text \<open>The packets that are scheduled do not overlap and end before the next packet time.\<close>

fun no_overlap :: "nat \<Rightarrow> nat \<Rightarrow> real \<Rightarrow> (real \<times> int list) list \<Rightarrow> real \<Rightarrow> bool" where
  "no_overlap ch rt earliest [] next \<longleftrightarrow> earliest \<le> next"
| "no_overlap ch rt earliest ((t, packet) # ps) next \<longleftrightarrow>
     earliest \<le> t \<and> no_overlap ch rt (t + real (length packet) / real ch / real rt) ps next"

lemma no_overlap_snoc:
  "no_overlap ch rt e (ps @ [(t, packet)]) (t + real (length packet) / real ch / real rt) \<longleftrightarrow> no_overlap ch rt e ps t"
  by (induction ch rt e ps t rule: no_overlap.induct) auto

lemma no_overlap_later: "no_overlap ch rt e ps t \<Longrightarrow> t \<le> t' \<Longrightarrow> no_overlap ch rt e ps t'"
  by (induction ch rt e ps t rule: no_overlap.induct) auto

definition player_ok :: "audio_player \<Rightarrow> int list \<Rightarrow> bool" where
  "player_ok p sent \<longleftrightarrow> concat (map snd (scheduled p)) @ concat (packet_queue p) = sent \<and> playback_errors p = 0
     \<and> player_channels p dvd length (concat (packet_queue p)) \<and> 0 < player_channels p \<and> 0 < player_rate p"

lemma join_queue: "ps \<noteq> [] \<Longrightarrow> join_audio_packets ps = Some (concat ps)"
  by (simp add: join_audio_packets_def split: list.splits)

lemma play_received_step:
  assumes ok: "player_ok p sent" and data: "data \<noteq> []" "player_channels p dvd length data"
  obtains packet rest where "packet @ rest = concat (packet_queue p) @ data"
    and "play_received_audio now data p = Some (p\<lparr>packet_queue := (if rest = [] then [] else [rest]),
       next_packet_time := max (next_packet_time p) now + real (length packet) / real (player_channels p) / real (player_rate p),
       scheduled := scheduled p @ [(max (next_packet_time p) now, packet)]\<rparr>)"
    and "player_channels p dvd length rest"
proof -
  let ?ch = "player_channels p"
  define all where "all = concat (packet_queue p) @ data"
  have ch: "0 < ?ch" "?ch dvd length all" and all: "all \<noteq> []"
    using ok data by (auto simp: player_ok_def all_def)
  have joined: "join_audio_packets (packet_queue p @ [data]) = Some all"
    by (simp add: join_queue all_def)
  obtain n where n: "split_audio_packet ?ch (player_rate p) all = Some (if n = length all then [all] else [take n all, drop n all])"
    "split_point ?ch all (split_start ?ch (player_rate p) all) n"
    using split_audio_packet_parts [OF ch(1)] .
  have len: "0 < n" "n \<le> length all" "?ch dvd n"
    using n(2) ch all by (auto simp: split_point_def)
  then have "0 < n div ?ch"
    using ch(1) by (simp add: div_greater_zero_iff dvd_imp_le)
  then have "play_received_audio now data p = Some (p\<lparr>packet_queue := (if drop n all = [] then [] else [drop n all]),
       next_packet_time := max (next_packet_time p) now + real (length (take n all)) / real ?ch / real (player_rate p),
       scheduled := scheduled p @ [(max (next_packet_time p) now, take n all)]\<rparr>)"
    using n(1) len joined by (cases p; cases "n = length all")
      (simp_all add: play_received_audio_def shift_audio_packet_def push_audio_packet_def Let_def)
  moreover have "?ch dvd length (drop n all)"
    using len ch(2) by simp
  moreover have "take n all @ drop n all = concat (packet_queue p) @ data"
    by (simp only: append_take_drop_id all_def)
  ultimately show thesis
    using that by blast
qed

definition whole_packets :: "nat \<Rightarrow> player_event list \<Rightarrow> bool" where
  "whole_packets ch es \<longleftrightarrow> list_all (\<lambda>e. case e of Received now data \<Rightarrow> data \<noteq> [] \<and> ch dvd length data | Sync now \<Rightarrow> True) es"

lemma player_run_ok:
  assumes "player_ok p sent" "whole_packets (player_channels p) es"
  shows "\<exists>p'. player_run es p = Some p' \<and> player_ok p' (sent @ received es)"
  using assms
proof (induction es arbitrary: p sent rule: received.induct)
  case (2 now data es)
  have data: "data \<noteq> []" "player_channels p dvd length data" and rest: "whole_packets (player_channels p) es"
    using 2(3) by (simp_all add: whole_packets_def)
  obtain packet rest where step: "packet @ rest = concat (packet_queue p) @ data"
    "play_received_audio now data p = Some (p\<lparr>packet_queue := (if rest = [] then [] else [rest]),
       next_packet_time := max (next_packet_time p) now + real (length packet) / real (player_channels p) / real (player_rate p),
       scheduled := scheduled p @ [(max (next_packet_time p) now, packet)]\<rparr>)" (is "_ = Some ?p")
    "player_channels p dvd length rest"
    using play_received_step [OF 2(2) data] .
  have "player_ok ?p (sent @ data)"
    using 2(2) step(1,3) by (auto simp: player_ok_def)
  from 2(1) [OF this] rest show ?case
    using step(2) by simp
next
  case (3 now es)
  have "player_ok (sync_player now p) sent"
    using 3(2) by (simp add: player_ok_def sync_player_def)
  from 3(1) [OF this] show ?case
    using 3(3) by (simp add: whole_packets_def sync_player_def)
qed simp

lemma receive_no_overlap:
  assumes "player_ok p sent" "whole_packets (player_channels p) (Received now data # es)"
    and "no_overlap (player_channels p) (player_rate p) e (scheduled p) (next_packet_time p)"
    and "play_received_audio now data p = Some p'"
  shows "no_overlap (player_channels p') (player_rate p') e (scheduled p') (next_packet_time p')
    \<and> now \<le> fst (last (scheduled p')) \<and> scheduled p' \<noteq> []"
proof -
  have data: "data \<noteq> []" "player_channels p dvd length data"
    using assms(2) by (simp_all add: whole_packets_def)
  obtain packet rest where "p' = p\<lparr>packet_queue := (if rest = [] then [] else [rest]),
       next_packet_time := max (next_packet_time p) now + real (length packet) / real (player_channels p) / real (player_rate p),
       scheduled := scheduled p @ [(max (next_packet_time p) now, packet)]\<rparr>"
    using play_received_step [OF assms(1) data, of now] assms(4) by (metis option.inject)
  then show ?thesis
    using no_overlap_later [OF assms(3), of "max (next_packet_time p) now"] by (simp add: no_overlap_snoc [simplified])
qed

lemma player_frame:
  "player_on e p = Some p' \<Longrightarrow> player_channels p' = player_channels p \<and> player_rate p' = player_rate p"
  by (cases e)
     (auto simp: sync_player_def play_received_audio_def shift_audio_packet_def push_audio_packet_def Let_def
       split: option.splits if_splits)

definition unsynchronised :: "player_event list \<Rightarrow> bool" where
  "unsynchronised es \<longleftrightarrow> list_all (\<lambda>e. case e of Received now data \<Rightarrow> True | Sync now \<Rightarrow> False) es"

lemma player_run_no_overlap:
  "player_run es p = Some q \<Longrightarrow> player_ok p sent \<Longrightarrow> whole_packets (player_channels p) es \<Longrightarrow> unsynchronised es \<Longrightarrow>
   no_overlap (player_channels p) (player_rate p) t (scheduled p) (next_packet_time p) \<Longrightarrow>
   no_overlap (player_channels p) (player_rate p) t (scheduled q) (next_packet_time q)"
proof (induction es arbitrary: p sent rule: received.induct)
  case (2 now data es)
  obtain p1 where p1: "play_received_audio now data p = Some p1" "player_run es p1 = Some q"
    using 2(2) by (cases "play_received_audio now data p") auto
  have "player_ok p1 (sent @ data)"
    using player_run_ok [OF 2(3), of "[Received now data]"] 2(4) p1(1) by (auto simp: whole_packets_def)
  then show ?case
    using 2(1) [OF p1(2)] 2(4-6) receive_no_overlap [OF 2(3,4) _ p1(1)] player_frame [of "Received now data" p p1] p1(1)
    by (auto simp: whole_packets_def unsynchronised_def)
qed (auto simp: unsynchronised_def)



text \<open>After a synchronisation the next packet is never scheduled later than the latency allows.\<close>

lemma sync_bounds_latency: "next_packet_time (sync_player now p) \<le> now + max_latency"
  by (simp add: sync_player_def)

subsection \<open>RawAudioRecorder: resampling\<close>

definition LANCZOS_WINDOW_SIZE :: int where "LANCZOS_WINDOW_SIZE = 3"

definition sinc :: "real \<Rightarrow> real" where
  "sinc x = (if x = 0 then 1 else sin (pi * x) / (pi * x))"

definition lanczos :: "real \<Rightarrow> real \<Rightarrow> real" where
  "lanczos x a = (if - a < x \<and> x < a then sinc x * sinc (x / a) else 0)"

definition audio_at :: "real list \<Rightarrow> int \<Rightarrow> real" where
  "audio_at d i = (if 0 \<le> i \<and> i < int (length d) then d ! nat i else 0)"

definition interpolate_sample :: "real list \<Rightarrow> real \<Rightarrow> real" where
  "interpolate_sample d t =
     (let index = real_of_int (int (length d) - 1) * t;
          start = \<lfloor>index\<rfloor> - LANCZOS_WINDOW_SIZE + 1;
          end = \<lfloor>index\<rfloor> + LANCZOS_WINDOW_SIZE
      in \<Sum>i\<leftarrow>[start..end]. audio_at d i * lanczos (index - real_of_int i) (real_of_int LANCZOS_WINDOW_SIZE))"

text \<open>
  Storing a number in an array of integers drops its fraction and wraps it around.
\<close>

definition truncate_real :: "real \<Rightarrow> int" where
  "truncate_real x = (if 0 \<le> x then \<lfloor>x\<rfloor> else \<lceil>x\<rceil>)"

definition to_sample :: "nat \<Rightarrow> real \<Rightarrow> int" where
  "to_sample bytes x =
     (let m = max_sample_value bytes in (truncate_real x + m) mod (2 * m) - m)"

definition js_round :: "real \<Rightarrow> int" where
  "js_round x = \<lfloor>x + 1 / 2\<rfloor>"

record audio_recorder =
  rec_bytes :: nat
  rec_channels :: nat
  rec_rate :: nat
  read_samples :: nat
  written_samples :: int
  media_stream :: bool
  onack_set :: bool

definition new_audio_recorder :: "nat \<Rightarrow> nat \<Rightarrow> nat \<Rightarrow> audio_recorder" where
  "new_audio_recorder bytes ch rt = \<lparr>rec_bytes = bytes, rec_channels = ch, rec_rate = rt, read_samples = 0,
     written_samples = 0, media_stream = False, onack_set = True\<rparr>"

text \<open>
  The samples of one channel. With a single sample to write the position is zero divided by zero, and
  the interpolation of that is zero.
\<close>

definition resampled :: "nat \<Rightarrow> int \<Rightarrow> real list \<Rightarrow> int \<Rightarrow> int" where
  "resampled bytes out d i =
     (if out = 1 then 0
      else to_sample bytes (interpolate_sample d (real_of_int i / real_of_int (out - 1)) * real_of_int (max_sample_value bytes)))"

definition to_sample_array :: "nat \<Rightarrow> real list list \<Rightarrow> audio_recorder \<Rightarrow> int list \<times> audio_recorder" where
  "to_sample_array sample_rate buffer r =
     (let in_samples = length (hd buffer);
          total = read_samples r + in_samples;
          out = js_round (real total * real (rec_rate r) / real sample_rate) - written_samples r
      in (concat (map (\<lambda>i. map (\<lambda>c. resampled (rec_bytes r) out (buffer ! c) i) [0..<rec_channels r]) [0..out - 1]),
          r\<lparr>read_samples := total, written_samples := written_samples r + out\<rparr>))"

subsection \<open>RawAudioRecorder: capture\<close>

datatype capture_event = Capture_requested | Sent_samples "int list" | Capture_stopped | Stream_ended | On_close | On_error

definition stream_received :: "audio_recorder \<Rightarrow> audio_recorder" where
  "stream_received r = r\<lparr>media_stream := True\<rparr>"

definition stream_denied :: "audio_recorder \<Rightarrow> capture_event list" where
  "stream_denied r = [Stream_ended, On_error]"

definition stop_audio_capture :: "audio_recorder \<Rightarrow> capture_event list \<times> audio_recorder" where
  "stop_audio_capture r =
     ((if media_stream r then [Capture_stopped] else []) @ [Stream_ended], r\<lparr>media_stream := False\<rparr>)"

definition audio_stream_acknowledged :: "status \<Rightarrow> audio_recorder \<Rightarrow> capture_event list \<times> audio_recorder" where
  "audio_stream_acknowledged s r =
     (if \<not> onack_set r then ([], r)
      else if code s = Some (status_code SUCCESS) \<and> \<not> media_stream r then ([Capture_requested], r)
      else
        (let (evs, r1) = stop_audio_capture r
         in (evs @ [if code s = Some (status_code RESOURCE_CLOSED) then On_close else On_error], r1\<lparr>onack_set := False\<rparr>)))"

definition process_audio :: "nat \<Rightarrow> real list list \<Rightarrow> audio_recorder \<Rightarrow> capture_event list \<times> audio_recorder" where
  "process_audio sample_rate buffer r =
     (if media_stream r then (let (d, r1) = to_sample_array sample_rate buffer r in ([Sent_samples d], r1)) else ([], r))"

datatype capture_input = Acked status | Granted | Denied | Audio "real list list"

fun recorder_on :: "nat \<Rightarrow> capture_input \<Rightarrow> audio_recorder \<Rightarrow> capture_event list \<times> audio_recorder" where
  "recorder_on sr (Acked s) r = audio_stream_acknowledged s r"
| "recorder_on sr Granted r = ([], stream_received r)"
| "recorder_on sr Denied r = (stream_denied r, r)"
| "recorder_on sr (Audio buffer) r = process_audio sr buffer r"

fun recorder_run :: "nat \<Rightarrow> capture_input list \<Rightarrow> audio_recorder \<Rightarrow> capture_event list \<times> audio_recorder" where
  "recorder_run sr [] r = ([], r)"
| "recorder_run sr (i # ins) r =
     (let (evs, r1) = recorder_on sr i r; (evs', r2) = recorder_run sr ins r1 in (evs @ evs', r2))"

fun sent_count :: "capture_event list \<Rightarrow> nat" where
  "sent_count [] = 0"
| "sent_count (Sent_samples d # es) = length d + sent_count es"
| "sent_count (_ # es) = sent_count es"

subsection \<open>The number of samples sent\<close>

definition expected_samples :: "nat \<Rightarrow> audio_recorder \<Rightarrow> int" where
  "expected_samples sr r = js_round (real (read_samples r) * real (rec_rate r) / real sr)"

lemma js_round_mono: "x \<le> y \<Longrightarrow> js_round x \<le> js_round y"
  by (simp add: js_round_def floor_mono)

lemma length_grid: "length (concat (map (\<lambda>i. map (f i) [0..<c]) [0..n - 1])) = nat n * c"
  by (simp add: length_concat o_def sum_list_triv)

lemma to_sample_array_count:
  assumes "written_samples r = expected_samples sr r" "to_sample_array sr buffer r = (d, r')" "0 < sr"
  shows "written_samples r' = expected_samples sr r' \<and> int (length d) = (written_samples r' - written_samples r) * int (rec_channels r)
    \<and> rec_channels r' = rec_channels r \<and> rec_rate r' = rec_rate r \<and> media_stream r' = media_stream r"
proof -
  let ?n = "read_samples r + length (hd buffer)"
  let ?e = "js_round (real ?n * real (rec_rate r) / real sr)"
  have "written_samples r \<le> ?e"
    unfolding assms(1) expected_samples_def
    by (rule js_round_mono) (simp add: divide_right_mono mult_right_mono)
  moreover have "length d = nat (?e - written_samples r) * rec_channels r"
    and "r' = r\<lparr>read_samples := ?n, written_samples := ?e\<rparr>"
    using assms(2) by (auto simp: to_sample_array_def Let_def length_grid)
  ultimately show ?thesis
    by (simp add: expected_samples_def)
qed

lemma recorder_on_count:
  assumes "written_samples r = expected_samples sr r" "recorder_on sr i r = (evs, r')" "0 < sr"
  shows "written_samples r' = expected_samples sr r' \<and> int (sent_count evs) = (written_samples r' - written_samples r) * int (rec_channels r)
    \<and> rec_channels r' = rec_channels r \<and> rec_rate r' = rec_rate r"
proof (cases i)
  case (Audio buffer)
  obtain d r1 where "to_sample_array sr buffer r = (d, r1)"
    by fastforce
  then show ?thesis
    using assms Audio to_sample_array_count [OF assms(1) _ assms(3)] by (auto simp: process_audio_def split: if_splits)
qed (use assms in \<open>auto simp: audio_stream_acknowledged_def stop_audio_capture_def stream_received_def stream_denied_def
       expected_samples_def Let_def split: if_splits\<close>)

lemma sent_count_append: "sent_count (es @ es') = sent_count es + sent_count es'"
  by (induction es rule: sent_count.induct) auto

lemma recorder_run_count:
  "written_samples r = expected_samples sr r \<Longrightarrow> recorder_run sr ins r = (evs, r') \<Longrightarrow> 0 < sr \<Longrightarrow>
     written_samples r' = expected_samples sr r' \<and> int (sent_count evs) = (written_samples r' - written_samples r) * int (rec_channels r)
     \<and> rec_channels r' = rec_channels r \<and> rec_rate r' = rec_rate r"
proof (induction ins arbitrary: r evs)
  case (Cons i ins)
  obtain e1 r1 where 1: "recorder_on sr i r = (e1, r1)" by fastforce
  obtain e2 where 2: "recorder_run sr ins r1 = (e2, r')" "evs = e1 @ e2"
    using Cons.prems(2) 1 by (auto split: prod.splits)
  note a = recorder_on_count [OF Cons.prems(1) 1 Cons.prems(3)]
  note b = Cons.IH [OF conjunct1 [OF a] 2(1) Cons.prems(3)]
  have "int (sent_count evs) = (written_samples r1 - written_samples r) * int (rec_channels r)
      + (written_samples r' - written_samples r1) * int (rec_channels r)"
    using a b 2(2) by (simp add: sent_count_append)
  then show ?case
    using a b by (simp flip: distrib_right)
qed simp

text \<open>
  (C32) Resampling does not drift: after any run of the recorder the number of samples sent per channel
  is the number of samples read, times the ratio of the rates, rounded once; so it is never off by
  more than half a sample.
\<close>

theorem recorded_samples_do_not_drift:
  assumes "0 < sr" "recorder_run sr ins (new_audio_recorder bytes ch rt) = (evs, r)"
  shows "int (sent_count evs) = js_round (real (read_samples r) * real rt / real sr) * int ch
    \<and> \<bar>real_of_int (written_samples r) - real (read_samples r) * real rt / real sr\<bar> \<le> 1 / 2"
proof -
  have "written_samples (new_audio_recorder bytes ch rt) = expected_samples sr (new_audio_recorder bytes ch rt)"
    by (simp add: new_audio_recorder_def expected_samples_def js_round_def)
  from recorder_run_count [OF this assms(2,1)]
  have c: "written_samples r = js_round (real (read_samples r) * real rt / real sr)" "int (sent_count evs) = written_samples r * int ch"
    by (simp_all add: new_audio_recorder_def expected_samples_def)
  have "\<bar>real_of_int (js_round x) - x\<bar> \<le> 1 / 2" for x
    unfolding js_round_def by linarith
  then show ?thesis
    using c by simp
qed

subsection \<open>Sampling at the same rate\<close>

lemma lanczos_int: "lanczos (real_of_int k) (real_of_int LANCZOS_WINDOW_SIZE) = (if k = 0 then 1 else 0)"
  by (simp add: lanczos_def sinc_def LANCZOS_WINDOW_SIZE_def)

lemma interpolate_at_sample:
  assumes "2 \<le> length d" "i < length d"
  shows "interpolate_sample d (real i / real_of_int (int (length d) - 1)) = d ! i"
proof -
  have index: "real_of_int (int (length d) - 1) * (real i / real_of_int (int (length d) - 1)) = real_of_int (int i)"
    using assms(1) by simp
  have "[int i - LANCZOS_WINDOW_SIZE + 1..int i + LANCZOS_WINDOW_SIZE] =
      [int i - 2, int i - 1, int i, int i + 1, int i + 2, int i + 3]"
    by (simp add: LANCZOS_WINDOW_SIZE_def upto_rec1)
  moreover have "lanczos (real_of_int (int i) - real_of_int j) (real_of_int LANCZOS_WINDOW_SIZE) = (if j = int i then 1 else 0)" for j
    using lanczos_int [of "int i - j"] by auto
  ultimately show ?thesis
    unfolding interpolate_sample_def index Let_def floor_of_int using assms(2) by (simp add: audio_at_def)
qed

lemma to_sample_exact:
  assumes "- max_sample_value bytes \<le> s" "s < max_sample_value bytes"
  shows "to_sample bytes (real_of_int s / real_of_int (max_sample_value bytes) * real_of_int (max_sample_value bytes)) = s"
proof -
  have "max_sample_value bytes \<noteq> 0"
    by (simp add: max_sample_value_def)
  then have "real_of_int s / real_of_int (max_sample_value bytes) * real_of_int (max_sample_value bytes) = real_of_int s"
    by simp
  moreover have "(s + max_sample_value bytes) mod (2 * max_sample_value bytes) = s + max_sample_value bytes"
    using assms by (intro mod_pos_pos_trivial) linarith+
  ultimately show ?thesis
    by (simp add: to_sample_def truncate_real_def Let_def)
qed

lemma row_bound: "i < n \<Longrightarrow> k < c \<Longrightarrow> k + i * c < n * c" for i n k c :: nat
  by (rule less_le_trans [of _ "Suc i * c"]) (auto intro: mult_le_mono1 simp del: mult_Suc, simp)

lemma concat_rows: "length d = n * c \<Longrightarrow> concat (map (\<lambda>i. map (\<lambda>k. d ! (k + i * c)) [0..<c]) [0..<n]) = d"
proof (induction n arbitrary: d)
  case (Suc n)
  have "concat (map (\<lambda>i. map (\<lambda>k. d ! (k + i * c)) [0..<c]) [0..<n]) = take (n * c) d"
  proof -
    have "map (\<lambda>i. map (\<lambda>k. d ! (k + i * c)) [0..<c]) [0..<n] = map (\<lambda>i. map (\<lambda>k. take (n * c) d ! (k + i * c)) [0..<c]) [0..<n]"
      using row_bound by (intro map_cong refl) (simp add: add.commute)
    moreover have "concat (map (\<lambda>i. map (\<lambda>k. take (n * c) d ! (k + i * c)) [0..<c]) [0..<n]) = take (n * c) d"
      using Suc.prems by (intro Suc.IH) simp
    ultimately show ?thesis
      by (rule ssubst [OF arg_cong [of _ _ concat]])
  qed
  moreover have "map (\<lambda>k. d ! (k + n * c)) [0..<c] = drop (n * c) d"
    using Suc.prems by (intro nth_equalityI) (simp_all add: add.commute)
  ultimately show ?case
    by simp
qed simp

definition in_range :: "nat \<Rightarrow> int list \<Rightarrow> bool" where
  "in_range bytes d \<longleftrightarrow> list_all (\<lambda>s. - max_sample_value bytes \<le> s \<and> s < max_sample_value bytes) d"

lemma resampled_channel:
  assumes n: "length data = n * ch" "2 \<le> n" and ch: "c < ch" and i: "i < n" and range: "in_range bytes data"
  shows "resampled bytes (int n) (to_audio_buffer bytes ch data ! c) (int i) = data ! (c + i * ch)"
proof -
  let ?d = "to_audio_buffer bytes ch data ! c"
  have d: "?d = map (\<lambda>i. real_of_int (data ! (c + i * ch)) / real_of_int (max_sample_value bytes)) [0..<n]"
    using n(1) ch by (simp add: to_audio_buffer_def)
  then have "interpolate_sample ?d (real i / real_of_int (int n - 1)) = real_of_int (data ! (c + i * ch)) / real_of_int (max_sample_value bytes)"
    using interpolate_at_sample [of ?d i] n(2) i by simp
  moreover have "data ! (c + i * ch) \<in> set data"
    using row_bound [OF i ch] n(1) by simp
  ultimately show ?thesis
    using range n(2) to_sample_exact [of bytes "data ! (c + i * ch)"] by (simp add: resampled_def in_range_def list_all_iff)
qed

text \<open>
  Samples survive the conversion to an audio buffer and back: what the player makes of a packet,
  read by a recorder at the same rate, is the packet again.
\<close>

theorem audio_buffer_round_trip:
  assumes "length data = n * ch" "2 \<le> n" "0 < ch" "0 < sr" "in_range bytes data"
  shows "fst (to_sample_array sr (to_audio_buffer bytes ch data) (new_audio_recorder bytes ch sr)) = data"
proof -
  have "length (hd (to_audio_buffer bytes ch data)) = n"
    using assms(1,3) by (simp add: to_audio_buffer_def upt_rec [of 0 ch])
  moreover have "js_round (real n) = int n"
    unfolding js_round_def by linarith
  moreover have "[0..int n - 1] = map int [0..<n]"
    by (rule nth_equalityI) simp_all
  ultimately have "fst (to_sample_array sr (to_audio_buffer bytes ch data) (new_audio_recorder bytes ch sr))
      = concat (map (\<lambda>i. map (\<lambda>c. resampled bytes (int n) (to_audio_buffer bytes ch data ! c) (int i)) [0..<ch]) [0..<n])"
    using assms(4) by (simp add: to_sample_array_def new_audio_recorder_def Let_def o_def)
  also have "\<dots> = concat (map (\<lambda>i. map (\<lambda>k. data ! (k + i * ch)) [0..<ch]) [0..<n])"
    using resampled_channel [OF assms(1,2) _ _ assms(5)] by (intro arg_cong [of _ _ concat] map_cong refl) simp
  also have "\<dots> = data"
    by (rule concat_rows [OF assms(1)])
  finally show ?thesis .
qed

theorem audio_buffer_round_trip_witness:
  "fst (to_sample_array 44100 (to_audio_buffer 2 2 [5, -5, 32767, -32768]) (new_audio_recorder 2 2 44100)) = [5, -5, 32767, -32768]"
  by (rule audio_buffer_round_trip [of _ 2]) (simp_all add: in_range_def max_sample_value_def)

theorem recorded_samples_do_not_drift_witness:
  "int (sent_count (fst (recorder_run 48000 [Granted, Audio [[0, 0, 0]]] (new_audio_recorder 2 1 16000)))) = 1"
proof -
  obtain evs r where run: "recorder_run 48000 [Granted, Audio [[0, 0, 0]]] (new_audio_recorder 2 1 16000) = (evs, r)"
    by fastforce
  then have "read_samples r = 3"
    by (auto simp: stream_received_def new_audio_recorder_def process_audio_def to_sample_array_def Let_def)
  with recorded_samples_do_not_drift [OF _ run] show ?thesis
    unfolding run by (simp add: js_round_def)
qed

text \<open>A sample of full volume is stored as the most negative number, because it is wrapped and not limited.\<close>

theorem full_volume_wraps: "to_sample 2 (1 * real_of_int (max_sample_value 2)) = -32768"
  by (simp add: to_sample_def max_sample_value_def truncate_real_def Let_def)

text \<open>
  A microphone that is granted after the stream was closed is recorded all the same, and nothing stops
  it any more.
\<close>

theorem late_permission_records_after_close:
  "fst (recorder_run 48000 [Acked (named_status SUCCESS m), Acked (named_status RESOURCE_CLOSED m), Granted, Audio b, Acked s]
          (new_audio_recorder 2 1 48000))
     = [Capture_requested, Stream_ended, On_close,
        Sent_samples (fst (to_sample_array 48000 b (new_audio_recorder 2 1 48000\<lparr>media_stream := True, onack_set := False\<rparr>)))]"
  by (auto simp: audio_stream_acknowledged_def stop_audio_capture_def stream_received_def process_audio_def Let_def
      new_audio_recorder_def to_sample_array_def named_status_def)

end
