(* ===== verification/Guac_Page.thy ===== *)
theory Guac_Page
  imports Guac_Audio
begin

section \<open>Events of the page, the input sink and the audio context\<close>

text \<open>
  The small parts of \<^verbatim>\<open>guacamole-common.js\<close> that stand between the components and the page: \<^verbatim>\<open>Guacamole.Event\<close> and
  \<^verbatim>\<open>Guacamole.Event.DOMEvent\<close>, \<^verbatim>\<open>Guacamole.InputSink\<close>, \<^verbatim>\<open>Guacamole.AudioContextFactory\<close> and the functions that choose an
  audio player or recorder by its type.
\<close>

subsection \<open>Events\<close>

record guac_event =
  event_type :: jsstring
  timestamp :: int

definition new_guac_event :: "int \<Rightarrow> jsstring \<Rightarrow> guac_event" where
  "new_guac_event now type = \<lparr>event_type = type, timestamp = now\<rparr>"

definition get_age :: "int \<Rightarrow> guac_event \<Rightarrow> int" where
  "get_age now e = now - timestamp e"

text \<open>An event of the page: whether it has the method \<^verbatim>\<open>preventDefault\<close>, and what has been done to it.\<close>

record page_event =
  can_prevent :: bool
  prevented :: bool
  return_value :: bool
  stopped :: bool

definition prevent :: "page_event \<Rightarrow> page_event" where
  "prevent e = e\<lparr>prevented := prevented e \<or> can_prevent e, return_value := False\<rparr>"

definition stop :: "page_event \<Rightarrow> page_event" where
  "stop e = e\<lparr>stopped := True\<rparr>"

text \<open>The events a \<^verbatim>\<open>DOMEvent\<close> wraps: none, one, or an array of them.\<close>

datatype wrapped = No_events | One_event page_event | Events "page_event list"

record wrapped_event = guac_event +
  wrapped_events :: "page_event list"

definition new_wrapped_event :: "int \<Rightarrow> jsstring \<Rightarrow> wrapped \<Rightarrow> wrapped_event" where
  "new_wrapped_event now type ws =
     guac_event.extend (new_guac_event now type)
       (wrapped_event.fields (case ws of No_events \<Rightarrow> [] | One_event e \<Rightarrow> [e] | Events es \<Rightarrow> es))"

definition prevent_default :: "wrapped_event \<Rightarrow> wrapped_event" where
  "prevent_default e = e\<lparr>wrapped_events := map prevent (wrapped_events e)\<rparr>"

definition stop_propagation :: "wrapped_event \<Rightarrow> wrapped_event" where
  "stop_propagation e = e\<lparr>wrapped_events := map stop (wrapped_events e)\<rparr>"

definition cancel_event :: "page_event \<Rightarrow> page_event" where
  "cancel_event e = prevent (stop e)"

text \<open>Cancelling an event is the same as stopping and preventing it through a wrapper, in either order.\<close>

lemma cancel_event_wrapped:
  "wrapped_events (prevent_default (stop_propagation (new_wrapped_event now type (One_event e)))) = [cancel_event e]"
  "stop_propagation (prevent_default d) = prevent_default (stop_propagation d)"
  by (simp_all add: prevent_default_def stop_propagation_def new_wrapped_event_def new_guac_event_def guac_event.extend_def
    wrapped_event.fields_def cancel_event_def prevent_def stop_def)

subsection \<open>The audio context\<close>

text \<open>The context of the page: whether the interface exists, whether creation is allowed, the singleton, and how many contexts
  have been created.\<close>

record audio_page =
  has_interface :: bool
  creation_allowed :: bool
  singleton :: "nat option"
  created :: nat

definition get_audio_context :: "audio_page \<Rightarrow> nat option \<times> audio_page" where
  "get_audio_context p =
     (if \<not> has_interface p then (None, p)
      else case singleton p of
        Some c \<Rightarrow> (Some c, p)
      | None \<Rightarrow>
          if creation_allowed p then (Some (created p), p\<lparr>singleton := Some (created p), created := created p + 1\<rparr>)
          else (None, p))"

text \<open>However often it is asked for, at most one context is created, and who gets one gets the same.\<close>

fun ask_contexts :: "bool list \<Rightarrow> audio_page \<Rightarrow> nat option list \<times> audio_page" where
  "ask_contexts [] p = ([], p)"
| "ask_contexts (allowed # as) p =
     (let (c, p1) = get_audio_context (p\<lparr>creation_allowed := allowed\<rparr>); (cs, p2) = ask_contexts as p1 in (c # cs, p2))"

definition single :: "audio_page \<Rightarrow> bool" where
  "single p \<longleftrightarrow> (case singleton p of None \<Rightarrow> created p = 0 | Some c \<Rightarrow> c = 0 \<and> created p = 1)"

lemma one_audio_context:
  assumes "single p"
  shows "single (snd (ask_contexts as p)) \<and> set (fst (ask_contexts as p)) \<subseteq> {None, Some 0}"
  using assms
proof (induction as arbitrary: p)
  case (Cons a as)
  have "single (snd (get_audio_context (p\<lparr>creation_allowed := a\<rparr>)))" "fst (get_audio_context (p\<lparr>creation_allowed := a\<rparr>)) \<in> {None, Some 0}"
    using Cons.prems by (auto simp: single_def get_audio_context_def split: option.splits)
  then show ?case
    using Cons.IH [of "snd (get_audio_context (p\<lparr>creation_allowed := a\<rparr>))"] by (simp add: Let_def case_prod_beta)
qed simp

subsection \<open>Players and recorders by type\<close>

definition recorder_supports :: "audio_page \<Rightarrow> jsstring \<Rightarrow> bool \<times> audio_page" where
  "recorder_supports p mimetype =
     (case get_audio_context p of (None, p') \<Rightarrow> (False, p') | (Some _, p') \<Rightarrow> (parse_format mimetype \<noteq> None, p'))"

definition recorder_types :: "audio_page \<Rightarrow> jsstring list \<times> audio_page" where
  "recorder_types p =
     (case get_audio_context p of (None, p') \<Rightarrow> ([], p') | (Some _, p') \<Rightarrow> ([js ''audio/L8'', js ''audio/L16''], p'))"

definition get_player :: "audio_page \<Rightarrow> jsstring \<Rightarrow> bool \<times> audio_page" where
  "get_player p mimetype = (case get_audio_context p of (c, p') \<Rightarrow> (is_supported_type (c \<noteq> None) mimetype, p'))"

definition get_recorder :: "audio_page \<Rightarrow> jsstring \<Rightarrow> bool \<times> audio_page" where
  "get_recorder p mimetype = recorder_supports p mimetype"

text \<open>Players and recorders accept the same types.\<close>

lemma player_and_recorder_agree: "get_player p mimetype = get_recorder p mimetype"
  by (simp add: get_player_def get_recorder_def recorder_supports_def is_supported_type_def split: prod.split option.split)

subsection \<open>The input sink\<close>

text \<open>The field of the sink: its text, the focus, and the deferred calls.\<close>

datatype deferred = Defer_click | Defer_focus

record input_sink =
  field_text :: jsstring
  field_focused :: bool
  field_selected :: bool
  sink_timers :: "deferred list"

text \<open>The focused element of the page is none, the body, or one with the right and bottom edges of its rectangle.\<close>

datatype focused_element = Nothing_focused | Body_focused | Element_focused int int

datatype sink_event =
  Type jsstring
| Sink_keypress
| Sink_composition_end jsstring
| Sink_input jsstring bool
| Focus_received
| Sink_focus
| Page_keydown focused_element
| Sink_timer

definition new_sink :: input_sink where
  "new_sink = \<lparr>field_text = [], field_focused = False, field_selected = False, sink_timers = []\<rparr>"

definition focus_sink :: "input_sink \<Rightarrow> input_sink" where
  "focus_sink s = s\<lparr>sink_timers := sink_timers s @ [Defer_focus]\<rparr>"

definition refocus_sink :: "focused_element \<Rightarrow> input_sink \<Rightarrow> input_sink" where
  "refocus_sink f s = (case f of Element_focused r b \<Rightarrow> if r > 0 \<and> b > 0 then s else focus_sink s | _ \<Rightarrow> focus_sink s)"

fun sink_on :: "sink_event \<Rightarrow> input_sink \<Rightarrow> input_sink" where
  "sink_on (Type t) s = s\<lparr>field_text := field_text s @ t\<rparr>"
| "sink_on Sink_keypress s = s\<lparr>field_text := []\<rparr>"
| "sink_on (Sink_composition_end d) s = (if d \<noteq> [] then s\<lparr>field_text := []\<rparr> else s)"
| "sink_on (Sink_input d composing) s = (if d \<noteq> [] \<and> \<not> composing then s\<lparr>field_text := []\<rparr> else s)"
| "sink_on Focus_received s = s\<lparr>sink_timers := sink_timers s @ [Defer_click]\<rparr>"
| "sink_on Sink_focus s = focus_sink s"
| "sink_on (Page_keydown f) s = refocus_sink f s"
| "sink_on Sink_timer s =
     (case sink_timers s of
        [] \<Rightarrow> s
      | Defer_click # ts \<Rightarrow> s\<lparr>field_selected := True, sink_timers := ts\<rparr>
      | Defer_focus # ts \<Rightarrow> s\<lparr>field_focused := True, sink_timers := ts\<rparr>)"

text \<open>Text that is entered is gone when its input event or the end of its composition has been handled.\<close>

lemma sink_stays_clear:
  "t \<noteq> [] \<Longrightarrow> field_text (sink_on (Sink_input t False) (sink_on (Type t) s)) = []"
  "t \<noteq> [] \<Longrightarrow> field_text (sink_on (Sink_composition_end t) (fold sink_on (map (\<lambda>u. Type u) us) s)) = []"
  by simp_all

text \<open>A key pressed while no visible element has the focus brings the focus to the sink once what was deferred has run.\<close>

lemma sink_timers_run: "sink_timers (fold sink_on (replicate (length (sink_timers s)) Sink_timer) s) = []
    \<and> (Defer_focus \<in> set (sink_timers s) \<or> field_focused s \<longrightarrow> field_focused (fold sink_on (replicate (length (sink_timers s)) Sink_timer) s))"
proof (induction "sink_timers s" arbitrary: s)
  case (Cons t ts)
  then have ts: "sink_timers s = t # ts" by simp
  then have "ts = sink_timers (sink_on Sink_timer s)"
    by (cases t) auto
  from Cons.hyps(1) [OF this] show ?case
    using ts by (cases t) auto
qed auto

lemma keydown_focuses_sink:
  assumes "\<And>r b. f = Element_focused r b \<Longrightarrow> \<not> (r > 0 \<and> b > 0)"
  shows "let s' = sink_on (Page_keydown f) s
    in field_focused (fold sink_on (replicate (length (sink_timers s')) Sink_timer) s')"
proof -
  have "Defer_focus \<in> set (sink_timers (sink_on (Page_keydown f) s))"
    using assms by (cases f) (auto simp: refocus_sink_def focus_sink_def)
  then show ?thesis
    using sink_timers_run by (simp add: Let_def)
qed

end
