(* ===== verification/Guac_Protocol.thy ===== *)
theory Guac_Protocol
  imports Guac_Prelude
begin

section \<open>The Guacamole protocol: instructions on the wire and the incremental parser\<close>

text \<open>
  An instruction is an opcode and its arguments; on the wire it is a comma-separated list of
  elements \<^verbatim>\<open>LENGTH.VALUE\<close> closed by a semicolon. \<open>encode_message\<close> is what
  \<^verbatim>\<open>sendMessage\<close> of both tunnels builds, \<open>parser\<close> and \<open>receive\<close> are
  \<^verbatim>\<open>Guacamole.Parser\<close>, one definition per part of the body of \<^verbatim>\<open>receive\<close> so that the
  client can interleave its handlers with them. \<open>spec_loop\<close> is the specification of the
  parser: it works on the unread text alone, with no indices, no buffer and no truncation,
  and \<open>parse_loop_refines\<close> says the parser implements it.
\<close>

named_theorems parser_defs \<open>the parts of the body of the parse loop\<close>

type_synonym instruction = "jsstring \<times> jsstring list"

abbreviation dot :: code_unit where "dot \<equiv> 46"
abbreviation comma :: code_unit where "comma \<equiv> 44"
abbreviation semicolon :: code_unit where "semicolon \<equiv> 59"

subsection \<open>Sending: getElement and the message of sendMessage\<close>

definition get_element :: "jsstring \<Rightarrow> jsstring" where
  "get_element value = nat_str (length value) @ [dot] @ value"

definition encode_message :: "jsstring list \<Rightarrow> jsstring" where
  "encode_message args =
     foldl (\<lambda>message v. message @ [comma] @ get_element v) (get_element (hd args)) (tl args)
       @ [semicolon]"

definition encode_instruction :: "instruction \<Rightarrow> jsstring" where
  "encode_instruction i = encode_message (fst i # snd i)"

subsection \<open>Guacamole.Parser\<close>

record parser =
  buffer :: jsstring
  element_buffer :: "jsstring list"
  element_end :: int
  start_index :: int

datatype parse_error = Illegal_terminator | Non_numeric_length

definition new_parser :: parser where
  "new_parser = \<lparr>buffer = [], element_buffer = [], element_end = -1, start_index = 0\<rparr>"

definition truncate_buffer :: "parser \<Rightarrow> parser" where
  "truncate_buffer p =
     (if start_index p > 4096 \<and> element_end p \<ge> start_index p
      then p\<lparr>buffer := js_substring (buffer p) (start_index p) (int (length (buffer p))),
             element_end := element_end p - start_index p,
             start_index := 0\<rparr>
      else p)"

definition append_packet :: "jsstring \<Rightarrow> parser \<Rightarrow> parser" where
  "append_packet packet p =
     (let p = truncate_buffer p in p\<lparr>buffer := buffer p @ packet\<rparr>)"

definition push_element :: "parser \<Rightarrow> parser" where
  "push_element p =
     p\<lparr>element_buffer :=
         element_buffer p @ [js_substring (buffer p) (start_index p) (element_end p)]\<rparr>"

definition terminator :: "parser \<Rightarrow> jsstring" where
  "terminator p = js_substring (buffer p) (element_end p) (element_end p + 1)"

definition shift_opcode :: "parser \<Rightarrow> instruction \<times> parser" where
  "shift_opcode p =
     ((hd (element_buffer p), tl (element_buffer p)),
      p\<lparr>element_buffer := tl (element_buffer p)\<rparr>)"

definition clear_elements :: "parser \<Rightarrow> parser" where
  "clear_elements p = p\<lparr>element_buffer := []\<rparr>"

definition after_element :: "parser \<Rightarrow> parser" where
  "after_element p = p\<lparr>start_index := element_end p + 1\<rparr>"

definition take_element :: "parser \<Rightarrow> parser \<times> instruction option \<times> parse_error option" where
  "take_element p =
     (let p1 = push_element p; t = terminator p
      in if t = [semicolon] then
           (let (i, p2) = shift_opcode p1
            in (after_element (clear_elements p2), Some i, None))
         else if t \<noteq> [comma] then (p1, None, Some Illegal_terminator)
         else (after_element p1, None, None))"

definition search_length :: "parser \<Rightarrow> parse_error + parser \<times> bool" where
  "search_length p =
     (let length_end = js_index_of (buffer p) dot (start_index p)
      in if length_end \<noteq> -1 then
           (case parse_int (js_substring (buffer p) (element_end p + 1) length_end) of
              None \<Rightarrow> Inl Non_numeric_length
            | Some len \<Rightarrow>
                Inr (p\<lparr>start_index := length_end + 1,
                       element_end := length_end + 1 + len\<rparr>, True))
         else Inr (p\<lparr>start_index := int (length (buffer p))\<rparr>, False))"

text \<open>
  The loop of \<^verbatim>\<open>receive\<close>. Its result is the parser, the instructions handed to
  \<^verbatim>\<open>oninstruction\<close> in order, and the exception it threw, if any.
\<close>

definition element_phase :: "parser \<Rightarrow> parser \<times> instruction option \<times> parse_error option" where
  "element_phase p =
     (if element_end p \<ge> start_index p then take_element p else (p, None, None))"

abbreviation of_option :: "'a option \<Rightarrow> 'a list" where
  "of_option x \<equiv> (case x of None \<Rightarrow> [] | Some i \<Rightarrow> [i])"

lemmas parser_parts [parser_defs] =
  push_element_def terminator_def shift_opcode_def clear_elements_def after_element_def
  take_element_def element_phase_def

lemma buffer_take_element [simp]: "buffer (fst (take_element p)) = buffer p"
  by (simp add: parser_defs Let_def)

lemma element_end_take_element [simp]: "element_end (fst (take_element p)) = element_end p"
  by (simp add: parser_defs Let_def)

lemma start_index_take_element:
  "take_element p = (p', out, None) \<Longrightarrow> start_index p' = element_end p + 1"
  by (auto simp: parser_defs Let_def split: if_splits)

lemma element_phase_progress:
  assumes "element_phase p = (p', out, None)"
  shows "buffer p' = buffer p \<and> element_end p' = element_end p
    \<and> start_index p \<le> start_index p' \<and> element_end p' < start_index p'"
proof (cases "element_end p \<ge> start_index p")
  case True
  with assms have t: "take_element p = (p', out, None)" by (simp add: element_phase_def)
  then show ?thesis
    using True start_index_take_element [OF t] buffer_take_element [of p]
      element_end_take_element [of p] by simp
next
  case False
  with assms show ?thesis by (simp add: element_phase_def)
qed

lemma search_length_progress:
  assumes "search_length p = Inr (p', True)"
  shows "buffer p' = buffer p \<and> start_index p < start_index p'
    \<and> 0 \<le> start_index p' \<and> start_index p' \<le> int (length (buffer p))"
proof -
  let ?e = "js_index_of (buffer p) dot (start_index p)"
  from assms have e: "?e \<noteq> -1" and p': "buffer p' = buffer p" "start_index p' = ?e + 1"
    by (auto simp: search_length_def Let_def split: if_splits option.splits)
  from js_index_of_bounds [OF e] p' show ?thesis by auto
qed

function parse_loop :: "parser \<Rightarrow> parser \<times> instruction list \<times> parse_error option" where
  "parse_loop p =
     (if element_end p < int (length (buffer p)) then
        (case element_phase p of
           (p1, out, Some e) \<Rightarrow> (p1, [], Some e)
         | (p1, out, None) \<Rightarrow>
             (case search_length p1 of
                Inl e \<Rightarrow> (p1, of_option out, Some e)
              | Inr (p2, again) \<Rightarrow>
                  if again then
                    (case parse_loop p2 of
                       (p3, outs, err) \<Rightarrow> (p3, of_option out @ outs, err))
                  else (p2, of_option out, None)))
      else (p, [], None))"
  by pat_completeness auto
termination
  by (relation "measure (\<lambda>p. nat (int (length (buffer p)) + 1 - start_index p))")
    (auto dest!: element_phase_progress [OF sym] search_length_progress)

declare parse_loop.simps [simp del]

definition receive :: "jsstring \<Rightarrow> parser \<Rightarrow> parser \<times> instruction list \<times> parse_error option" where
  "receive packet p = parse_loop (append_packet packet p)"

text \<open>A sequence of packets; an exception thrown by one call ends the sequence.\<close>

fun receive_all ::
  "jsstring list \<Rightarrow> parser \<Rightarrow> parser \<times> instruction list \<times> parse_error option" where
  "receive_all [] p = (p, [], None)"
| "receive_all (x # xs) p =
     (case receive x p of
        (p1, out, Some e) \<Rightarrow> (p1, out, Some e)
      | (p1, out, None) \<Rightarrow>
          (case receive_all xs p1 of (p2, outs, err) \<Rightarrow> (p2, out @ outs, err)))"

subsection \<open>The specification: parsing the unread text\<close>

text \<open>
  What the parser has not yet used up is either text in which the next length is sought, or
  the text of an element whose length is known. \<open>spec_loop\<close> consumes as much of it as
  can be consumed. A negative length, which \<^verbatim>\<open>parseInt\<close> accepts and the protocol does
  not have, is outside the specification and is reported as such.
\<close>

datatype awaiting = Need_length jsstring | Need_data nat jsstring

datatype spec_error = Rejects parse_error | Negative_length

fun unread :: "awaiting \<Rightarrow> jsstring" where
  "unread (Need_length t) = t"
| "unread (Need_data n t) = t"

fun more_text :: "awaiting \<Rightarrow> jsstring \<Rightarrow> awaiting" where
  "more_text (Need_length t) y = Need_length (t @ y)"
| "more_text (Need_data n t) y = Need_data n (t @ y)"

type_synonym spec_result =
  "(jsstring list \<times> awaiting) \<times> instruction list \<times> spec_error option"

definition emit :: "instruction list \<Rightarrow> spec_result \<Rightarrow> spec_result" where
  "emit is r = (case r of (st, outs, err) \<Rightarrow> (st, is @ outs, err))"

function spec_loop :: "jsstring list \<Rightarrow> awaiting \<Rightarrow> spec_result" where
  "spec_loop es (Need_data n t) =
     (if n < length t then
        (let es' = es @ [take n t]; rest = Need_length (drop (Suc n) t)
         in if t ! n = semicolon then emit [(hd es', tl es')] (spec_loop [] rest)
            else if t ! n = comma then spec_loop es' rest
            else ((es', Need_data n t), [], Some (Rejects Illegal_terminator)))
      else ((es, Need_data n t), [], None))"
| "spec_loop es (Need_length t) =
     (case find_unit dot t of
        None \<Rightarrow> ((es, Need_length t), [], None)
      | Some i \<Rightarrow>
          (case parse_int (take i t) of
             None \<Rightarrow> ((es, Need_length t), [], Some (Rejects Non_numeric_length))
           | Some k \<Rightarrow>
               if k < 0 then ((es, Need_length t), [], Some Negative_length)
               else spec_loop es (Need_data (nat k) (drop (Suc i) t))))"
  by pat_completeness auto
termination
  by (relation "measure (\<lambda>(es, a). length (unread a))") (auto dest!: find_unit_SomeD)

declare spec_loop.simps [simp del]

definition abs_parser :: "parser \<Rightarrow> jsstring list \<times> awaiting" where
  "abs_parser p =
     (element_buffer p,
      if element_end p \<ge> start_index p
      then Need_data (nat (element_end p - start_index p)) (drop (nat (start_index p)) (buffer p))
      else Need_length (drop (nat (element_end p + 1)) (buffer p)))"

definition parser_inv :: "parser \<Rightarrow> bool" where
  "parser_inv p \<longleftrightarrow>
     -1 \<le> element_end p \<and> 0 \<le> start_index p \<and> start_index p \<le> int (length (buffer p)) \<and>
     (element_end p < start_index p \<longrightarrow>
        dot \<notin> set (js_substring (buffer p) (element_end p + 1) (start_index p)))"

lemma emit_simps [simp]:
  "emit is (st, outs, err) = (st, is @ outs, err)"
  "emit [] r = r"
  "emit is (emit is2 r) = emit (is @ is2) r"
  by (auto simp: emit_def split: prod.splits)

subsection \<open>The parser implements the specification\<close>

lemma new_parser_abs: "parser_inv new_parser \<and> abs_parser new_parser = ([], Need_length [])"
  by (simp add: parser_inv_def abs_parser_def new_parser_def js_substring_def)

lemma append_packet_abs:
  assumes "parser_inv p"
  shows "parser_inv (append_packet y p)"
    and "abs_parser (append_packet y p) =
      (fst (abs_parser p), more_text (snd (abs_parser p)) y)"
proof -
  let ?b = "buffer p"
  have sub: "js_substring (?b @ y) (element_end p + 1) (start_index p) =
      js_substring ?b (element_end p + 1) (start_index p)" if "element_end p < start_index p"
    using that assms by (simp add: js_substring_in_range parser_inv_def nat_diff_distrib nat_le_iff)
  show "parser_inv (append_packet y p)"
    using assms sub
    by (auto simp: parser_inv_def append_packet_def truncate_buffer_def Let_def)
  show "abs_parser (append_packet y p) =
      (fst (abs_parser p), more_text (snd (abs_parser p)) y)"
    using assms
    by (auto simp: parser_inv_def abs_parser_def append_packet_def truncate_buffer_def Let_def
        js_substring_in_range)
qed

text \<open>
  One turn of the loop is at most two steps of the specification: the element phase takes
  one if the parser holds a whole element, the search for the next length takes the other.
\<close>

lemma element_phase_data:
  assumes inv: "parser_inv p" and data: "start_index p \<le> element_end p"
    and avail: "element_end p < int (length (buffer p))"
  defines "n \<equiv> nat (element_end p - start_index p)"
    and "t \<equiv> drop (nat (start_index p)) (buffer p)"
  shows "n < length t"
    and "js_substring (buffer p) (start_index p) (element_end p) = take n t"
    and "terminator p = [t ! n]"
    and "drop (Suc n) t = drop (nat (element_end p + 1)) (buffer p)"
proof -
  have s: "0 \<le> start_index p" using inv by (simp add: parser_inv_def)
  have e: "nat (element_end p) = nat (start_index p) + n"
    using s data by (simp add: n_def nat_diff_distrib)
  show n: "n < length t" using s data avail by (simp add: n_def t_def)
  show "js_substring (buffer p) (start_index p) (element_end p) = take n t"
    using s data avail by (simp add: js_substring_in_range n_def t_def)
  have "terminator p = take 1 (drop (nat (element_end p)) (buffer p))"
    using s data avail by (simp add: terminator_def js_substring_in_range)
  also have "drop (nat (element_end p)) (buffer p) = drop n t"
    by (simp add: e t_def add.commute)
  also have "take 1 (drop n t) = [t ! n]"
    using n by (simp add: take_Suc hd_drop_conv_nth)
  finally show "terminator p = [t ! n]" .
  have "nat (element_end p + 1) = Suc n + nat (start_index p)"
    using e s data by (simp add: nat_add_distrib)
  then show "drop (Suc n) t = drop (nat (element_end p + 1)) (buffer p)"
    by (simp add: t_def)
qed

lemma take_element_data:
  assumes inv: "parser_inv p" and data: "start_index p \<le> element_end p"
    and avail: "element_end p < int (length (buffer p))"
  defines "n \<equiv> nat (element_end p - start_index p)"
    and "t \<equiv> drop (nat (start_index p)) (buffer p)"
  shows "take_element p =
      (let es = element_buffer p @ [take n t]; q = p\<lparr>start_index := element_end p + 1\<rparr>
       in if t ! n = semicolon then (q\<lparr>element_buffer := []\<rparr>, Some (hd es, tl es), None)
          else if t ! n = comma then (q\<lparr>element_buffer := es\<rparr>, None, None)
          else (p\<lparr>element_buffer := es\<rparr>, None, Some Illegal_terminator))"
  using element_phase_data [OF inv data avail]
  by (simp add: take_element_def push_element_def shift_opcode_def clear_elements_def
      after_element_def Let_def n_def t_def)

lemma after_element_abs:
  fixes es :: "jsstring list"
  assumes "parser_inv p" and "element_end p < int (length (buffer p))"
  defines "q \<equiv> p\<lparr>start_index := element_end p + 1, element_buffer := es\<rparr>"
  shows "parser_inv q" "element_end q < start_index q"
    "abs_parser q = (es, Need_length (drop (nat (element_end p + 1)) (buffer p)))"
  using assms by (auto simp: parser_inv_def abs_parser_def js_substring_def)

lemma element_phase_refines:
  assumes inv: "parser_inv p" and avail: "element_end p < int (length (buffer p))"
    and phase: "element_phase p = (p1, out, err)"
  shows "case err of
      Some e \<Rightarrow> \<exists>st. spec_loop (fst (abs_parser p)) (snd (abs_parser p)) = (st, [], Some (Rejects e))
    | None \<Rightarrow> parser_inv p1 \<and> element_end p1 < start_index p1 \<and>
        spec_loop (fst (abs_parser p)) (snd (abs_parser p)) =
        emit (of_option out) (spec_loop (fst (abs_parser p1)) (snd (abs_parser p1)))"
proof (cases "start_index p \<le> element_end p")
  case False
  with phase inv show ?thesis by (auto simp: element_phase_def)
next
  case True
  let ?n = "nat (element_end p - start_index p)"
  let ?t = "drop (nat (start_index p)) (buffer p)"
  have a: "abs_parser p = (element_buffer p, Need_data ?n ?t)"
    using True by (simp add: abs_parser_def)
  note data = element_phase_data [OF inv True avail]
  note q = after_element_abs [OF inv avail]
  have take: "take_element p = (p1, out, err)" using True phase by (simp add: element_phase_def)
  consider "?t ! ?n = semicolon" | "?t ! ?n = comma"
    | "?t ! ?n \<noteq> semicolon" "?t ! ?n \<noteq> comma" by blast
  then show ?thesis
  proof cases
    case 1
    with take take_element_data [OF inv True avail] have
      "p1 = p\<lparr>start_index := element_end p + 1, element_buffer := []\<rparr>" "err = None"
      "out = Some (hd (element_buffer p @ [take ?n ?t]), tl (element_buffer p @ [take ?n ?t]))"
      by (simp_all add: Let_def)
    with 1 data q [of "[]"] a show ?thesis by (simp add: spec_loop.simps(1) Let_def)
  next
    case 2
    with take take_element_data [OF inv True avail] have
      "p1 = p\<lparr>start_index := element_end p + 1,
              element_buffer := element_buffer p @ [take ?n ?t]\<rparr>" "err = None" "out = None"
      by (simp_all add: Let_def)
    with 2 data q [of "element_buffer p @ [take ?n ?t]"] a show ?thesis
      by (simp add: spec_loop.simps(1) Let_def)
  next
    case 3
    with take take_element_data [OF inv True avail] have "err = Some Illegal_terminator"
      by (simp add: Let_def)
    with 3 data a show ?thesis by (simp add: spec_loop.simps(1) Let_def)
  qed
qed

lemma search_length_text:
  assumes inv: "parser_inv p" and len: "element_end p < start_index p"
  defines "t \<equiv> drop (nat (element_end p + 1)) (buffer p)"
  shows "find_unit dot t =
      (let i = js_index_of (buffer p) dot (start_index p)
       in if i = -1 then None else Some (nat (i - (element_end p + 1))))"
    and "js_index_of (buffer p) dot (start_index p) = int j \<Longrightarrow>
      js_substring (buffer p) (element_end p + 1) (int j) = take (j - nat (element_end p + 1)) t"
    and "js_index_of (buffer p) dot (start_index p) = int j \<Longrightarrow>
      nat (element_end p + 1) \<le> j \<and> j < length (buffer p)"
proof -
  let ?e = "nat (element_end p + 1)" and ?s = "nat (start_index p)"
  have es: "?e \<le> ?s" "?s \<le> length (buffer p)" and e0: "0 \<le> element_end p + 1"
    and nodot: "dot \<notin> set (take (?s - ?e) t)"
    using inv len by (auto simp: parser_inv_def js_substring_in_range t_def nat_diff_distrib)
  have split: "t = take (?s - ?e) t @ drop ?s (buffer p)"
    using es by (metis append_take_drop_id drop_drop le_add_diff_inverse2 t_def)
  have lt: "length (take (?s - ?e) t) = ?s - ?e"
    using es by (simp add: t_def)
  show fu: "find_unit dot t =
      (let i = js_index_of (buffer p) dot (start_index p)
       in if i = -1 then None else Some (nat (i - (element_end p + 1))))"
  proof (rule js_index_of_cases [of "buffer p" dot "start_index p"])
    assume "js_index_of (buffer p) dot (start_index p) = -1" "dot \<notin> set (drop ?s (buffer p))"
    with nodot show ?thesis
      by (subst split) (simp add: find_unit_None_iff)
  next
    fix i
    assume i: "js_index_of (buffer p) dot (start_index p) = int i" "?s \<le> i"
      "i < length (buffer p)" "buffer p ! i = dot"
      "dot \<notin> set (take (i - ?s) (drop ?s (buffer p)))"
    have "drop ?s (buffer p) = take (i - ?s) (drop ?s (buffer p)) @ dot # drop (Suc i) (buffer p)"
      using i by (metis Cons_nth_drop_Suc append_take_drop_id drop_drop le_add_diff_inverse2)
    then have "find_unit dot (drop ?s (buffer p)) = Some (i - ?s)"
      using find_unit_hit [OF i(5), of "drop (Suc i) (buffer p)"] i(2,3) by simp
    moreover have "find_unit dot (take (?s - ?e) t) = None"
      using nodot by (simp add: find_unit_None_iff)
    ultimately have "find_unit dot t = Some (i - ?e)"
      using lt es i(2) by (subst split) (simp add: find_unit_append del: length_take)
    with i e0 show ?thesis by (simp add: nat_diff_distrib)
  qed
  assume j: "js_index_of (buffer p) dot (start_index p) = int j"
  then have "start_index p \<le> int j" "j < length (buffer p)"
    using js_index_of_bounds [of "buffer p" dot "start_index p"] by auto
  then show b: "?e \<le> j \<and> j < length (buffer p)" using es by linarith
  then show "js_substring (buffer p) (element_end p + 1) (int j) = take (j - ?e) t"
    using e0 by (simp add: js_substring_in_range t_def nat_diff_distrib nat_le_iff)
qed

lemma search_length_refines:
  assumes inv: "parser_inv p" and len: "element_end p < start_index p"
    and search: "search_length p = r"
    and spec: "spec_loop (fst (abs_parser p)) (snd (abs_parser p)) = res"
  shows "case r of
      Inl e \<Rightarrow> \<exists>st. res = (st, [], Some (Rejects e))
    | Inr (p', again) \<Rightarrow>
        if again then (\<exists>st. res = (st, [], Some Negative_length)) \<or>
          parser_inv p' \<and> spec_loop (fst (abs_parser p')) (snd (abs_parser p')) = res
        else parser_inv p' \<and> res = (abs_parser p', [], None)"
proof -
  let ?e = "nat (element_end p + 1)"
  let ?t = "drop ?e (buffer p)"
  have e0: "0 \<le> element_end p + 1" using inv by (simp add: parser_inv_def)
  have a: "abs_parser p = (element_buffer p, Need_length ?t)"
    using len by (simp add: abs_parser_def)
  note scan = search_length_text [OF inv len]
  show ?thesis
  proof (rule js_index_of_cases [of "buffer p" dot "start_index p"])
    assume none: "js_index_of (buffer p) dot (start_index p) = -1"
    with search have r: "r = Inr (p\<lparr>start_index := int (length (buffer p))\<rparr>, False)"
      by (simp add: search_length_def)
    have nodot: "dot \<notin> set ?t" using scan(1) none by (simp add: find_unit_None_iff)
    have "parser_inv (p\<lparr>start_index := int (length (buffer p))\<rparr>)"
      using inv len nodot
      by (auto simp: parser_inv_def js_substring_in_range dest: in_set_takeD)
    moreover have "res = (abs_parser (p\<lparr>start_index := int (length (buffer p))\<rparr>), [], None)"
      using inv len nodot spec a
      by (auto simp: parser_inv_def abs_parser_def spec_loop.simps(2) find_unit_None_iff [symmetric])
    ultimately show ?thesis using r by simp
  next
    fix j
    assume j: "js_index_of (buffer p) dot (start_index p) = int j"
    note b = scan(3) [OF j]
    have fu: "find_unit dot ?t = Some (j - ?e)"
      using scan(1) j e0 b by (simp add: nat_diff_distrib nat_le_iff)
    let ?n = "parse_int (take (j - ?e) ?t)"
    have dr: "drop (Suc (j - ?e)) ?t = drop (Suc j) (buffer p)" using b by simp
    show ?thesis
    proof (cases ?n)
      case None
      with search spec a scan(2) [OF j] j fu show ?thesis
        by (auto simp: search_length_def spec_loop.simps(2))
    next
      case (Some k)
      with search scan(2) [OF j] j have r: "r = Inr (p\<lparr>start_index := int j + 1,
          element_end := int j + 1 + k\<rparr>, True)"
        by (simp add: search_length_def Let_def)
      show ?thesis
      proof (cases "k < 0")
        case True
        with Some spec a fu r show ?thesis by (auto simp: spec_loop.simps(2))
      next
        case False
        with Some spec a fu dr have "spec_loop (element_buffer p)
            (Need_data (nat k) (drop (Suc j) (buffer p))) = res"
          by (simp add: spec_loop.simps(2))
        with False r b show ?thesis
          by (simp add: abs_parser_def parser_inv_def nat_add_distrib)
      qed
    qed
  qed
qed

lemma parse_loop_refines:
  assumes "parser_inv p"
    and "spec_loop (fst (abs_parser p)) (snd (abs_parser p)) = (st, outs, err)"
    and "err \<noteq> Some Negative_length"
  shows "\<exists>p' e. parse_loop p = (p', outs, e) \<and> err = map_option Rejects e
    \<and> (e = None \<longrightarrow> parser_inv p' \<and> abs_parser p' = st)"
  using assms
proof (induction p arbitrary: outs rule: parse_loop.induct)
  case (1 p)
  show ?case
  proof (cases "element_end p < int (length (buffer p))")
    case False
    then have "start_index p \<le> element_end p" using "1.prems"(1) by (simp add: parser_inv_def)
    moreover have "\<not> nat (element_end p - start_index p) < length (buffer p) - nat (start_index p)"
      using False "1.prems"(1) by (simp add: parser_inv_def)
    ultimately have "st = abs_parser p \<and> outs = [] \<and> err = None"
      using "1.prems"(2) by (simp add: abs_parser_def spec_loop.simps(1))
    with False "1.prems"(1) show ?thesis by (simp add: parse_loop.simps [of p])
  next
    case True
    obtain p1 out e1 where ph: "element_phase p = (p1, out, e1)" by (cases "element_phase p")
    note ref = element_phase_refines [OF "1.prems"(1) True ph]
    show ?thesis
    proof (cases e1)
      case (Some e)
      with ref "1.prems"(2) have "outs = []" "err = Some (Rejects e)" by auto
      with Some True ph show ?thesis by (simp add: parse_loop.simps [of p])
    next
      case None
      obtain st' outs' err' where s1: "spec_loop (fst (abs_parser p1)) (snd (abs_parser p1))
          = (st', outs', err')" by (metis prod_cases3)
      with None ref "1.prems"(2) have inv1: "parser_inv p1" "element_end p1 < start_index p1"
        and eqs: "st' = st" "outs = of_option out @ outs'" "err' = err" by auto
      note sl = search_length_refines [OF inv1 refl s1]
      show ?thesis
      proof (cases "search_length p1")
        case (Inl e)
        with sl eqs have "outs' = []" "err = Some (Rejects e)" by auto
        with Inl None True ph eqs show ?thesis by (simp add: parse_loop.simps [of p])
      next
        case (Inr pa)
        obtain p2 ag where pa: "pa = (p2, ag)" by (cases pa)
        show ?thesis
        proof (cases ag)
          case False
          with sl Inr pa eqs have "parser_inv p2" "st = abs_parser p2" "outs' = []" "err = None"
            by auto
          with False Inr pa None True ph eqs show ?thesis by (simp add: parse_loop.simps [of p])
        next
          case again: True
          with sl Inr pa eqs "1.prems"(3) have inv2: "parser_inv p2"
            "spec_loop (fst (abs_parser p2)) (snd (abs_parser p2)) = (st, outs', err)" by auto
          from "1.IH" [OF True ph [symmetric] refl None Inr pa [symmetric] again inv2 "1.prems"(3)]
          obtain p' e where "parse_loop p2 = (p', outs', e)" "err = map_option Rejects e"
            "e = None \<longrightarrow> parser_inv p' \<and> abs_parser p' = st" by blast
          with again Inr pa None True ph eqs show ?thesis by (simp add: parse_loop.simps [of p])
        qed
      qed
    qed
  qed
qed

subsection \<open>Fragmentation\<close>

text \<open>
  The specification does not see packet boundaries: text that is fed later is the same as
  text that was there from the start, both when everything so far was accepted and after an
  error.
\<close>

lemma spec_loop_more_text:
  "spec_loop es a = (st, outs, err) \<Longrightarrow>
   (case err of
      None \<Rightarrow> spec_loop es (more_text a y) = emit outs (spec_loop (fst st) (more_text (snd st) y))
    | Some e \<Rightarrow> \<exists>st'. spec_loop es (more_text a y) = (st', outs, Some e))"
proof (induction es a arbitrary: st outs err rule: spec_loop.induct)
  case (1 es n t)
  show ?case
  proof (cases "n < length t")
    case False
    with "1.prems" show ?thesis by (auto simp: spec_loop.simps(1))
  next
    case True
    define r where "r = spec_loop (if t ! n = semicolon then [] else es @ [take n t])
      (Need_length (drop (Suc n) t))"
    obtain st1 o1 e1 where r1: "r = (st1, o1, e1)" by (metis prod_cases3)
    show ?thesis
    proof (cases "t ! n = semicolon \<or> t ! n = comma")
      case sep: True
      have IH: "case e1 of None \<Rightarrow> spec_loop (if t ! n = semicolon then [] else es @ [take n t])
            (Need_length (drop (Suc n) t @ y)) = emit o1 (spec_loop (fst st1) (more_text (snd st1) y))
          | Some e \<Rightarrow> \<exists>st'. spec_loop (if t ! n = semicolon then [] else es @ [take n t])
            (Need_length (drop (Suc n) t @ y)) = (st', o1, Some e)"
        using "1.IH"(1) [OF True refl refl] "1.IH"(2) [OF True refl refl] sep r1
        by (cases "t ! n = semicolon"; cases e1) (auto simp: r_def)
      show ?thesis
        using "1.prems" True sep r1 IH
        by (auto simp: spec_loop.simps(1) Let_def r_def nth_append split: option.splits if_splits)
    next
      case False
      with "1.prems" True show ?thesis
        by (auto simp: spec_loop.simps(1) Let_def nth_append)
    qed
  qed
next
  case (2 es t)
  show ?case
  proof (cases "find_unit dot t")
    case None
    with "2.prems" show ?thesis by (auto simp: spec_loop.simps(2) find_unit_append)
  next
    case (Some i)
    then have "i < length t" using find_unit_SomeD [OF Some] by simp
    moreover have "find_unit dot (t @ y) = Some i" using Some by (simp add: find_unit_append)
    ultimately have eq: "spec_loop es (more_text (Need_length t) y) =
        (case parse_int (take i t) of
           None \<Rightarrow> ((es, Need_length (t @ y)), [], Some (Rejects Non_numeric_length))
         | Some k \<Rightarrow> if k < 0 then ((es, Need_length (t @ y)), [], Some Negative_length)
             else spec_loop es (more_text (Need_data (nat k) (drop (Suc i) t)) y))"
      by (simp add: spec_loop.simps(2) split: option.split)
    show ?thesis
    proof (cases "\<exists>k. parse_int (take i t) = Some k \<and> \<not> k < 0")
      case True
      then obtain k where k: "parse_int (take i t) = Some k" "\<not> k < 0" by blast
      with "2.prems" Some have "spec_loop es (Need_data (nat k) (drop (Suc i) t)) = (st, outs, err)"
        by (simp add: spec_loop.simps(2))
      from "2.IH" [OF Some k this] eq k show ?thesis by (cases err) simp_all
    next
      case False
      with "2.prems" Some eq show ?thesis
        by (auto simp: spec_loop.simps(2) split: option.splits if_splits)
    qed
  qed
qed

lemma spec_loop_quiescent:
  "spec_loop es a = (st, outs, None) \<Longrightarrow> spec_loop (fst st) (snd st) = (st, [], None)"
proof (induction es a arbitrary: outs rule: spec_loop.induct)
  case (1 es n t)
  then show ?case
    by (auto simp: spec_loop.simps(1) Let_def emit_def split: if_splits prod.splits)
next
  case (2 es t)
  then show ?case
    by (auto simp: spec_loop.simps(2) split: option.splits if_splits)
qed

definition quiescent :: "parser \<Rightarrow> bool" where
  "quiescent p \<longleftrightarrow> parser_inv p \<and>
     spec_loop (fst (abs_parser p)) (snd (abs_parser p)) = (abs_parser p, [], None)"

lemma more_text_more_text [simp]: "more_text (more_text a x) y = more_text a (x @ y)"
  by (cases a) auto

lemma more_text_Nil [simp]: "more_text a [] = a"
  by (cases a) auto

lemma receive_all_refines:
  assumes "quiescent p"
    and "spec_loop (fst (abs_parser p)) (more_text (snd (abs_parser p)) (concat xs)) = (st, outs, err)"
    and "err \<noteq> Some Negative_length"
  shows "\<exists>p' e. receive_all xs p = (p', outs, e) \<and> err = map_option Rejects e
    \<and> (e = None \<longrightarrow> quiescent p' \<and> abs_parser p' = st)"
  using assms
proof (induction xs arbitrary: p outs)
  case Nil
  then show ?case by (auto simp: quiescent_def)
next
  case (Cons x xs)
  let ?es = "fst (abs_parser p)" and ?a = "more_text (snd (abs_parser p)) x"
  have inv: "parser_inv p" using Cons.prems(1) by (simp add: quiescent_def)
  note ap = append_packet_abs [OF inv, of x]
  obtain st1 o1 e1 where s1: "spec_loop ?es ?a = (st1, o1, e1)" by (metis prod_cases3)
  note frag = spec_loop_more_text [OF s1, of "concat xs"]
  have "e1 \<noteq> Some Negative_length" using frag Cons.prems(2,3) by (cases e1) auto
  with parse_loop_refines [OF ap(1)] s1 ap(2) obtain p1 c1 where
    p1: "receive x p = (p1, o1, c1)" "e1 = map_option Rejects c1"
      "c1 = None \<longrightarrow> parser_inv p1 \<and> abs_parser p1 = st1"
    by (auto simp: receive_def)
  show ?case
  proof (cases c1)
    case (Some e)
    with p1 frag Cons.prems(2) show ?thesis by auto
  next
    case None
    with p1 have q: "parser_inv p1" "abs_parser p1 = st1" and e1: "e1 = None" by auto
    with s1 have "quiescent p1" by (auto simp: quiescent_def dest: spec_loop_quiescent)
    moreover obtain st2 o2 err2 where s2: "spec_loop (fst (abs_parser p1))
        (more_text (snd (abs_parser p1)) (concat xs)) = (st2, o2, err2)" by (metis prod_cases3)
    moreover have "st2 = st" "outs = o1 @ o2" "err2 = err"
      using frag e1 q(2) s2 Cons.prems(2) by auto
    ultimately show ?thesis
      using Cons.IH [of p1 o2] Cons.prems(3) p1(1) None by auto
  qed
qed

subsection \<open>Round trip\<close>

lemma encode_message_Cons:
  "encode_message (a # as) = get_element a @ concat (map (\<lambda>v. comma # get_element v) as) @ [semicolon]"
proof -
  have "foldl (\<lambda>m v. m @ [comma] @ get_element v) m as = m @ concat (map (\<lambda>v. comma # get_element v) as)"
    for m by (induction as arbitrary: m) auto
  then show ?thesis by (simp add: encode_message_def)
qed

lemma encode_message_step:
  "as \<noteq> [] \<Longrightarrow> encode_message (a # as) = get_element a @ comma # encode_message as"
  by (cases as) (simp_all add: encode_message_Cons)

lemma spec_loop_element:
  "spec_loop es (Need_length (get_element v @ c # rest)) =
     (if c = semicolon then emit [(hd (es @ [v]), tl (es @ [v]))] (spec_loop [] (Need_length rest))
      else if c = comma then spec_loop (es @ [v]) (Need_length rest)
      else ((es @ [v], Need_data (length v) (v @ c # rest)), [], Some (Rejects Illegal_terminator)))"
proof -
  have "find_unit dot (get_element v @ c # rest) = Some (length (nat_str (length v)))"
    using find_unit_hit [of dot "nat_str (length v)" "v @ c # rest"] nat_str_no_unit [of dot "length v"]
    by (simp add: get_element_def)
  then show ?thesis
    by (simp add: spec_loop.simps(2) spec_loop.simps(1) [of _ "length v"] get_element_def js_simps Let_def)
qed

lemma spec_loop_message:
  assumes "args \<noteq> []"
  shows "spec_loop es (Need_length (encode_message args @ rest)) =
    emit [(hd (es @ args), tl (es @ args))] (spec_loop [] (Need_length rest))"
  using assms
proof (induction args arbitrary: es)
  case (Cons a as)
  show ?case
  proof (cases as)
    case Nil
    then show ?thesis by (simp add: encode_message_Cons spec_loop_element)
  next
    case (Cons b bs)
    then have "encode_message (a # as) @ rest = get_element a @ comma # encode_message as @ rest"
      by (simp add: encode_message_step)
    with Cons.IH [of "es @ [a]"] Cons show ?thesis by (simp add: spec_loop_element)
  qed
qed simp

lemma spec_loop_instructions:
  "spec_loop [] (Need_length (concat (map encode_instruction is) @ rest)) =
     emit is (spec_loop [] (Need_length rest))"
  by (induction "is") (simp_all add: encode_instruction_def spec_loop_message)

lemma new_parser_quiescent: "quiescent new_parser"
  using new_parser_abs by (simp add: quiescent_def spec_loop.simps(2))

lemmas parser_eval [js_eval] =
  receive_def append_packet_def truncate_buffer_def new_parser_def parse_loop.simps search_length_def
  get_element_def encode_message_def encode_instruction_def spec_loop.simps parser_parts

subsection \<open>Properties of the parser\<close>

lemma fresh_parser_refines:
  assumes "spec_loop [] (Need_length (concat packets)) = (st, outs, err)"
    and "err \<noteq> Some Negative_length"
  shows "\<exists>p e. receive_all packets new_parser = (p, outs, e) \<and> err = map_option Rejects e
    \<and> (e = None \<longrightarrow> quiescent p \<and> abs_parser p = st)"
proof -
  have "spec_loop (fst (abs_parser new_parser))
      (more_text (snd (abs_parser new_parser)) (concat packets)) = (st, outs, err)"
    using assms(1) new_parser_abs by simp
  from receive_all_refines [OF new_parser_quiescent this assms(2)] show ?thesis .
qed

text \<open>
  (C1) Whatever instructions are encoded by \<^verbatim>\<open>sendMessage\<close>, with any code units in their
  opcode and arguments (periods, commas, semicolons, empty strings), and however the stream
  is cut into packets (empty ones and cuts inside a length included), a fresh parser that
  receives the packets hands exactly those instructions to \<^verbatim>\<open>oninstruction\<close>, in
  order, throws nothing, and ends ready for the next instruction.
\<close>

theorem parser_delivers_fragmented_stream:
  assumes "concat packets = concat (map encode_instruction is)"
  shows "\<exists>p. receive_all packets new_parser = (p, is, None) \<and> abs_parser p = ([], Need_length [])"
proof -
  have "spec_loop [] (Need_length (concat packets)) = (([], Need_length []), is, None)"
    using assms spec_loop_instructions [of "is" "[]"] by (simp add: spec_loop.simps(2))
  from fresh_parser_refines [OF this] show ?thesis by auto
qed

theorem parser_delivers_fragmented_stream_witness:
  "\<exists>p. receive_all [js ''4.si'', [], js ''ze,1'', js ''.;,0.;''] new_parser
     = (p, [(js ''size'', [js '';'', []])], None) \<and> abs_parser p = ([], Need_length [])"
proof -
  have "concat [js ''4.si'', [], js ''ze,1'', js ''.;,0.;''] =
      concat (map encode_instruction [(js ''size'', [js '';'', []])])"
    by (simp add: js_eval)
  then show ?thesis by (rule parser_delivers_fragmented_stream)
qed

text \<open>
  (C2) The parser implements its specification on every input, malformed input included: as
  long as the text holds no negative length, the instructions delivered, the exception
  thrown, and the unread text afterwards are those of \<open>spec_loop\<close> on the whole text. The
  truncation of the buffer at 4096 characters, the indices and the packet boundaries cannot be
  observed.
\<close>

theorem parser_refines_specification:
  assumes "spec_loop [] (Need_length (concat packets)) = (st, outs, err)"
    and "err \<noteq> Some Negative_length"
  shows "\<exists>p e. receive_all packets new_parser = (p, outs, e) \<and> err = map_option Rejects e
    \<and> (e = None \<longrightarrow> abs_parser p = st)"
  using fresh_parser_refines [OF assms] by blast

theorem parser_refines_specification_witness:
  "\<exists>p e. receive_all [js ''3.nop;2.o'', js ''kX''] new_parser = (p, [(js ''nop'', [])], e)
     \<and> Some (Rejects Illegal_terminator) = map_option Rejects e
     \<and> (e = None \<longrightarrow> abs_parser p = ([js ''ok''], Need_data 2 (js ''okX'')))"
proof -
  have "spec_loop [] (Need_length (concat [js ''3.nop;2.o'', js ''kX''])) =
      (([js ''ok''], Need_data 2 (js ''okX'')), [(js ''nop'', [])], Some (Rejects Illegal_terminator))"
    by (simp add: js_eval)
  then show ?thesis by (rule parser_refines_specification) simp
qed

text \<open>
  An element followed by anything but a comma or a semicolon is refused: the instructions
  before it are delivered, the exception for an illegal terminator is thrown, and this does not
  depend on how the text was cut into packets.
\<close>

theorem parser_rejects_illegal_terminator:
  assumes "concat packets = concat (map encode_instruction is) @ get_element v @ c # rest"
    and "c \<noteq> comma" and "c \<noteq> semicolon"
  shows "\<exists>p. receive_all packets new_parser = (p, is, Some Illegal_terminator)"
proof -
  have "spec_loop [] (Need_length (concat packets)) =
      (([v], Need_data (length v) (v @ c # rest)), is, Some (Rejects Illegal_terminator))"
    using assms spec_loop_instructions [of "is" "get_element v @ c # rest"]
    by (simp add: spec_loop_element)
  from fresh_parser_refines [OF this] show ?thesis by (auto simp: map_option_case split: option.splits)
qed

theorem parser_rejects_illegal_terminator_witness:
  "\<exists>p. receive_all [js ''3.nop;2.o'', js ''k:'', js ''1.x;''] new_parser
     = (p, [(js ''nop'', [])], Some Illegal_terminator)"
  by (rule parser_rejects_illegal_terminator [where v = "js ''ok''" and c = 58 and rest = "js ''1.x;''"])
    (simp_all add: js_eval)

text \<open>
  The message of the exception for a bad length speaks of any non-numeric character, but
  the test is \<^verbatim>\<open>isNaN(parseInt(...))\<close>, which looks at a prefix: a length with trailing
  garbage, leading white space or a hexadecimal prefix is accepted.
\<close>

theorem parser_accepts_garbage_after_length:
  "snd (receive (js ''3x!.nop;'') new_parser) = ([(js ''nop'', [])], None)
   \<and> snd (receive (js '' 0x3.nop;'') new_parser) = ([(js ''nop'', [])], None)"
  by (simp add: js_eval)

end
