(* ===== verification/Guac_Pool.thy ===== *)
theory Guac_Pool
  imports Guac_Prelude
begin

section \<open>Guacamole.IntegerPool: reusable stream indices\<close>

text \<open>
  The client names each output stream by an integer from this pool. \<open>pool_next\<close> and
  \<open>pool_free\<close> are the two methods. The interface the client relies on is the locale
  \<open>index_allocator\<close>: what is handed out is not in use, and what is given back becomes
  available. It is interpreted on the pool below.
\<close>

subsection \<open>The interface\<close>

text \<open>
  A use of an allocator is a sequence of requests; releasing an index that is not in use is
  not a use of the interface and is skipped. The run records the allocator, the indices in
  use, and the largest number of indices that were in use at one time.
\<close>

datatype alloc_op = Alloc | Release int

fun alloc_run ::
  "('p \<Rightarrow> int \<times> 'p) \<Rightarrow> (int \<Rightarrow> 'p \<Rightarrow> 'p) \<Rightarrow> alloc_op list \<Rightarrow> 'p \<times> int set \<times> nat \<Rightarrow> 'p \<times> int set \<times> nat"
where
  "alloc_run nxt fre [] s = s"
| "alloc_run nxt fre (Alloc # ops) (p, U, k) =
     (case nxt p of (n, p') \<Rightarrow>
        alloc_run nxt fre ops (p', insert n U, max k (card (insert n U))))"
| "alloc_run nxt fre (Release n # ops) (p, U, k) =
     (if n \<in> U then alloc_run nxt fre ops (fre n p, U - {n}, k)
      else alloc_run nxt fre ops (p, U, k))"

locale index_allocator =
  fixes next_index :: "'p \<Rightarrow> int \<times> 'p"
    and free_index :: "int \<Rightarrow> 'p \<Rightarrow> 'p"
    and live :: "'p \<Rightarrow> int set \<Rightarrow> bool"
    and bound :: "'p \<Rightarrow> int"
  assumes next_fresh: "live p U \<Longrightarrow> next_index p = (n, p') \<Longrightarrow> n \<notin> U \<and> live p' (insert n U)"
    and free_live: "live p U \<Longrightarrow> n \<in> U \<Longrightarrow> live (free_index n p) (U - {n})"
    and live_bounds: "live p U \<Longrightarrow> n \<in> U \<Longrightarrow> 0 \<le> n \<and> n < bound p"
    and live_finite: "live p U \<Longrightarrow> finite U"
    and next_bound: "live p U \<Longrightarrow> next_index p = (n, p') \<Longrightarrow>
      bound p' = max (bound p) (int (card U) + 1)"
    and free_bound: "bound (free_index n p) = bound p"
begin

lemma alloc_run_live:
  assumes "live p U" and "bound p = int k"
    and "alloc_run next_index free_index ops (p, U, k) = (p', U', k')"
  shows "live p' U' \<and> bound p' = int k'"
  using assms
proof (induction ops arbitrary: p U k)
  case Nil
  then show ?case by simp
next
  case (Cons a ops)
  show ?case
  proof (cases a)
    case Alloc
    obtain n q where q: "next_index p = (n, q)" by (cases "next_index p")
    note fresh = next_fresh [OF Cons.prems(1) q] and bnd = next_bound [OF Cons.prems(1) q]
    have "card (insert n U) = Suc (card U)"
      using fresh live_finite [OF Cons.prems(1)] by simp
    then have "bound q = int (max k (card (insert n U)))"
      using bnd Cons.prems(2) by simp
    with Cons.IH [of q "insert n U"] fresh Cons.prems(3) Alloc q show ?thesis by simp
  next
    case (Release n)
    with Cons show ?thesis
      using free_live [OF Cons.prems(1), of n] free_bound [of n p] by (cases "n \<in> U") auto
  qed
qed

end

subsection \<open>The pool\<close>

record pool =
  free_ints :: "int list"
  next_int :: int

definition new_pool :: pool where
  "new_pool = \<lparr>free_ints = [], next_int = 0\<rparr>"

definition pool_next :: "pool \<Rightarrow> int \<times> pool" where
  "pool_next p =
     (case free_ints p of
        n # rest \<Rightarrow> (n, p\<lparr>free_ints := rest\<rparr>)
      | [] \<Rightarrow> (next_int p, p\<lparr>next_int := next_int p + 1\<rparr>))"

definition pool_free :: "int \<Rightarrow> pool \<Rightarrow> pool" where
  "pool_free n p = p\<lparr>free_ints := free_ints p @ [n]\<rparr>"

text \<open>The integers below \<open>next_int\<close> are split between the pool and the integers in use.\<close>

definition pool_live :: "pool \<Rightarrow> int set \<Rightarrow> bool" where
  "pool_live p U \<longleftrightarrow> distinct (free_ints p) \<and> set (free_ints p) \<inter> U = {} \<and>
     set (free_ints p) \<union> U = {0..<next_int p} \<and> 0 \<le> next_int p"

lemma new_pool_live: "pool_live new_pool {}"
  by (simp add: pool_live_def new_pool_def)

lemma pool_live_card:
  assumes "pool_live p U"
  shows "finite U" "next_int p = int (card U) + int (length (free_ints p))"
proof -
  have fin: "finite (set (free_ints p) \<union> U)" using assms by (simp add: pool_live_def)
  then show f: "finite U" by simp
  have "card (set (free_ints p) \<union> U) = card (set (free_ints p)) + card U"
    using assms f by (intro card_Un_disjoint) (auto simp: pool_live_def)
  then have "nat (next_int p) = length (free_ints p) + card U"
    using assms by (simp add: pool_live_def distinct_card)
  then show "next_int p = int (card U) + int (length (free_ints p))"
    using assms by (auto simp: pool_live_def)
qed

interpretation ip: index_allocator pool_next pool_free pool_live next_int
proof (unfold_locales, goal_cases)
  case (1 p U n p')
  then show ?case
    by (auto simp: pool_live_def pool_next_def split: list.splits)
next
  case (2 p U n)
  then show ?case by (auto simp: pool_live_def pool_free_def)
next
  case (3 p U n)
  then show ?case by (auto simp: pool_live_def)
next
  case (4 p U)
  then show ?case by (rule pool_live_card)
next
  case (5 p U n p')
  then show ?case
    using pool_live_card [OF 5(1)] by (auto simp: pool_next_def split: list.splits)
next
  case (6 n p)
  show ?case by (simp add: pool_free_def)
qed

subsection \<open>Properties of the pool\<close>

text \<open>
  (C5) However indices are taken and given back, the pool never hands out an index that is in
  use, and it reuses before it grows: every index it hands out is non-negative and below the
  largest number of indices that were ever in use together, counting the new one.
\<close>

theorem pool_hands_out_free_small_indices:
  assumes "alloc_run pool_next pool_free ops (new_pool, {}, 0) = (p, U, k)"
    and "pool_next p = (n, p')"
  shows "n \<notin> U \<and> 0 \<le> n \<and> n < int (max k (card U + 1))"
proof -
  have "next_int new_pool = int 0" by (simp add: new_pool_def)
  from ip.alloc_run_live [OF new_pool_live this assms(1)]
  have l: "pool_live p U" "next_int p = int k" by auto
  with ip.next_fresh [OF l(1) assms(2)] ip.next_bound [OF l(1) assms(2)]
    ip.live_bounds [of p' "insert n U" n]
  show ?thesis by auto
qed

theorem pool_hands_out_free_small_indices_witness:
  "alloc_run pool_next pool_free [Alloc, Alloc, Release 0] (new_pool, {}, 0)
     = (\<lparr>free_ints = [0], next_int = 2\<rparr>, {1}, 2)
   \<and> (0::int) \<notin> {1} \<and> 0 \<le> (0::int) \<and> (0::int) < int (max 2 (card {1::int} + 1))"
proof -
  have run: "alloc_run pool_next pool_free [Alloc, Alloc, Release 0] (new_pool, {}, 0)
      = (\<lparr>free_ints = [0], next_int = 2\<rparr>, {1}, 2)"
    by (auto simp: pool_next_def pool_free_def new_pool_def)
  have "pool_next \<lparr>free_ints = [0], next_int = 2\<rparr> = (0, \<lparr>free_ints = [], next_int = 2\<rparr>)"
    by (simp add: pool_next_def)
  from run pool_hands_out_free_small_indices [OF run this] show ?thesis by simp
qed

end
