(* ===== verification/Guac_Client.thy ===== *)
theory Guac_Client
  imports Complex_Main Guac_Protocol Guac_Status Guac_Pool
begin

section \<open>Guacamole.Client: the state machine between the tunnel and the display\<close>

text \<open>
  The client sends input through the tunnel and carries out the instructions that arrive.
  Its variables are the record \<open>client\<close>; what it does to the tunnel, to the display and to
  the application is appended to \<open>ctrace\<close>. Objects that the code compares by identity
  (streams, filesystem objects, layers) are numbered as they are created.

  The application is the argument \<open>env\<close>: \<open>defined\<close> says whether the callback that an event
  would call is set, \<open>app_handler\<close> is what the callback does to the client (it may send,
  acknowledge, open and close streams), and the remaining fields are the answers that the code
  gets back: whether a player for a media type exists, what \<^verbatim>\<open>onmsg\<close> returned, whether the
  display can render at once. Numbers read with \<^verbatim>\<open>parseInt\<close> are \<^typ>\<open>jsnum\<close>, \<open>None\<close> being
  \<^verbatim>\<open>NaN\<close>, and \<^verbatim>\<open>NaN\<close> is also a key of the tables, as it is in the code. Numbers read with
  \<^verbatim>\<open>parseFloat\<close> go to the display unchanged and are kept as their text. An opcode that names
  a property of \<^verbatim>\<open>Object.prototype\<close> is taken to have no handler.
\<close>

subsection \<open>State\<close>

datatype client_state = IDLE | CONNECTING | WAITING | CONNECTED | DISCONNECTING | DISCONNECTED

datatype layer = Default_layer | Visible_layer nat | Buffer_layer nat

type_synonym js_float = "jsstring option"
type_synonym js_opt = "jsstring option"

datatype display_op =
  D_arc layer jsnum jsnum jsnum js_float js_float bool
| D_set_channel_mask layer jsnum
| D_fill_color layer jsnum jsnum jsnum jsnum
| D_clip layer
| D_close layer
| D_copy layer jsnum jsnum jsnum jsnum layer jsnum jsnum
| D_stroke_color layer js_opt js_opt jsnum jsnum jsnum jsnum jsnum
| D_set_cursor jsnum jsnum layer jsnum jsnum jsnum jsnum
| D_curve_to layer jsnum jsnum jsnum jsnum jsnum jsnum
| D_dispose layer
| D_distort layer js_float js_float js_float js_float js_float js_float
| D_set_transform layer int int int int int int
| D_draw_stream layer jsnum jsnum nat js_opt
| D_draw layer jsnum jsnum jsstring
| D_fill_layer layer layer
| D_line_to layer jsnum jsnum
| D_stroke_layer layer layer
| D_show_cursor bool
| D_move_cursor jsnum jsnum
| D_move layer layer jsnum jsnum jsnum
| D_pop layer
| D_push layer
| D_rect layer jsnum jsnum jsnum jsnum
| D_reset layer
| D_set_miter_limit layer js_float
| D_shade layer jsnum
| D_resize layer jsnum jsnum
| D_move_to layer jsnum jsnum
| D_flush jsnum jsnum
| D_put layer jsnum jsnum jsnum jsnum layer jsnum jsnum
| D_transfer layer jsnum jsnum jsnum jsnum layer jsnum jsnum jsnum
| D_transform layer js_float js_float js_float js_float js_float js_float

datatype app_event =
  Ev_ack nat status
| Ev_argv nat js_opt js_opt
| Ev_audio nat js_opt
| Ev_audio_sync jsnum
| Ev_blob nat js_opt
| Ev_body nat nat js_opt js_opt
| Ev_clipboard nat js_opt
| Ev_end nat
| Ev_error status
| Ev_file nat js_opt js_opt
| Ev_filesystem nat js_opt
| Ev_join js_opt js_opt
| Ev_leave js_opt js_opt
| Ev_msg jsnum "jsstring list"
| Ev_multitouch layer jsnum
| Ev_name js_opt
| Ev_pipe nat js_opt js_opt
| Ev_required "jsstring list"
| Ev_state client_state
| Ev_sync jsnum jsnum
| Ev_undefine nat
| Ev_video nat layer js_opt

datatype client_event =
  Tunnel_send "jsstring list"
| Tunnel_connect jsstring
| Tunnel_disconnect
| Display display_op
| App app_event

record client =
  cstate :: client_state
  current_timestamp :: jsnum
  keep_alive_timer :: "nat option"
  last_sent_keep_alive :: nat
  layers :: "jsnum \<rightharpoonup> layer"
  next_layer :: nat
  audio_players :: "jsnum list"
  video_players :: "jsnum list"
  parsers :: "jsnum \<rightharpoonup> parser"
  streams :: "jsnum \<rightharpoonup> nat"
  objects :: "jsnum \<rightharpoonup> nat"
  next_object :: nat
  stream_indices :: pool
  output_streams :: "int \<rightharpoonup> nat"
  pending_flushes :: "jsnum list"
  ctrace :: "client_event list"

record env =
  defined :: "app_event \<Rightarrow> bool"
  app_handler :: "app_event \<Rightarrow> client \<Rightarrow> client"
  plays_audio :: "js_opt \<Rightarrow> bool"
  plays_video :: "js_opt \<Rightarrow> bool"
  allows_default :: "jsnum \<Rightarrow> bool"
  renders_at_once :: bool
  clock :: nat

definition new_client :: client where
  "new_client = \<lparr>cstate = IDLE, current_timestamp = Some 0, keep_alive_timer = None,
     last_sent_keep_alive = 0, layers = Map.empty, next_layer = 0, audio_players = [],
     video_players = [], parsers = Map.empty, streams = Map.empty, objects = Map.empty,
     next_object = 0, stream_indices = new_pool, output_streams = Map.empty,
     pending_flushes = [], ctrace = []\<rparr>"

definition KEEP_ALIVE_FREQUENCY :: nat where
  "KEEP_ALIVE_FREQUENCY = 5000"

definition note_event :: "client_event \<Rightarrow> client \<Rightarrow> client" where
  "note_event ev c = c\<lparr>ctrace := ctrace c @ [ev]\<rparr>"

definition fire :: "env \<Rightarrow> app_event \<Rightarrow> client \<Rightarrow> client" where
  "fire e ev c = (if defined e ev then app_handler e ev (note_event (App ev) c) else c)"

abbreviation tunnel_send :: "jsstring list \<Rightarrow> client \<Rightarrow> client" where
  "tunnel_send es c \<equiv> note_event (Tunnel_send es) c"

abbreviation on_display :: "display_op \<Rightarrow> client \<Rightarrow> client" where
  "on_display d c \<equiv> note_event (Display d) c"

definition num_str :: "jsnum \<Rightarrow> jsstring" where
  "num_str n = (case n of None \<Rightarrow> js ''NaN'' | Some i \<Rightarrow> int_str i)"

definition set_cstate :: "env \<Rightarrow> client_state \<Rightarrow> client \<Rightarrow> client" where
  "set_cstate e s c = (if s \<noteq> cstate c then fire e (Ev_state s) (c\<lparr>cstate := s\<rparr>) else c)"

definition connected :: "client \<Rightarrow> bool" where
  "connected c \<longleftrightarrow> cstate c = CONNECTED \<or> cstate c = WAITING"

subsection \<open>Sending\<close>

definition send_if_connected :: "jsstring list \<Rightarrow> client \<Rightarrow> client" where
  "send_if_connected es c = (if \<not> connected c then c else tunnel_send es c)"

definition send_size :: "int \<Rightarrow> int \<Rightarrow> client \<Rightarrow> client" where
  "send_size w h c = send_if_connected [js ''size'', int_str w, int_str h] c"

definition send_key_event :: "bool \<Rightarrow> int \<Rightarrow> client \<Rightarrow> client" where
  "send_key_event pressed keysym c =
     send_if_connected [js ''key'', int_str keysym, int_str (of_bool pressed)] c"

record mouse_state =
  mouse_x :: rat
  mouse_y :: rat
  left :: bool
  middle :: bool
  right :: bool
  up :: bool
  down :: bool

definition button_mask :: "mouse_state \<Rightarrow> int" where
  "button_mask m =
     (let b = 0;
          b = (if left m then or b 1 else b);
          b = (if middle m then or b 2 else b);
          b = (if right m then or b 4 else b);
          b = (if up m then or b 8 else b);
          b = (if down m then or b 16 else b)
      in b)"

text \<open>\<open>scale\<close> is the scale of the display, \<open>apply\<close> whether the caller asked for it.\<close>

definition send_mouse_state :: "rat \<Rightarrow> mouse_state \<Rightarrow> bool \<Rightarrow> client \<Rightarrow> client" where
  "send_mouse_state scale m apply_scale c =
     (if \<not> connected c then c
      else
        (let x = (if apply_scale then mouse_x m / scale else mouse_x m);
             y = (if apply_scale then mouse_y m / scale else mouse_y m);
             c1 = on_display (D_move_cursor (Some \<lfloor>x\<rfloor>) (Some \<lfloor>y\<rfloor>)) c
         in tunnel_send [js ''mouse'', int_str \<lfloor>x\<rfloor>, int_str \<lfloor>y\<rfloor>, int_str (button_mask m)] c1))"

record touch_state =
  touch_id :: int
  touch_x :: rat
  touch_y :: rat
  radius_x :: rat
  radius_y :: rat
  angle_text :: jsstring
  force_text :: jsstring

definition send_touch_state :: "rat \<Rightarrow> touch_state \<Rightarrow> bool \<Rightarrow> client \<Rightarrow> client" where
  "send_touch_state scale t apply_scale c =
     (if \<not> connected c then c
      else
        (let x = (if apply_scale then touch_x t / scale else touch_x t);
             y = (if apply_scale then touch_y t / scale else touch_y t)
         in tunnel_send [js ''touch'', int_str (touch_id t), int_str \<lfloor>x\<rfloor>, int_str \<lfloor>y\<rfloor>,
              int_str \<lfloor>radius_x t\<rfloor>, int_str \<lfloor>radius_y t\<rfloor>, angle_text t, force_text t] c))"

text \<open>A created stream is its index and its number.\<close>

definition create_output_stream :: "client \<Rightarrow> (int \<times> nat) \<times> client" where
  "create_output_stream c =
     (case pool_next (stream_indices c) of
        (i, p) \<Rightarrow>
          ((i, next_object c),
           c\<lparr>stream_indices := p, output_streams := (output_streams c)(i \<mapsto> next_object c),
             next_object := next_object c + 1\<rparr>))"

definition create_stream_sending :: "(jsstring \<Rightarrow> jsstring list) \<Rightarrow> client \<Rightarrow> (int \<times> nat) \<times> client" where
  "create_stream_sending msg c =
     (case create_output_stream c of (s, c1) \<Rightarrow> (s, tunnel_send (msg (int_str (fst s))) c1))"

definition create_audio_stream :: "jsstring \<Rightarrow> client \<Rightarrow> (int \<times> nat) \<times> client" where
  "create_audio_stream mimetype = create_stream_sending (\<lambda>i. [js ''audio'', i, mimetype])"

definition create_file_stream :: "jsstring \<Rightarrow> jsstring \<Rightarrow> client \<Rightarrow> (int \<times> nat) \<times> client" where
  "create_file_stream mimetype filename = create_stream_sending (\<lambda>i. [js ''file'', i, mimetype, filename])"

definition create_pipe_stream :: "jsstring \<Rightarrow> jsstring \<Rightarrow> client \<Rightarrow> (int \<times> nat) \<times> client" where
  "create_pipe_stream mimetype name = create_stream_sending (\<lambda>i. [js ''pipe'', i, mimetype, name])"

definition create_clipboard_stream :: "jsstring \<Rightarrow> client \<Rightarrow> (int \<times> nat) \<times> client" where
  "create_clipboard_stream mimetype = create_stream_sending (\<lambda>i. [js ''clipboard'', i, mimetype])"

definition create_argument_value_stream :: "jsstring \<Rightarrow> jsstring \<Rightarrow> client \<Rightarrow> (int \<times> nat) \<times> client" where
  "create_argument_value_stream mimetype name = create_stream_sending (\<lambda>i. [js ''argv'', i, mimetype, name])"

definition create_object_output_stream ::
  "int \<Rightarrow> jsstring \<Rightarrow> jsstring \<Rightarrow> client \<Rightarrow> (int \<times> nat) \<times> client" where
  "create_object_output_stream index mimetype name =
     create_stream_sending (\<lambda>i. [js ''put'', int_str index, i, mimetype, name])"

definition request_object_input_stream :: "int \<Rightarrow> jsstring \<Rightarrow> client \<Rightarrow> client" where
  "request_object_input_stream index name c = send_if_connected [js ''get'', int_str index, name] c"

definition send_ack :: "jsnum \<Rightarrow> jsstring \<Rightarrow> int \<Rightarrow> client \<Rightarrow> client" where
  "send_ack index msg c_code c = send_if_connected [js ''ack'', num_str index, msg, int_str c_code] c"

definition send_client_blob :: "int \<Rightarrow> jsstring \<Rightarrow> client \<Rightarrow> client" where
  "send_client_blob index data c = send_if_connected [js ''blob'', int_str index, data] c"

definition free_output_stream :: "int \<Rightarrow> client \<Rightarrow> client" where
  "free_output_stream i c =
     c\<lparr>stream_indices := pool_free i (stream_indices c), output_streams := (output_streams c)(i := None)\<rparr>"

definition end_stream :: "int \<Rightarrow> client \<Rightarrow> client" where
  "end_stream index c =
     (if \<not> connected c then c
      else
        (let c1 = tunnel_send [js ''end'', int_str index] c
         in if output_streams c1 index \<noteq> None then free_output_stream index c1 else c1))"

subsection \<open>Keep-alive, connecting and disconnecting\<close>

definition send_keep_alive :: "env \<Rightarrow> client \<Rightarrow> client" where
  "send_keep_alive e c = (tunnel_send [js ''nop''] c)\<lparr>last_sent_keep_alive := clock e\<rparr>"

definition schedule_keep_alive :: "env \<Rightarrow> client \<Rightarrow> client" where
  "schedule_keep_alive e c =
     (let c1 = c\<lparr>keep_alive_timer := None\<rparr>;
          delay = max (int (last_sent_keep_alive c1) + int KEEP_ALIVE_FREQUENCY - int (clock e)) 0
      in if delay > 0 then c1\<lparr>keep_alive_timer := Some (clock e + nat delay)\<rparr>
         else send_keep_alive e c1)"

definition stop_keep_alive :: "client \<Rightarrow> client" where
  "stop_keep_alive c = c\<lparr>keep_alive_timer := None\<rparr>"

definition on_keep_alive_timeout :: "env \<Rightarrow> client \<Rightarrow> client" where
  "on_keep_alive_timeout e c = send_keep_alive e (c\<lparr>keep_alive_timer := None\<rparr>)"

definition client_disconnect :: "env \<Rightarrow> client \<Rightarrow> client" where
  "client_disconnect e c =
     (if cstate c \<noteq> DISCONNECTED \<and> cstate c \<noteq> DISCONNECTING then
        set_cstate e DISCONNECTED
          (note_event Tunnel_disconnect
            (tunnel_send [js ''disconnect'']
              (stop_keep_alive (set_cstate e DISCONNECTING c))))
      else c)"

text \<open>\<open>ok\<close> is whether \<^verbatim>\<open>tunnel.connect\<close> returned; the flag of the result is whether \<^verbatim>\<open>connect\<close> did.\<close>

definition client_connect :: "env \<Rightarrow> bool \<Rightarrow> jsstring \<Rightarrow> client \<Rightarrow> client \<times> bool" where
  "client_connect e ok data c =
     (let c1 = note_event (Tunnel_connect data) (set_cstate e CONNECTING c)
      in if \<not> ok then (set_cstate e IDLE c1, False)
         else (set_cstate e WAITING (schedule_keep_alive e c1), True))"

subsection \<open>Tables\<close>

definition arg :: "jsstring list \<Rightarrow> nat \<Rightarrow> js_opt" where
  "arg ps k = (if k < length ps then Some (ps ! k) else None)"

definition num :: "jsstring list \<Rightarrow> nat \<Rightarrow> jsnum" where
  "num ps k = (case arg ps k of None \<Rightarrow> None | Some s \<Rightarrow> parse_int s)"

fun positive :: "jsnum \<Rightarrow> bool" where
  "positive None = False" | "positive (Some i) = (0 < i)"

fun negative :: "jsnum \<Rightarrow> bool" where
  "negative None = False" | "negative (Some i) = (i < 0)"

definition get_layer :: "jsnum \<Rightarrow> client \<Rightarrow> layer \<times> client" where
  "get_layer index c =
     (case layers c index of
        Some l \<Rightarrow> (l, c)
      | None \<Rightarrow>
          (let (l, c1) =
             (if index = Some 0 then (Default_layer, c)
              else if positive index then (Visible_layer (next_layer c), c\<lparr>next_layer := next_layer c + 1\<rparr>)
              else (Buffer_layer (next_layer c), c\<lparr>next_layer := next_layer c + 1\<rparr>))
           in (l, c1\<lparr>layers := (layers c1)(index \<mapsto> l)\<rparr>)))"

definition get_parser :: "jsnum \<Rightarrow> client \<Rightarrow> parser \<times> client" where
  "get_parser index c =
     (case parsers c index of
        Some p \<Rightarrow> (p, c)
      | None \<Rightarrow> (new_parser, c\<lparr>parsers := (parsers c)(index \<mapsto> new_parser)\<rparr>))"

definition new_input_stream :: "jsnum \<Rightarrow> client \<Rightarrow> nat \<times> client" where
  "new_input_stream index c =
     (next_object c, c\<lparr>streams := (streams c)(index \<mapsto> next_object c), next_object := next_object c + 1\<rparr>)"

text \<open>
  The order of \<^verbatim>\<open>for ... in\<close>: array indices ascending, other keys in the order they were added.
\<close>

definition array_index :: "jsnum \<Rightarrow> bool" where
  "array_index k = (case k of None \<Rightarrow> False | Some i \<Rightarrow> 0 \<le> i \<and> i < 2 ^ 32 - 1)"

definition add_key :: "jsnum \<Rightarrow> jsnum list \<Rightarrow> jsnum list" where
  "add_key k ks =
     (if k \<in> set ks then ks
      else if array_index k
      then takeWhile (\<lambda>x. array_index x \<and> the x < the k) ks @ [k]
             @ dropWhile (\<lambda>x. array_index x \<and> the x < the k) ks
      else ks @ [k])"

fun line_cap :: "jsnum \<Rightarrow> js_opt" where
  "line_cap n = (if n = Some 0 then Some (js ''butt'') else if n = Some 1 then Some (js ''round'')
     else if n = Some 2 then Some (js ''square'') else None)"

fun line_join :: "jsnum \<Rightarrow> js_opt" where
  "line_join n = (if n = Some 0 then Some (js ''bevel'') else if n = Some 1 then Some (js ''miter'')
     else if n = Some 2 then Some (js ''round'') else None)"

text \<open>\<^verbatim>\<open>Guacamole.Client.Message\<close>\<close>

definition USER_JOINED :: int where "USER_JOINED = 0x0001"
definition USER_LEFT :: int where "USER_LEFT = 0x0002"

subsection \<open>Instruction handlers: streams and objects\<close>

type_synonym handler = "env \<Rightarrow> jsstring list \<Rightarrow> client \<Rightarrow> client"

definition h_ack :: handler where
  "h_ack e ps c =
     (let stream_index = num ps 0; reason = arg ps 1; ack_code = num ps 2
      in case Option.bind stream_index (output_streams c) of
           None \<Rightarrow> c
         | Some stream \<Rightarrow>
             (let c1 = fire e (Ev_ack stream (new_status ack_code reason)) c
              in if (case ack_code of None \<Rightarrow> False | Some k \<Rightarrow> k \<ge> 0x0100)
                    \<and> output_streams c1 (the stream_index) = Some stream
                 then free_output_stream (the stream_index) c1 else c1))"

text \<open>The handlers that open a stream if the application has a callback for it, and refuse it otherwise.\<close>

definition open_stream ::
  "env \<Rightarrow> jsnum \<Rightarrow> (nat \<Rightarrow> app_event) \<Rightarrow> jsstring \<Rightarrow> client \<Rightarrow> client" where
  "open_stream e index ev refusal c =
     (if defined e (ev (next_object c))
      then (case new_input_stream index c of (s, c1) \<Rightarrow> fire e (ev s) c1)
      else send_ack index refusal 0x0100 c)"

definition h_argv :: handler where
  "h_argv e ps c = open_stream e (num ps 0) (\<lambda>s. Ev_argv s (arg ps 1) (arg ps 2))
     (js ''Receiving argument values unsupported'') c"

definition h_clipboard :: handler where
  "h_clipboard e ps c = open_stream e (num ps 0) (\<lambda>s. Ev_clipboard s (arg ps 1))
     (js ''Clipboard unsupported'') c"

definition h_file :: handler where
  "h_file e ps c = open_stream e (num ps 0) (\<lambda>s. Ev_file s (arg ps 1) (arg ps 2))
     (js ''File transfer unsupported'') c"

definition h_pipe :: handler where
  "h_pipe e ps c = open_stream e (num ps 0) (\<lambda>s. Ev_pipe s (arg ps 1) (arg ps 2))
     (js ''Named pipes unsupported'') c"

definition h_body :: handler where
  "h_body e ps c =
     (case objects c (num ps 0) of
        Some ob \<Rightarrow> open_stream e (num ps 1) (\<lambda>s. Ev_body ob s (arg ps 2) (arg ps 3))
          (js ''Receipt of body unsupported'') c
      | None \<Rightarrow> send_ack (num ps 1) (js ''Receipt of body unsupported'') 0x0100 c)"

definition h_audio :: handler where
  "h_audio e ps c =
     (case new_input_stream (num ps 0) c of
        (s, c1) \<Rightarrow>
          (let c2 = fire e (Ev_audio s (arg ps 1)) c1
           in if plays_audio e (arg ps 1)
              then send_ack (num ps 0) (js ''OK'') 0x0000
                     (c2\<lparr>audio_players := add_key (num ps 0) (audio_players c2)\<rparr>)
              else send_ack (num ps 0) (js ''BAD TYPE'') 0x030F c2))"

definition h_video :: handler where
  "h_video e ps c =
     (case get_layer (num ps 1) c of
        (l, c0) \<Rightarrow>
          (case new_input_stream (num ps 0) c0 of
             (s, c1) \<Rightarrow>
               (let c2 = fire e (Ev_video s l (arg ps 2)) c1
                in if plays_video e (arg ps 2)
                   then send_ack (num ps 0) (js ''OK'') 0x0000
                          (c2\<lparr>video_players := add_key (num ps 0) (video_players c2)\<rparr>)
                   else send_ack (num ps 0) (js ''BAD TYPE'') 0x030F c2)))"

definition h_blob :: handler where
  "h_blob e ps c =
     (case streams c (num ps 0) of None \<Rightarrow> c | Some s \<Rightarrow> fire e (Ev_blob s (arg ps 1)) c)"

definition h_end :: handler where
  "h_end e ps c =
     (case streams c (num ps 0) of
        None \<Rightarrow> c
      | Some s \<Rightarrow> (let c1 = fire e (Ev_end s) c in c1\<lparr>streams := (streams c1)(num ps 0 := None)\<rparr>))"

definition h_filesystem :: handler where
  "h_filesystem e ps c =
     (if defined e (Ev_filesystem (next_object c) (arg ps 1))
      then fire e (Ev_filesystem (next_object c) (arg ps 1))
             (c\<lparr>objects := (objects c)(num ps 0 \<mapsto> next_object c), next_object := next_object c + 1\<rparr>)
      else c)"

definition h_undefine :: handler where
  "h_undefine e ps c =
     (case objects c (num ps 0) of None \<Rightarrow> c | Some ob \<Rightarrow> fire e (Ev_undefine ob) c)"

subsection \<open>Instruction handlers: session\<close>

definition h_disconnect :: handler where
  "h_disconnect e ps c = client_disconnect e c"

definition h_error :: handler where
  "h_error e ps c = client_disconnect e (fire e (Ev_error (new_status (num ps 1) (arg ps 0))) c)"

definition h_msg :: handler where
  "h_msg e ps c =
     (let msgid = num ps 0; ev = Ev_msg msgid (drop 1 ps);
          c1 = fire e ev c;
          allow_default = (if defined e ev then allows_default e msgid else True)
      in if allow_default then
           (if msgid = Some USER_JOINED then fire e (Ev_join (arg ps 1) (arg ps 2)) c1
            else if msgid = Some USER_LEFT then fire e (Ev_leave (arg ps 1) (arg ps 2)) c1
            else c1)
         else c1)"

definition h_name :: handler where
  "h_name e ps c = fire e (Ev_name (arg ps 0)) c"

definition h_required :: handler where
  "h_required e ps c = fire e (Ev_required ps) c"

definition display_sync_complete :: "env \<Rightarrow> jsnum \<Rightarrow> client \<Rightarrow> client" where
  "display_sync_complete e timestamp c =
     (let c1 = fold (\<lambda>k. fire e (Ev_audio_sync k)) (audio_players c) c
      in if timestamp = None \<or> timestamp \<noteq> current_timestamp c1
         then (tunnel_send [js ''sync'', num_str timestamp] c1)\<lparr>current_timestamp := timestamp\<rparr>
         else c1)"

text \<open>
  The callback of \<^verbatim>\<open>display.flush\<close> runs at once if the display can render everything that is
  queued, and otherwise when it has (\<open>on_flushed\<close>), in the order of the frames.
\<close>

definition h_sync :: handler where
  "h_sync e ps c =
     (let timestamp = num ps 0;
          frames = (case arg ps 1 of None \<Rightarrow> Some 0 | Some s \<Rightarrow> if s = [] then Some 0 else parse_int s);
          c1 = on_display (D_flush timestamp frames) c;
          c2 = (if renders_at_once e \<and> pending_flushes c1 = [] then display_sync_complete e timestamp c1
                else c1\<lparr>pending_flushes := pending_flushes c1 @ [timestamp]\<rparr>);
          c3 = (if cstate c2 = WAITING then set_cstate e CONNECTED c2 else c2)
      in fire e (Ev_sync timestamp frames) c3)"

definition on_flushed :: "env \<Rightarrow> client \<Rightarrow> client" where
  "on_flushed e c =
     (case pending_flushes c of
        [] \<Rightarrow> c
      | ts # rest \<Rightarrow> display_sync_complete e ts (c\<lparr>pending_flushes := rest\<rparr>))"

subsection \<open>Instruction handlers: drawing\<close>

definition draw_on :: "jsnum \<Rightarrow> (layer \<Rightarrow> display_op list) \<Rightarrow> client \<Rightarrow> client" where
  "draw_on index ops c = (case get_layer index c of (l, c1) \<Rightarrow> fold on_display (ops l) c1)"

definition draw_on2 :: "jsnum \<Rightarrow> jsnum \<Rightarrow> (layer \<Rightarrow> layer \<Rightarrow> display_op list) \<Rightarrow> client \<Rightarrow> client" where
  "draw_on2 i j ops c = (case get_layer i c of (l, c1) \<Rightarrow> draw_on j (ops l) c1)"

definition h_arc :: handler where
  "h_arc e ps = draw_on (num ps 0) (\<lambda>l.
     [D_arc l (num ps 1) (num ps 2) (num ps 3) (arg ps 4) (arg ps 5) (num ps 6 \<noteq> Some 0)])"

definition h_cfill :: handler where
  "h_cfill e ps = draw_on (num ps 1) (\<lambda>l.
     [D_set_channel_mask l (num ps 0), D_fill_color l (num ps 2) (num ps 3) (num ps 4) (num ps 5)])"

definition h_clip :: handler where
  "h_clip e ps = draw_on (num ps 0) (\<lambda>l. [D_clip l])"

definition h_close :: handler where
  "h_close e ps = draw_on (num ps 0) (\<lambda>l. [D_close l])"

definition h_copy :: handler where
  "h_copy e ps = draw_on2 (num ps 0) (num ps 6) (\<lambda>src dst.
     [D_set_channel_mask dst (num ps 5),
      D_copy src (num ps 1) (num ps 2) (num ps 3) (num ps 4) dst (num ps 7) (num ps 8)])"

definition h_cstroke :: handler where
  "h_cstroke e ps = draw_on (num ps 1) (\<lambda>l.
     [D_set_channel_mask l (num ps 0),
      D_stroke_color l (line_cap (num ps 2)) (line_join (num ps 3)) (num ps 4)
        (num ps 5) (num ps 6) (num ps 7) (num ps 8)])"

definition h_cursor :: handler where
  "h_cursor e ps = draw_on (num ps 2) (\<lambda>l.
     [D_set_cursor (num ps 0) (num ps 1) l (num ps 3) (num ps 4) (num ps 5) (num ps 6)])"

definition h_curve :: handler where
  "h_curve e ps = draw_on (num ps 0) (\<lambda>l.
     [D_curve_to l (num ps 1) (num ps 2) (num ps 3) (num ps 4) (num ps 5) (num ps 6)])"

definition h_dispose :: handler where
  "h_dispose e ps c =
     (let i = num ps 0
      in if positive i then
           (let c1 = draw_on i (\<lambda>l. [D_dispose l]) c in c1\<lparr>layers := (layers c1)(i := None)\<rparr>)
         else if negative i then c\<lparr>layers := (layers c)(i := None)\<rparr>
         else c)"

definition h_distort :: handler where
  "h_distort e ps c =
     (let i = num ps 0
      in if i = Some 0 \<or> positive i
         then draw_on i (\<lambda>l. [D_distort l (arg ps 1) (arg ps 2) (arg ps 3) (arg ps 4) (arg ps 5) (arg ps 6)]) c
         else c)"

definition h_identity :: handler where
  "h_identity e ps = draw_on (num ps 0) (\<lambda>l. [D_set_transform l 1 0 0 1 0 0])"

definition h_img :: handler where
  "h_img e ps c =
     (case get_layer (num ps 2) c of
        (l, c1) \<Rightarrow>
          (case new_input_stream (num ps 0) c1 of
             (s, c2) \<Rightarrow>
               fold on_display
                 [D_set_channel_mask l (num ps 1), D_draw_stream l (num ps 4) (num ps 5) s (arg ps 3)] c2))"

text \<open>A missing argument concatenates as \<^verbatim>\<open>undefined\<close>.\<close>

definition opt_text :: "js_opt \<Rightarrow> jsstring" where
  "opt_text s = (case s of None \<Rightarrow> js ''undefined'' | Some t \<Rightarrow> t)"

definition h_jpeg :: handler where
  "h_jpeg e ps = draw_on (num ps 1) (\<lambda>l.
     [D_set_channel_mask l (num ps 0),
      D_draw l (num ps 2) (num ps 3) (js ''data:image/jpeg;base64,'' @ opt_text (arg ps 4))])"

definition h_lfill :: handler where
  "h_lfill e ps = draw_on2 (num ps 1) (num ps 2) (\<lambda>l src.
     [D_set_channel_mask l (num ps 0), D_fill_layer l src])"

definition h_line :: handler where
  "h_line e ps = draw_on (num ps 0) (\<lambda>l. [D_line_to l (num ps 1) (num ps 2)])"

definition h_lstroke :: handler where
  "h_lstroke e ps = draw_on2 (num ps 1) (num ps 2) (\<lambda>l src.
     [D_set_channel_mask l (num ps 0), D_stroke_layer l src])"

definition h_mouse :: handler where
  "h_mouse e ps c = fold on_display [D_show_cursor True, D_move_cursor (num ps 0) (num ps 1)] c"

definition h_move :: handler where
  "h_move e ps c =
     (let i = num ps 0; j = num ps 1
      in if positive i \<and> (j = Some 0 \<or> positive j)
         then draw_on2 i j (\<lambda>l parent. [D_move l parent (num ps 2) (num ps 3) (num ps 4)]) c
         else c)"

definition h_png :: handler where
  "h_png e ps = draw_on (num ps 1) (\<lambda>l.
     [D_set_channel_mask l (num ps 0),
      D_draw l (num ps 2) (num ps 3) (js ''data:image/png;base64,'' @ opt_text (arg ps 4))])"

definition h_pop :: handler where
  "h_pop e ps = draw_on (num ps 0) (\<lambda>l. [D_pop l])"

definition h_push :: handler where
  "h_push e ps = draw_on (num ps 0) (\<lambda>l. [D_push l])"

definition h_rect :: handler where
  "h_rect e ps = draw_on (num ps 0) (\<lambda>l. [D_rect l (num ps 1) (num ps 2) (num ps 3) (num ps 4)])"

definition h_reset :: handler where
  "h_reset e ps = draw_on (num ps 0) (\<lambda>l. [D_reset l])"

fun is_visible :: "layer \<Rightarrow> bool" where
  "is_visible (Buffer_layer b) = False"
| "is_visible _ = True"

definition h_set :: handler where
  "h_set e ps c =
     (case get_layer (num ps 0) c of
        (l, c1) \<Rightarrow>
          if arg ps 1 = Some (js ''miter-limit'') then on_display (D_set_miter_limit l (arg ps 2)) c1
          else if arg ps 1 = Some (js ''multi-touch'') \<and> is_visible l
          then fire e (Ev_multitouch l (num ps 2)) c1
          else c1)"

definition h_shade :: handler where
  "h_shade e ps c =
     (let i = num ps 0
      in if i = Some 0 \<or> positive i then draw_on i (\<lambda>l. [D_shade l (num ps 1)]) c else c)"

definition h_size :: handler where
  "h_size e ps = draw_on (num ps 0) (\<lambda>l. [D_resize l (num ps 1) (num ps 2)])"

definition h_start :: handler where
  "h_start e ps = draw_on (num ps 0) (\<lambda>l. [D_move_to l (num ps 1) (num ps 2)])"

definition h_transfer :: handler where
  "h_transfer e ps = draw_on2 (num ps 0) (num ps 6) (\<lambda>src dst.
     if num ps 5 = Some 0x3
     then [D_put src (num ps 1) (num ps 2) (num ps 3) (num ps 4) dst (num ps 7) (num ps 8)]
     else if num ps 5 \<noteq> Some 0x5
     then [D_transfer src (num ps 1) (num ps 2) (num ps 3) (num ps 4) dst (num ps 7) (num ps 8) (num ps 5)]
     else [])"

definition h_transform :: handler where
  "h_transform e ps = draw_on (num ps 0) (\<lambda>l.
     [D_transform l (arg ps 1) (arg ps 2) (arg ps 3) (arg ps 4) (arg ps 5) (arg ps 6)])"

subsection \<open>Dispatch\<close>

definition instruction_handlers :: "(jsstring \<times> handler) list" where
  "instruction_handlers =
     [(js ''ack'', h_ack), (js ''arc'', h_arc), (js ''argv'', h_argv), (js ''audio'', h_audio),
      (js ''blob'', h_blob), (js ''body'', h_body), (js ''cfill'', h_cfill), (js ''clip'', h_clip),
      (js ''clipboard'', h_clipboard), (js ''close'', h_close), (js ''copy'', h_copy),
      (js ''cstroke'', h_cstroke), (js ''cursor'', h_cursor), (js ''curve'', h_curve),
      (js ''disconnect'', h_disconnect), (js ''dispose'', h_dispose), (js ''distort'', h_distort),
      (js ''error'', h_error), (js ''end'', h_end), (js ''file'', h_file),
      (js ''filesystem'', h_filesystem), (js ''identity'', h_identity), (js ''img'', h_img),
      (js ''jpeg'', h_jpeg), (js ''lfill'', h_lfill), (js ''line'', h_line), (js ''lstroke'', h_lstroke),
      (js ''mouse'', h_mouse), (js ''move'', h_move), (js ''msg'', h_msg), (js ''name'', h_name),
      (js ''pipe'', h_pipe), (js ''png'', h_png), (js ''pop'', h_pop), (js ''push'', h_push),
      (js ''rect'', h_rect), (js ''required'', h_required), (js ''reset'', h_reset), (js ''set'', h_set),
      (js ''shade'', h_shade), (js ''size'', h_size), (js ''start'', h_start), (js ''sync'', h_sync),
      (js ''transfer'', h_transfer), (js ''transform'', h_transform), (js ''undefine'', h_undefine),
      (js ''video'', h_video)]"

text \<open>
  The handler of \<^verbatim>\<open>nest\<close> feeds its argument to a parser of the client, which calls
  \<^verbatim>\<open>tunnel.oninstruction\<close> in the middle of its loop; the loop is therefore written out here
  on the parts of the parser, reading the parser back from the client after every
  instruction. \<open>fuel\<close> bounds the calls; \<open>None\<close> is fuel used up. Beside the client comes the
  exception of a nested parser, which skips the keep-alive of the instructions around it.
\<close>

definition put_parser :: "jsnum \<Rightarrow> parser \<Rightarrow> client \<Rightarrow> client" where
  "put_parser k p c = c\<lparr>parsers := (parsers c)(k \<mapsto> p)\<rparr>"

definition the_parser :: "jsnum \<Rightarrow> client \<Rightarrow> parser" where
  "the_parser k c = (case parsers c k of None \<Rightarrow> new_parser | Some p \<Rightarrow> p)"

type_synonym run_result = "(client \<times> parse_error option) option"

fun on_instruction :: "env \<Rightarrow> nat \<Rightarrow> instruction \<Rightarrow> client \<Rightarrow> run_result"
and nest_loop :: "env \<Rightarrow> nat \<Rightarrow> jsnum \<Rightarrow> client \<Rightarrow> run_result"
and nest_search :: "env \<Rightarrow> nat \<Rightarrow> jsnum \<Rightarrow> client \<Rightarrow> run_result" where
  "on_instruction e 0 i c = None"
| "on_instruction e (Suc n) i c =
     (if fst i = js ''nest'' then
        (let k = num (snd i) 0; (p, c1) = get_parser k c
         in case nest_loop e n k (put_parser k (append_packet (opt_text (arg (snd i) 1)) p) c1) of
              None \<Rightarrow> None
            | Some (c2, Some err) \<Rightarrow> Some (c2, Some err)
            | Some (c2, None) \<Rightarrow> Some (schedule_keep_alive e c2, None))
      else
        (case map_of instruction_handlers (fst i) of
           None \<Rightarrow> Some (schedule_keep_alive e c, None)
         | Some h \<Rightarrow> Some (schedule_keep_alive e (h e (snd i) c), None)))"
| "nest_loop e 0 k c = None"
| "nest_loop e (Suc n) k c =
     (let p = the_parser k c
      in if element_end p < int (length (buffer p)) then
           (if element_end p \<ge> start_index p then
              (let p1 = push_element p; t = terminator p
               in if t = [semicolon] then
                    (let (i, p2) = shift_opcode p1
                     in case on_instruction e n i (put_parser k p2 c) of
                          None \<Rightarrow> None
                        | Some (c2, Some err) \<Rightarrow> Some (c2, Some err)
                        | Some (c2, None) \<Rightarrow>
                            nest_search e n k
                              (put_parser k (after_element (clear_elements (the_parser k c2))) c2))
                  else if t \<noteq> [comma] then Some (put_parser k p1 c, Some Illegal_terminator)
                  else nest_search e n k (put_parser k (after_element p1) c))
            else nest_search e n k c)
         else Some (c, None))"
| "nest_search e 0 k c = None"
| "nest_search e (Suc n) k c =
     (case search_length (the_parser k c) of
        Inl err \<Rightarrow> Some (c, Some err)
      | Inr (p, again) \<Rightarrow>
          if again then nest_loop e n k (put_parser k p c) else Some (put_parser k p c, None))"

subsection \<open>The invariant of the client\<close>

text \<open>
  The indices of the output streams are exactly those the pool has handed out, different
  indices name different streams, the kind of a layer agrees with the sign of its index, and
  different indices name different layers.
\<close>

named_theorems client_inv_intros \<open>operations that keep the invariant of the client\<close>

definition streams_ok :: "pool \<Rightarrow> (int \<rightharpoonup> nat) \<Rightarrow> nat \<Rightarrow> bool" where
  "streams_ok p os n \<longleftrightarrow>
     pool_live p (dom os) \<and> inj_on os (dom os) \<and> (\<forall>i s. os i = Some s \<longrightarrow> s < n)"

fun layer_matches :: "jsnum \<Rightarrow> layer \<Rightarrow> bool" where
  "layer_matches k Default_layer \<longleftrightarrow> k = Some 0"
| "layer_matches k (Visible_layer b) \<longleftrightarrow> positive k"
| "layer_matches k (Buffer_layer b) \<longleftrightarrow> k \<noteq> Some 0 \<and> \<not> positive k"

fun layer_below :: "nat \<Rightarrow> layer \<Rightarrow> bool" where
  "layer_below n Default_layer = True"
| "layer_below n (Visible_layer b) = (b < n)"
| "layer_below n (Buffer_layer b) = (b < n)"

definition layers_ok :: "(jsnum \<rightharpoonup> layer) \<Rightarrow> nat \<Rightarrow> bool" where
  "layers_ok ls n \<longleftrightarrow>
     inj_on ls (dom ls) \<and> (\<forall>k l. ls k = Some l \<longrightarrow> layer_matches k l \<and> layer_below n l)"

definition client_inv :: "client \<Rightarrow> bool" where
  "client_inv c \<longleftrightarrow>
     streams_ok (stream_indices c) (output_streams c) (next_object c) \<and> layers_ok (layers c) (next_layer c)"

definition app_ok :: "env \<Rightarrow> bool" where
  "app_ok e \<longleftrightarrow> (\<forall>ev c. client_inv c \<longrightarrow> client_inv (app_handler e ev c))"

lemma note_event_fields [simp]:
  "cstate (note_event ev c) = cstate c" "layers (note_event ev c) = layers c"
  "next_layer (note_event ev c) = next_layer c" "streams (note_event ev c) = streams c"
  "stream_indices (note_event ev c) = stream_indices c" "output_streams (note_event ev c) = output_streams c"
  "next_object (note_event ev c) = next_object c" "parsers (note_event ev c) = parsers c"
  "pending_flushes (note_event ev c) = pending_flushes c" "objects (note_event ev c) = objects c"
  "current_timestamp (note_event ev c) = current_timestamp c" "audio_players (note_event ev c) = audio_players c"
  "keep_alive_timer (note_event ev c) = keep_alive_timer c"
  "last_sent_keep_alive (note_event ev c) = last_sent_keep_alive c"
  "ctrace (note_event ev c) = ctrace c @ [ev]"
  by (simp_all add: note_event_def)

lemma new_client_inv: "client_inv new_client"
  by (simp add: client_inv_def new_client_def streams_ok_def layers_ok_def new_pool_live)

lemma note_event_inv [client_inv_intros]: "client_inv c \<Longrightarrow> client_inv (note_event ev c)"
  by (simp add: client_inv_def)

lemma fire_inv [client_inv_intros]: "app_ok e \<Longrightarrow> client_inv c \<Longrightarrow> client_inv (fire e ev c)"
  by (simp add: fire_def app_ok_def note_event_inv)

lemma frame_inv [client_inv_intros]:
  "client_inv c \<Longrightarrow> client_inv (c\<lparr>cstate := x1\<rparr>)" "client_inv c \<Longrightarrow> client_inv (c\<lparr>current_timestamp := x2\<rparr>)"
  "client_inv c \<Longrightarrow> client_inv (c\<lparr>keep_alive_timer := x3\<rparr>)"
  "client_inv c \<Longrightarrow> client_inv (c\<lparr>last_sent_keep_alive := x4\<rparr>)"
  "client_inv c \<Longrightarrow> client_inv (c\<lparr>audio_players := x5\<rparr>)" "client_inv c \<Longrightarrow> client_inv (c\<lparr>video_players := x6\<rparr>)"
  "client_inv c \<Longrightarrow> client_inv (c\<lparr>parsers := x7\<rparr>)" "client_inv c \<Longrightarrow> client_inv (c\<lparr>streams := x8\<rparr>)"
  "client_inv c \<Longrightarrow> client_inv (c\<lparr>objects := x9\<rparr>)" "client_inv c \<Longrightarrow> client_inv (c\<lparr>pending_flushes := x10\<rparr>)"
  by (simp_all add: client_inv_def)

lemma next_object_inv [client_inv_intros]:
  "client_inv c \<Longrightarrow> next_object c \<le> n \<Longrightarrow> client_inv (c\<lparr>next_object := n\<rparr>)"
  by (force simp: client_inv_def streams_ok_def)

lemma set_cstate_inv [client_inv_intros]: "app_ok e \<Longrightarrow> client_inv c \<Longrightarrow> client_inv (set_cstate e s c)"
  by (simp add: set_cstate_def client_inv_intros)

lemma send_if_connected_inv [client_inv_intros]: "client_inv c \<Longrightarrow> client_inv (send_if_connected es c)"
  by (simp add: send_if_connected_def client_inv_intros)

lemma send_ack_inv [client_inv_intros]: "client_inv c \<Longrightarrow> client_inv (send_ack i m k c)"
  by (simp add: send_ack_def client_inv_intros)

lemma keep_alive_inv [client_inv_intros]:
  "client_inv c \<Longrightarrow> client_inv (schedule_keep_alive e c)" "client_inv c \<Longrightarrow> client_inv (stop_keep_alive c)"
  "client_inv c \<Longrightarrow> client_inv (on_keep_alive_timeout e c)"
  by (simp_all add: schedule_keep_alive_def send_keep_alive_def stop_keep_alive_def
      on_keep_alive_timeout_def client_inv_intros Let_def)

lemma client_disconnect_inv [client_inv_intros]:
  "app_ok e \<Longrightarrow> client_inv c \<Longrightarrow> client_inv (client_disconnect e c)"
  by (simp add: client_disconnect_def client_inv_intros)

lemma client_connect_inv: "app_ok e \<Longrightarrow> client_inv c \<Longrightarrow> client_inv (fst (client_connect e ok data c))"
  by (simp add: client_connect_def client_inv_intros Let_def)

lemma free_output_stream_inv:
  assumes "client_inv c" and "output_streams c i = Some s"
  shows "client_inv (free_output_stream i c)"
proof -
  let ?os = "output_streams c"
  have ok: "streams_ok (stream_indices c) ?os (next_object c)" using assms(1) by (simp add: client_inv_def)
  have "pool_live (pool_free i (stream_indices c)) (dom ?os - {i})"
    using ok assms(2) by (intro ip.free_live) (auto simp: streams_ok_def)
  moreover have "inj_on (?os(i := None)) (dom ?os - {i})"
    using ok by (auto simp: streams_ok_def inj_on_def)
  ultimately show ?thesis
    using ok assms(1) by (simp add: client_inv_def streams_ok_def free_output_stream_def)
qed

lemma create_output_stream_inv:
  assumes "client_inv c" and "create_output_stream c = ((i, s), c')"
  shows "client_inv c'" and "output_streams c i = None" and "output_streams c' i = Some s"
    and "\<forall>j. output_streams c j \<noteq> Some s"
proof -
  obtain p where p: "pool_next (stream_indices c) = (i, p)" and s: "s = next_object c"
    and c': "c' = c\<lparr>stream_indices := p, output_streams := (output_streams c)(i \<mapsto> s), next_object := s + 1\<rparr>"
    using assms(2) by (auto simp: create_output_stream_def split: prod.splits)
  have ok: "streams_ok (stream_indices c) (output_streams c) s" using assms(1) s by (simp add: client_inv_def)
  from ip.next_fresh [OF _ p] ok have f: "i \<notin> dom (output_streams c)" "pool_live p (insert i (dom (output_streams c)))"
    by (auto simp: streams_ok_def)
  then show "output_streams c i = None" by auto
  show new: "\<forall>j. output_streams c j \<noteq> Some s" using ok by (auto simp: streams_ok_def)
  show "output_streams c' i = Some s" by (simp add: c')
  have "inj_on ((output_streams c)(i \<mapsto> s)) (insert i (dom (output_streams c)))"
    using ok f new by (auto simp: streams_ok_def inj_on_def)
  then show "client_inv c'"
    using ok f assms(1) by (auto simp: client_inv_def streams_ok_def c' less_Suc_eq)
qed

lemma create_stream_sending_inv:
  assumes "client_inv c" shows "client_inv (snd (create_stream_sending msg c))"
proof -
  obtain i s c' where "create_output_stream c = ((i, s), c')" by (metis prod.exhaust)
  with create_output_stream_inv(1) [OF assms this] show ?thesis
    by (simp add: create_stream_sending_def client_inv_intros)
qed

lemma end_stream_inv: "client_inv c \<Longrightarrow> client_inv (end_stream i c)"
  by (auto simp: end_stream_def Let_def intro!: free_output_stream_inv client_inv_intros)

lemma layers_ok_add:
  assumes "layers_ok ls n" and "ls k = None" and "layer_matches k l" and "layer_below m l" and "n \<le> m"
    and "l = Default_layer \<or> \<not> layer_below n l"
  shows "layers_ok (ls(k \<mapsto> l)) m"
proof -
  have up: "layer_below n x \<Longrightarrow> layer_below m x" for x using assms(5) by (cases x) auto
  have fresh: "ls j \<noteq> Some l" for j
  proof
    assume j: "ls j = Some l"
    then have "layer_matches j l" "layer_below n l" using assms(1) by (auto simp: layers_ok_def)
    with assms(2,3,6) j show False by (cases l) auto
  qed
  have "inj_on (ls(k \<mapsto> l)) (insert k (dom ls))"
    using assms(1,2) fresh by (auto simp: layers_ok_def inj_on_def)
  then show ?thesis using assms up by (auto simp: layers_ok_def)
qed

lemma get_layer_inv [client_inv_intros]:
  assumes "client_inv c" shows "client_inv (snd (get_layer k c))"
proof (cases "layers c k")
  case None
  then show ?thesis
    using assms by (auto simp: get_layer_def client_inv_def Let_def intro!: layers_ok_add)
next
  case (Some l)
  with assms show ?thesis by (simp add: get_layer_def)
qed

lemma fold_on_display_inv [client_inv_intros]: "client_inv c \<Longrightarrow> client_inv (fold on_display ops c)"
  by (induction ops arbitrary: c) (simp_all add: client_inv_intros)

lemma draw_inv [client_inv_intros]:
  "client_inv c \<Longrightarrow> client_inv (draw_on k ops c)" "client_inv c \<Longrightarrow> client_inv (draw_on2 i j ops2 c)"
  using get_layer_inv by (auto simp: draw_on_def draw_on2_def case_prod_beta intro!: fold_on_display_inv)

lemma delete_layer_inv [client_inv_intros]: "client_inv c \<Longrightarrow> client_inv (c\<lparr>layers := (layers c)(k := None)\<rparr>)"
  by (auto simp: client_inv_def layers_ok_def inj_on_def)

lemma new_input_stream_inv [client_inv_intros]: "client_inv c \<Longrightarrow> client_inv (snd (new_input_stream k c))"
  by (auto simp: new_input_stream_def intro!: client_inv_intros)

lemma open_stream_inv [client_inv_intros]:
  "app_ok e \<Longrightarrow> client_inv c \<Longrightarrow> client_inv (open_stream e k ev m c)"
  using new_input_stream_inv [of c k] by (auto simp: open_stream_def case_prod_beta client_inv_intros)

lemma h_ack_inv: "app_ok e \<Longrightarrow> client_inv c \<Longrightarrow> client_inv (h_ack e ps c)"
  by (auto simp: h_ack_def Let_def split: option.split intro!: free_output_stream_inv client_inv_intros)

lemma fold_fire_inv: "app_ok e \<Longrightarrow> client_inv c \<Longrightarrow> client_inv (fold (\<lambda>k. fire e (f k)) ks c)"
  by (induction ks arbitrary: c) (simp_all add: client_inv_intros)

lemma display_sync_complete_inv [client_inv_intros]:
  "app_ok e \<Longrightarrow> client_inv c \<Longrightarrow> client_inv (display_sync_complete e ts c)"
  by (simp add: display_sync_complete_def Let_def client_inv_intros fold_fire_inv)

lemma on_flushed_inv: "app_ok e \<Longrightarrow> client_inv c \<Longrightarrow> client_inv (on_flushed e c)"
  by (simp add: on_flushed_def client_inv_intros split: list.split)

lemmas handler_defs =
  h_ack_def h_arc_def h_argv_def h_audio_def h_blob_def h_body_def h_cfill_def h_clip_def h_clipboard_def
  h_close_def h_copy_def h_cstroke_def h_cursor_def h_curve_def h_disconnect_def h_dispose_def
  h_distort_def h_error_def h_end_def h_file_def h_filesystem_def h_identity_def h_img_def h_jpeg_def
  h_lfill_def h_line_def h_lstroke_def h_mouse_def h_move_def h_msg_def h_name_def h_pipe_def h_png_def
  h_pop_def h_push_def h_rect_def h_required_def h_reset_def h_set_def h_shade_def h_size_def
  h_start_def h_sync_def h_transfer_def h_transform_def h_undefine_def h_video_def

lemma drawing_handlers_inv [client_inv_intros]:
  assumes "client_inv c"
  shows "client_inv (h_arc e ps c)" "client_inv (h_cfill e ps c)" "client_inv (h_clip e ps c)"
    "client_inv (h_close e ps c)" "client_inv (h_copy e ps c)" "client_inv (h_cstroke e ps c)"
    "client_inv (h_cursor e ps c)" "client_inv (h_curve e ps c)" "client_inv (h_dispose e ps c)"
    "client_inv (h_distort e ps c)" "client_inv (h_identity e ps c)" "client_inv (h_jpeg e ps c)"
    "client_inv (h_lfill e ps c)" "client_inv (h_line e ps c)" "client_inv (h_lstroke e ps c)"
    "client_inv (h_mouse e ps c)" "client_inv (h_move e ps c)" "client_inv (h_png e ps c)"
    "client_inv (h_pop e ps c)" "client_inv (h_push e ps c)" "client_inv (h_rect e ps c)"
    "client_inv (h_reset e ps c)" "client_inv (h_shade e ps c)" "client_inv (h_size e ps c)"
    "client_inv (h_start e ps c)" "client_inv (h_transfer e ps c)" "client_inv (h_transform e ps c)"
  using assms by (simp_all add: handler_defs Let_def client_inv_intros)

lemma session_handlers_inv [client_inv_intros]:
  assumes "app_ok e" and "client_inv c"
  shows "client_inv (h_argv e ps c)" "client_inv (h_blob e ps c)" "client_inv (h_body e ps c)"
    "client_inv (h_clipboard e ps c)" "client_inv (h_disconnect e ps c)" "client_inv (h_error e ps c)"
    "client_inv (h_end e ps c)" "client_inv (h_file e ps c)" "client_inv (h_filesystem e ps c)"
    "client_inv (h_msg e ps c)" "client_inv (h_name e ps c)" "client_inv (h_pipe e ps c)"
    "client_inv (h_required e ps c)" "client_inv (h_sync e ps c)" "client_inv (h_undefine e ps c)"
  using assms by (simp_all add: handler_defs Let_def client_inv_intros split: option.split)

lemma media_handlers_inv [client_inv_intros]:
  assumes "app_ok e" and "client_inv c"
  shows "client_inv (h_audio e ps c)" "client_inv (h_video e ps c)" "client_inv (h_img e ps c)"
    "client_inv (h_set e ps c)"
  using assms get_layer_inv [OF assms(2)] new_input_stream_inv [OF assms(2)]
    new_input_stream_inv [OF get_layer_inv [OF assms(2)]]
  by (simp_all add: handler_defs Let_def case_prod_beta client_inv_intros)

lemma instruction_handlers_inv:
  assumes "app_ok e" and "client_inv c" and "map_of instruction_handlers opcode = Some h"
  shows "client_inv (h e ps c)"
proof -
  have "list_all (\<lambda>(k, h). client_inv (h e ps c)) instruction_handlers"
    using assms(1,2) by (simp add: instruction_handlers_def client_inv_intros h_ack_inv)
  then show ?thesis using map_of_SomeD [OF assms(3)] by (auto simp: list_all_iff)
qed

lemma put_parser_inv [client_inv_intros]: "client_inv c \<Longrightarrow> client_inv (put_parser k p c)"
  by (simp add: put_parser_def client_inv_intros)

lemma get_parser_inv [client_inv_intros]: "client_inv c \<Longrightarrow> client_inv (snd (get_parser k c))"
  by (simp add: get_parser_def client_inv_intros split: option.split)

lemma dispatch_inv:
  assumes "app_ok e"
  shows "\<And>i c r. client_inv c \<Longrightarrow> on_instruction e n i c = Some r \<Longrightarrow> client_inv (fst r)"
    and "\<And>k c r. client_inv c \<Longrightarrow> nest_loop e n k c = Some r \<Longrightarrow> client_inv (fst r)"
    and "\<And>k c r. client_inv c \<Longrightarrow> nest_search e n k c = Some r \<Longrightarrow> client_inv (fst r)"
proof (induction n)
  case 0
  { case 1 then show ?case by simp next case 2 then show ?case by simp next case 3 then show ?case by simp }
next
  case (Suc n)
  {
    case (1 i c r)
    show ?case
    proof (cases "fst i = js ''nest''")
      case True
      obtain p c1 where g: "get_parser (num (snd i) 0) c = (p, c1)" by fastforce
      then have "client_inv c1" using get_parser_inv [OF 1(1), of "num (snd i) 0"] by simp
      with True g 1(2) show ?thesis
        using Suc.IH(2) [OF put_parser_inv]
        by (auto simp: Let_def split: option.splits intro!: client_inv_intros)
    next
      case False
      with 1 instruction_handlers_inv [OF assms 1(1)] show ?thesis
        by (auto split: option.splits intro!: client_inv_intros)
    qed
  next
    case (2 k c r)
    have step: "client_inv (fst r)"
      if "on_instruction e n i (put_parser k p c) = Some (c2, None)"
        "nest_search e n k (put_parser k q c2) = Some r" for i p q c2
      using Suc.IH(1) [OF put_parser_inv [OF 2(1)] that(1)] that(2) Suc.IH(3) [OF put_parser_inv] by simp
    have stop: "client_inv c2"
      if "on_instruction e n i (put_parser k p c) = Some (c2, err)" for i p c2 err
      using Suc.IH(1) [OF put_parser_inv [OF 2(1)] that] by simp
    have rest: "client_inv (fst r)" if "nest_search e n k (put_parser k q c) = Some r" for q
      using Suc.IH(3) [OF put_parser_inv [OF 2(1)] that] .
    have plain: "client_inv (fst r)" if "nest_search e n k c = Some r"
      using Suc.IH(3) [OF 2(1) that] .
    from 2(2) show ?case
      using 2(1) step stop rest plain put_parser_inv [OF 2(1)]
      by (auto simp: Let_def split: if_splits option.splits prod.splits)
  next
    case (3 k c r)
    then show ?case
      using Suc.IH(2) [OF put_parser_inv]
      by (auto split: sum.splits prod.splits if_splits intro: client_inv_intros)
  }
qed

subsection \<open>Reachable states\<close>

text \<open>
  The steps of the client, each with an application of its own: calls of its methods,
  instructions from the tunnel, the keep-alive timer, and frames that the display has
  rendered.
\<close>

inductive client_step :: "client \<Rightarrow> client \<Rightarrow> bool" where
  step_connect: "app_ok e \<Longrightarrow> client_step c (fst (client_connect e ok data c))"
| step_disconnect: "app_ok e \<Longrightarrow> client_step c (client_disconnect e c)"
| step_instruction: "app_ok e \<Longrightarrow> on_instruction e n i c = Some r \<Longrightarrow> client_step c (fst r)"
| step_keep_alive: "keep_alive_timer c = Some d \<Longrightarrow> d \<le> clock e \<Longrightarrow>
    client_step c (on_keep_alive_timeout e c)"
| step_flushed: "app_ok e \<Longrightarrow> client_step c (on_flushed e c)"
| step_send: "client_step c (send_if_connected es c)"
| step_mouse: "client_step c (send_mouse_state scale m b c)"
| step_touch: "client_step c (send_touch_state scale t b c)"
| step_create: "client_step c (snd (create_stream_sending msg c))"
| step_end: "client_step c (end_stream i c)"

inductive client_reachable :: "client \<Rightarrow> bool" where
  reach_new: "client_reachable new_client"
| reach_step: "client_reachable c \<Longrightarrow> client_step c c' \<Longrightarrow> client_reachable c'"

lemma send_pointer_inv:
  "client_inv c \<Longrightarrow> client_inv (send_mouse_state scale m b c)"
  "client_inv c \<Longrightarrow> client_inv (send_touch_state scale t b c)"
  by (simp_all add: send_mouse_state_def send_touch_state_def Let_def client_inv_intros)

lemma client_step_inv: "client_step c c' \<Longrightarrow> client_inv c \<Longrightarrow> client_inv c'"
proof (induction rule: client_step.induct)
  case (step_instruction e n i c r)
  then show ?case using dispatch_inv(1) by blast
qed (simp_all add: client_connect_inv on_flushed_inv create_stream_sending_inv end_stream_inv send_pointer_inv
      client_inv_intros)

lemma client_reachable_inv: "client_reachable c \<Longrightarrow> client_inv c"
  by (induction rule: client_reachable.induct) (simp_all add: new_client_inv client_step_inv)

subsection \<open>Properties of the client\<close>

lemma layers_ok_inject:
  "layers_ok ls n \<Longrightarrow> ls k = Some l \<Longrightarrow> ls k' = Some l \<Longrightarrow> k = k'"
  by (auto simp: layers_ok_def inj_on_def dom_def)

text \<open>
  (C17) In every reachable state, with every application that keeps to the client's methods, a
  stream that is created gets an index that no open stream has and is a stream of its own,
  and the indices in use are those the pool has lent. A layer index that is positive names a
  visible layer, 0 the default layer and any other index (\<^verbatim>\<open>NaN\<close> included) a buffer, and
  two indices never name the same layer.
\<close>

theorem client_tables_consistent:
  assumes "client_reachable c"
  shows "pool_live (stream_indices c) (dom (output_streams c))
    \<and> (create_output_stream c = ((i, s), c') \<longrightarrow>
         output_streams c i = None \<and> (\<forall>j. output_streams c j \<noteq> Some s) \<and> output_streams c' i = Some s)
    \<and> (layers c k = Some l \<longrightarrow> layer_matches k l \<and> (layers c k' = Some l \<longrightarrow> k = k'))"
proof -
  have inv: "client_inv c" using assms by (rule client_reachable_inv)
  then have "layers_ok (layers c) (next_layer c)" "pool_live (stream_indices c) (dom (output_streams c))"
    by (simp_all add: client_inv_def streams_ok_def)
  with create_output_stream_inv [OF inv] layers_ok_inject show ?thesis
    by (auto simp: layers_ok_def)
qed

definition quiet_app :: env where
  "quiet_app = \<lparr>defined = (\<lambda>ev. True), app_handler = (\<lambda>ev c. c), plays_audio = (\<lambda>m. False),
     plays_video = (\<lambda>m. False), allows_default = (\<lambda>m. True), renders_at_once = True, clock = 6000\<rparr>"

lemma quiet_app_ok: "app_ok quiet_app"
  by (simp add: app_ok_def quiet_app_def)

theorem client_tables_consistent_witness:
  "let c = snd (create_stream_sending (\<lambda>i. [js ''file'', i]) new_client)
   in pool_live (stream_indices c) (dom (output_streams c))
      \<and> (output_streams c 1 = None \<and> (\<forall>j. output_streams c j \<noteq> Some 1)
         \<and> output_streams (snd (create_output_stream c)) 1 = Some 1)"
proof -
  let ?c = "snd (create_stream_sending (\<lambda>i. [js ''file'', i]) new_client)"
  have r: "client_reachable ?c" by (rule reach_step [OF reach_new step_create])
  have "create_output_stream ?c = ((1, 1), snd (create_output_stream ?c))"
    by (simp add: create_stream_sending_def create_output_stream_def new_client_def pool_next_def
        new_pool_def note_event_def)
  with client_tables_consistent [OF r, of 1 1 "snd (create_output_stream ?c)" "Some 0" Default_layer "Some 1"]
  show ?thesis unfolding Let_def by blast
qed

lemma quiet_fire [simp]: "fire quiet_app ev c = note_event (App ev) c"
  by (simp add: fire_def quiet_app_def)

lemma quiet_set_cstate_fields [simp]:
  "cstate (set_cstate quiet_app s c) = s"
  "ctrace (set_cstate quiet_app s c) = ctrace c @ (if s = cstate c then [] else [App (Ev_state s)])"
  "keep_alive_timer (set_cstate quiet_app s c) = keep_alive_timer c"
  "current_timestamp (set_cstate quiet_app s c) = current_timestamp c"
  "pending_flushes (set_cstate quiet_app s c) = pending_flushes c"
  "audio_players (set_cstate quiet_app s c) = audio_players c"
  by (simp_all add: set_cstate_def)

text \<open>
  Disconnecting is done once and for all: whatever the state, a client that has been
  asked to disconnect is disconnected, it has told the server and closed the tunnel exactly
  if it had not done so before, asking again changes nothing, and from then on key, mouse and
  touch events, acknowledgements, blobs and the ends of streams send nothing.
\<close>

theorem client_disconnects_once:
  assumes "cstate c \<noteq> DISCONNECTING"
  shows "let d = client_disconnect quiet_app c
    in cstate d = DISCONNECTED
       \<and> filter (\<lambda>ev. ev = Tunnel_disconnect \<or> ev = Tunnel_send [js ''disconnect'']) (ctrace d) =
         filter (\<lambda>ev. ev = Tunnel_disconnect \<or> ev = Tunnel_send [js ''disconnect'']) (ctrace c)
           @ (if cstate c = DISCONNECTED then [] else [Tunnel_send [js ''disconnect''], Tunnel_disconnect])
       \<and> client_disconnect quiet_app d = d
       \<and> send_key_event pr k d = d \<and> send_mouse_state sc m b d = d \<and> send_touch_state sc t b d = d
       \<and> send_ack i msg cd d = d \<and> send_client_blob j data d = d \<and> end_stream j d = d"
  using assms
  by (simp add: Let_def client_disconnect_def stop_keep_alive_def send_key_event_def send_mouse_state_def
      send_touch_state_def send_ack_def send_client_blob_def end_stream_def send_if_connected_def connected_def)

theorem client_disconnects_once_witness:
  "let c = fst (client_connect quiet_app True [] new_client); d = client_disconnect quiet_app c
   in cstate d = DISCONNECTED
      \<and> filter (\<lambda>ev. ev = Tunnel_disconnect \<or> ev = Tunnel_send [js ''disconnect'']) (ctrace d) =
        filter (\<lambda>ev. ev = Tunnel_disconnect \<or> ev = Tunnel_send [js ''disconnect'']) (ctrace c)
          @ (if cstate c = DISCONNECTED then [] else [Tunnel_send [js ''disconnect''], Tunnel_disconnect])
      \<and> client_disconnect quiet_app d = d
      \<and> send_key_event True 65 d = d
      \<and> send_mouse_state 1 \<lparr>mouse_x = 1, mouse_y = 2, left = True, middle = False, right = False, up = False, down = False\<rparr> True d = d
      \<and> send_touch_state 1 \<lparr>touch_id = 0, touch_x = 1, touch_y = 2, radius_x = 1, radius_y = 1, angle_text = [], force_text = []\<rparr> True d = d
      \<and> send_ack (Some 0) [] 0 d = d \<and> send_client_blob 0 [] d = d \<and> end_stream 0 d = d"
  unfolding Let_def
  by (rule client_disconnects_once [unfolded Let_def]) (simp add: client_connect_def Let_def)

text \<open>
  The end of a session does not stop the keep-alive messages, although \<^verbatim>\<open>disconnect\<close> says
  it does: when the server sends \<^verbatim>\<open>disconnect\<close> or \<^verbatim>\<open>error\<close>, the client disconnects and stops the
  timer, and then the code that runs after every instruction starts it again (or sends a
  keep-alive message at once).
\<close>

theorem keep_alive_restarted_after_disconnect:
  assumes "cstate c = CONNECTED" and "opcode = js ''disconnect'' \<or> opcode = js ''error''"
  shows "\<exists>c'. on_instruction quiet_app (Suc n) (opcode, ps) c = Some (c', None) \<and> cstate c' = DISCONNECTED
    \<and> (keep_alive_timer c' \<noteq> None \<or> last (ctrace c') = Tunnel_send [js ''nop''])"
proof -
  have h: "map_of instruction_handlers (js ''disconnect'') = Some h_disconnect"
    "map_of instruction_handlers (js ''error'') = Some h_error"
    "js ''disconnect'' \<noteq> js ''nest''" "js ''error'' \<noteq> js ''nest''"
    by (simp_all add: instruction_handlers_def js_eval)
  have d: "cstate (client_disconnect quiet_app x) = DISCONNECTED" if "cstate x = CONNECTED" for x
    using that by (simp add: client_disconnect_def)
  have k: "cstate (schedule_keep_alive quiet_app x) = cstate x \<and> (keep_alive_timer (schedule_keep_alive quiet_app x) \<noteq> None
      \<or> last (ctrace (schedule_keep_alive quiet_app x)) = Tunnel_send [js ''nop''])" for x
    by (simp add: schedule_keep_alive_def send_keep_alive_def Let_def)
  show ?thesis
    using assms h d k by (auto simp: h_disconnect_def h_error_def)
qed

theorem keep_alive_restarted_after_disconnect_witness:
  "\<exists>c'. on_instruction quiet_app 1 (js ''error'', [js ''gone'', js ''519'']) (new_client\<lparr>cstate := CONNECTED\<rparr>) = Some (c', None)
     \<and> cstate c' = DISCONNECTED
     \<and> (keep_alive_timer c' \<noteq> None \<or> last (ctrace c') = Tunnel_send [js ''nop''])"
  using keep_alive_restarted_after_disconnect [of "new_client\<lparr>cstate := CONNECTED\<rparr>" "js ''error''" 0] by simp

definition sync_replies :: "client \<Rightarrow> jsstring list" where
  "sync_replies c =
     concat (map (\<lambda>ev. case ev of Tunnel_send [op, t] \<Rightarrow> if op = js ''sync'' then [t] else [] | _ \<Rightarrow> []) (ctrace c))"

lemma sync_replies_note [simp]:
  "sync_replies (note_event (App ev) c) = sync_replies c"
  "sync_replies (note_event (Display d) c) = sync_replies c"
  "sync_replies (note_event (Tunnel_send [x]) c) = sync_replies c"
  "sync_replies (note_event (Tunnel_send [op, t]) c) = sync_replies c @ (if op = js ''sync'' then [t] else [])"
  by (simp_all add: sync_replies_def)

lemma sync_replies_frame [simp]:
  "sync_replies (c\<lparr>keep_alive_timer := x3\<rparr>) = sync_replies c"
  "sync_replies (c\<lparr>last_sent_keep_alive := x4\<rparr>) = sync_replies c"
  "sync_replies (c\<lparr>current_timestamp := x2\<rparr>) = sync_replies c"
  "sync_replies (c\<lparr>cstate := x1\<rparr>) = sync_replies c"
  by (simp_all add: sync_replies_def)

lemma sync_replies_keep_alive [simp]:
  "sync_replies (schedule_keep_alive quiet_app c) = sync_replies c"
  "current_timestamp (schedule_keep_alive quiet_app c) = current_timestamp c"
  "pending_flushes (schedule_keep_alive quiet_app c) = pending_flushes c"
  "audio_players (schedule_keep_alive quiet_app c) = audio_players c"
  by (simp_all add: schedule_keep_alive_def send_keep_alive_def Let_def)

lemma sync_replies_state [simp]: "sync_replies (set_cstate quiet_app s c) = sync_replies c"
  by (simp add: set_cstate_def)

lemma num_nat_str [simp]: "num (nat_str t # ps) 0 = Some (int t)"
  by (simp add: num_def arg_def js_simps)

lemma sync_step:
  assumes "pending_flushes c = []" and "audio_players c = []" and "current_timestamp c = Some (int t0)"
  shows "\<exists>c'. on_instruction quiet_app 1 (js ''sync'', [nat_str t]) c = Some (c', None)
    \<and> pending_flushes c' = [] \<and> audio_players c' = [] \<and> current_timestamp c' = Some (int t)
    \<and> sync_replies c' = sync_replies c @ (if t = t0 then [] else [nat_str t])"
proof -
  have h: "map_of instruction_handlers (js ''sync'') = Some h_sync" "js ''sync'' \<noteq> js ''nest''"
    by (simp_all add: instruction_handlers_def js_eval)
  have q: "renders_at_once quiet_app" by (simp add: quiet_app_def)
  show ?thesis
    using assms q h(2)
    by (simp add: h(1) h_sync_def display_sync_complete_def Let_def arg_def num_str_def int_str_def)
qed

fun handle_all :: "env \<Rightarrow> nat \<Rightarrow> instruction list \<Rightarrow> client \<Rightarrow> run_result" where
  "handle_all e n [] c = Some (c, None)"
| "handle_all e n (i # is) c =
     (case on_instruction e n i c of
        None \<Rightarrow> None
      | Some (c1, Some err) \<Rightarrow> Some (c1, Some err)
      | Some (c1, None) \<Rightarrow> handle_all e n is c1)"



lemma arg_simps [simp]: "arg (x # xs) 0 = Some x" "arg (x # xs) (Suc k) = arg xs k" "arg [] k = None"
  by (simp_all add: arg_def)

lemma num_nat_str_Suc [simp]: "num (x # xs) (Suc k) = num xs k" "num [] k = None"
  by (simp_all add: num_def)

text \<open>
  (C18) An acknowledgement reaches the stream that has the index at that moment and no other:
  the stream's \<^verbatim>\<open>onack\<close> is called with the code and the reason. A code from 0x100 on closes the
  stream: its index goes back to the pool and a second acknowledgement for it does nothing; a
  lower code leaves every stream as it was. An index without a stream is ignored.
\<close>

theorem ack_reaches_its_stream:
  assumes "client_reachable c"
  shows "let c' = h_ack quiet_app [nat_str i, reason, nat_str k] c
    in case output_streams c (int i) of
         None \<Rightarrow> c' = c
       | Some s \<Rightarrow>
           ctrace c' = ctrace c @ [App (Ev_ack s (new_status (Some (int k)) (Some reason)))]
           \<and> output_streams c' = (if k \<ge> 0x100 then (output_streams c)(int i := None) else output_streams c)
           \<and> pool_live (stream_indices c') (dom (output_streams c'))
           \<and> (k \<ge> 0x100 \<longrightarrow> h_ack quiet_app [nat_str i, reason, nat_str k] c' = c')"
proof -
  have n: "num [nat_str i, reason, nat_str k] 0 = Some (int i)" "arg [nat_str i, reason, nat_str k] 1 = Some reason"
    "num [nat_str i, reason, nat_str k] 2 = Some (int k)"
    by (simp_all add: eval_nat_numeral)
  let ?c' = "h_ack quiet_app [nat_str i, reason, nat_str k] c"
  have "client_inv c" using assms by (rule client_reachable_inv)
  then have "client_inv ?c'" using quiet_app_ok by (rule h_ack_inv [rotated])
  then have "pool_live (stream_indices ?c') (dom (output_streams ?c'))"
    by (simp add: client_inv_def streams_ok_def)
  then show ?thesis
    unfolding Let_def h_ack_def n
    by (auto split: option.splits simp: free_output_stream_def)
qed

theorem ack_reaches_its_stream_witness:
  "let c = snd (create_stream_sending (\<lambda>i. [js ''file'', i]) new_client);
       c' = h_ack quiet_app [nat_str 0, js ''no'', nat_str 0x300] c
   in case output_streams c (int 0) of
        None \<Rightarrow> c' = c
      | Some s \<Rightarrow>
          ctrace c' = ctrace c @ [App (Ev_ack s (new_status (Some (int 0x300)) (Some (js ''no''))))]
          \<and> output_streams c' = (if (0x300::nat) \<ge> 0x100 then (output_streams c)(int 0 := None) else output_streams c)
          \<and> pool_live (stream_indices c') (dom (output_streams c'))
          \<and> ((0x300::nat) \<ge> 0x100 \<longrightarrow> h_ack quiet_app [nat_str 0, js ''no'', nat_str 0x300] c' = c')"
  using ack_reaches_its_stream [OF reach_step [OF reach_new step_create], of 0 "js ''no''" "0x300" "\<lambda>i. [js ''file'', i]"]
  by (simp only: Let_def)



end
