(* ===== verification/Guac_State.thy ===== *)
theory Guac_State
  imports Guac_Client
begin

section \<open>Guacamole.Client: exporting and importing the state\<close>

text \<open>
  \<^verbatim>\<open>exportState\<close> and \<^verbatim>\<open>importState\<close> of the client: a snapshot of the layers with their sizes, images and
  places, and its restoration into a client, which need not be the same. Key frames of a recording are
  such snapshots.

  What the display knows of a layer when the flush of the export has finished is the function \<open>view\<close>. The
  loops over an object of layers take its keys in the order of a list. What an import does to the display is
  a list of events. The index \<^verbatim>\<open>null\<close> of a parent that is in no table is \<open>None\<close>; as a key it is the same
  here as the key \<^verbatim>\<open>NaN\<close>.
\<close>

subsection \<open>Exporting\<close>

record layer_view =
  view_width :: int
  view_height :: int
  view_url :: jsstring
  view_place :: "jsnum \<times> jsnum \<times> jsnum"
  view_alpha :: jsnum
  view_matrix :: "js_float \<times> js_float \<times> js_float \<times> js_float \<times> js_float \<times> js_float"
  view_parent :: "layer option"

record exported_place =
  ex_place :: "jsnum \<times> jsnum \<times> jsnum"
  ex_alpha :: jsnum
  ex_matrix :: "js_float \<times> js_float \<times> js_float \<times> js_float \<times> js_float \<times> js_float"
  ex_parent :: jsnum

record exported_layer =
  ex_width :: int
  ex_height :: int
  ex_url :: "jsstring option"
  ex_properties :: "exported_place option"

record exported_state =
  ex_state :: client_state
  ex_timestamp :: jsnum
  ex_layers :: "(jsnum \<times> exported_layer) list"

definition get_layer_index :: "jsnum list \<Rightarrow> (jsnum \<rightharpoonup> layer) \<Rightarrow> layer option \<Rightarrow> jsnum" where
  "get_layer_index keys ls l =
     (case l of
        None \<Rightarrow> None
      | Some l \<Rightarrow> (case find (\<lambda>k. ls k = Some l) keys of None \<Rightarrow> None | Some k \<Rightarrow> k))"

text \<open>The layers are those at the call, the indices of the parents those when the display is flushed.\<close>

definition export_layer :: "(layer \<Rightarrow> layer_view) \<Rightarrow> jsnum list \<Rightarrow> (jsnum \<rightharpoonup> layer) \<Rightarrow> jsnum \<Rightarrow> layer \<Rightarrow> exported_layer" where
  "export_layer view keys ls index l =
     \<lparr>ex_width = view_width (view l), ex_height = view_height (view l),
      ex_url = (if view_width (view l) \<noteq> 0 \<and> view_height (view l) \<noteq> 0 then Some (view_url (view l)) else None),
      ex_properties =
        (if positive index
         then Some \<lparr>ex_place = view_place (view l), ex_alpha = view_alpha (view l), ex_matrix = view_matrix (view l),
                    ex_parent = get_layer_index keys ls (view_parent (view l))\<rparr>
         else None)\<rparr>"

definition export_state ::
  "(layer \<Rightarrow> layer_view) \<Rightarrow> jsnum list \<Rightarrow> client \<Rightarrow> jsnum list \<Rightarrow> client \<Rightarrow> exported_state" where
  "export_state view keys c flushed_keys flushed =
     \<lparr>ex_state = cstate c, ex_timestamp = current_timestamp c,
      ex_layers = map (\<lambda>k. (k, export_layer view flushed_keys (layers flushed) k (the (layers c k)))) keys\<rparr>"

subsection \<open>Importing\<close>

datatype import_event =
  I_cancel
| I_dispose layer
| I_resize layer int int
| I_set_channel_mask layer int
| I_draw layer int int jsstring
| I_move layer layer "jsnum \<times> jsnum \<times> jsnum"
| I_shade layer jsnum
| I_distort layer "js_float \<times> js_float \<times> js_float \<times> js_float \<times> js_float \<times> js_float"
| I_flush

definition SRC :: int where "SRC = 0xC"

text \<open>The comparison of the index of a parent with zero holds for \<^verbatim>\<open>null\<close>.\<close>

definition null_or_nonnegative :: "jsnum \<Rightarrow> bool" where
  "null_or_nonnegative k = (case k of None \<Rightarrow> True | Some i \<Rightarrow> 0 \<le> i)"

definition import_place :: "jsnum \<Rightarrow> layer \<Rightarrow> exported_layer \<Rightarrow> client \<Rightarrow> import_event list \<times> client" where
  "import_place index l e c =
     (case ex_properties e of
        Some p \<Rightarrow>
          if positive index \<and> null_or_nonnegative (ex_parent p) then
            (case get_layer (ex_parent p) c of
               (parent, c1) \<Rightarrow> ([I_move l parent (ex_place p), I_shade l (ex_alpha p), I_distort l (ex_matrix p)], c1))
          else ([], c)
      | None \<Rightarrow> ([], c))"

definition import_layer :: "jsnum \<Rightarrow> exported_layer \<Rightarrow> client \<Rightarrow> import_event list \<times> client" where
  "import_layer index e c =
     (let (l, c1) = get_layer index c; (evs, c2) = import_place index l e c1
      in (I_resize l (ex_width e) (ex_height e)
          # (case ex_url e of None \<Rightarrow> [] | Some u \<Rightarrow> if u = [] then [] else [I_set_channel_mask l SRC, I_draw l 0 0 u]) @ evs, c2))"

fun import_layers :: "(jsnum \<times> exported_layer) list \<Rightarrow> client \<Rightarrow> import_event list \<times> client" where
  "import_layers [] c = ([], c)"
| "import_layers ((k, e) # es) c =
     (let (evs, c1) = import_layer k e c; (evs', c2) = import_layers es c1 in (evs @ evs', c2))"

definition import_state :: "exported_state \<Rightarrow> jsnum list \<Rightarrow> client \<Rightarrow> import_event list \<times> client" where
  "import_state st keys c =
     (let disposed = map (\<lambda>k. I_dispose (the (layers c k))) (filter positive keys);
          (evs, c1) = import_layers (ex_layers st)
            (c\<lparr>cstate := ex_state st, current_timestamp := ex_timestamp st, layers := Map.empty\<rparr>)
      in (I_cancel # disposed @ evs @ [I_flush], c1))"

subsection \<open>What an import does\<close>

text \<open>The events of one layer, given the table of layers in which the import ends.\<close>

definition layer_events :: "(jsnum \<rightharpoonup> layer) \<Rightarrow> jsnum \<times> exported_layer \<Rightarrow> import_event list" where
  "layer_events ls ke =
     (let (k, e) = ke; l = the (ls k)
      in I_resize l (ex_width e) (ex_height e)
         # (case ex_url e of None \<Rightarrow> [] | Some u \<Rightarrow> if u = [] then [] else [I_set_channel_mask l SRC, I_draw l 0 0 u])
         @ (case ex_properties e of
              None \<Rightarrow> []
            | Some p \<Rightarrow> if positive k \<and> null_or_nonnegative (ex_parent p)
                        then [I_move l (the (ls (ex_parent p))) (ex_place p), I_shade l (ex_alpha p), I_distort l (ex_matrix p)]
                        else []))"

definition needed :: "jsnum \<times> exported_layer \<Rightarrow> jsnum set" where
  "needed ke = insert (fst ke)
     (case ex_properties (snd ke) of
        None \<Rightarrow> {}
      | Some p \<Rightarrow> if positive (fst ke) \<and> null_or_nonnegative (ex_parent p) then {ex_parent p} else {})"

lemma get_layer_table:
  "get_layer k c = (l, c') \<Longrightarrow> layers c' k = Some l \<and> layers c \<subseteq>\<^sub>m layers c' \<and> dom (layers c') = insert k (dom (layers c))
     \<and> cstate c' = cstate c \<and> current_timestamp c' = current_timestamp c"
  by (auto simp: get_layer_def Let_def map_le_def split: option.splits if_splits)

lemma map_leD: "m \<subseteq>\<^sub>m m' \<Longrightarrow> m k = Some v \<Longrightarrow> m' k = Some v"
  by (metis domI map_le_def)

lemma import_layer_events:
  assumes "import_layer k e c = (evs, c')"
  shows "layers c \<subseteq>\<^sub>m layers c' \<and> dom (layers c') = dom (layers c) \<union> needed (k, e)
    \<and> cstate c' = cstate c \<and> current_timestamp c' = current_timestamp c
    \<and> (\<forall>ls. layers c' \<subseteq>\<^sub>m ls \<longrightarrow> evs = layer_events ls (k, e))"
proof -
  obtain l c1 where g: "get_layer k c = (l, c1)" by fastforce
  note gt = get_layer_table [OF g]
  show ?thesis
  proof (cases "\<exists>p. ex_properties e = Some p \<and> positive k \<and> null_or_nonnegative (ex_parent p)")
    case True
    then obtain p where p: "ex_properties e = Some p" "positive k" "null_or_nonnegative (ex_parent p)" by blast
    obtain parent c2 where g2: "get_layer (ex_parent p) c1 = (parent, c2)" by fastforce
    note gt2 = get_layer_table [OF g2]
    have "layers c \<subseteq>\<^sub>m layers c2"
      using gt gt2 map_le_trans by blast
    moreover have "the (ls k) = l" "the (ls (ex_parent p)) = parent" if "layers c2 \<subseteq>\<^sub>m ls" for ls
      using that gt gt2 map_leD by (metis option.sel)+
    ultimately show ?thesis
      using assms g g2 p gt gt2
      by (auto simp: import_layer_def import_place_def layer_events_def needed_def Let_def)
  next
    case False
    then have "import_place k l e c1 = ([], c1)"
      by (auto simp: import_place_def split: option.splits)
    moreover have "the (ls k) = l" if "layers c1 \<subseteq>\<^sub>m ls" for ls
      using that gt map_leD by (metis option.sel)
    ultimately show ?thesis
      using assms g gt False by (auto simp: import_layer_def layer_events_def needed_def Let_def split: option.splits)
  qed
qed

lemma import_layers_events:
  "import_layers es c = (evs, c') \<Longrightarrow>
     layers c \<subseteq>\<^sub>m layers c' \<and> dom (layers c') = dom (layers c) \<union> \<Union>(needed ` set es)
     \<and> cstate c' = cstate c \<and> current_timestamp c' = current_timestamp c
     \<and> (\<forall>ls. layers c' \<subseteq>\<^sub>m ls \<longrightarrow> evs = concat (map (layer_events ls) es))"
proof (induction es arbitrary: c evs)
  case (Cons ke es)
  obtain k e where ke: "ke = (k, e)" by fastforce
  obtain evs1 c1 where 1: "import_layer k e c = (evs1, c1)" by fastforce
  obtain evs2 where 2: "import_layers es c1 = (evs2, c')" "evs = evs1 @ evs2"
    using Cons.prems ke 1 by (auto simp: Let_def split: prod.splits)
  note a = import_layer_events [OF 1] and b = Cons.IH [OF 2(1)]
  have le: "layers c1 \<subseteq>\<^sub>m layers c'" and all: "\<And>ls. layers c1 \<subseteq>\<^sub>m ls \<Longrightarrow> evs1 = layer_events ls (k, e)"
    and all2: "\<And>ls. layers c' \<subseteq>\<^sub>m ls \<Longrightarrow> evs2 = concat (map (layer_events ls) es)"
    using a b by simp_all
  have "evs = concat (map (layer_events ls) (ke # es))" if "layers c' \<subseteq>\<^sub>m ls" for ls
    using all [OF map_le_trans [OF le that]] all2 [OF that] 2(2) ke by simp
  moreover have "layers c \<subseteq>\<^sub>m layers c'"
    by (rule map_le_trans [OF _ le]) (use a in simp)
  moreover have "dom (layers c') = dom (layers c) \<union> \<Union>(needed ` set (ke # es))"
    using a b ke by (simp add: Un_assoc)
  ultimately show ?case
    using a b by simp
qed simp

text \<open>Layers keep their kinds and differ, whatever is imported.\<close>

lemma import_layers_inv: "client_inv c \<Longrightarrow> client_inv (snd (import_layers es c))"
proof (induction es c rule: import_layers.induct)
  case (2 k e es c)
  have "client_inv (snd (import_layer k e c))"
    using 2(2) get_layer_inv
    by (auto simp: import_layer_def import_place_def Let_def split: prod.splits option.splits) (metis snd_conv)+
  then show ?case
    using 2(1) by (auto simp: Let_def split: prod.splits)
qed simp

lemma import_state_inv: "client_inv c \<Longrightarrow> client_inv (snd (import_state st keys c))"
  using import_layers_inv [of "c\<lparr>cstate := ex_state st, current_timestamp := ex_timestamp st, layers := Map.empty\<rparr>" "ex_layers st"]
  by (auto simp: import_state_def client_inv_def layers_ok_def Let_def split: prod.splits)

subsection \<open>Importing what was exported\<close>

text \<open>What restores the layer \<open>l\<close> under the renaming \<open>r\<close> of the layers: its size, its image, and its place below the
  renamed parent when it is neither a buffer nor the default layer.\<close>

definition restored :: "(layer \<Rightarrow> layer_view) \<Rightarrow> (layer \<Rightarrow> layer) \<Rightarrow> jsnum \<Rightarrow> layer \<Rightarrow> import_event list" where
  "restored view r k l =
     (let v = view l
      in I_resize (r l) (view_width v) (view_height v)
         # (if view_width v \<noteq> 0 \<and> view_height v \<noteq> 0 then [I_set_channel_mask (r l) SRC, I_draw (r l) 0 0 (view_url v)] else [])
         @ (if positive k
            then [I_move (r l) (r (the (view_parent v))) (view_place v), I_shade (r l) (view_alpha v), I_distort (r l) (view_matrix v)]
            else []))"

text \<open>Every layer but the buffers and the default layer lies below one that has an index.\<close>

definition parents_indexed :: "(layer \<Rightarrow> layer_view) \<Rightarrow> (jsnum \<rightharpoonup> layer) \<Rightarrow> bool" where
  "parents_indexed view ls \<longleftrightarrow>
     (\<forall>k l. ls k = Some l \<and> positive k \<longrightarrow> (\<exists>i p. view_parent (view l) = Some p \<and> ls (Some i) = Some p \<and> 0 \<le> i))"

lemma get_layer_index_eq:
  assumes "inj_on ls (dom ls)" and "ls k = Some l" and "k \<in> set keys"
  shows "get_layer_index keys ls (Some l) = k"
proof -
  have *: "k' = k" if "ls k' = Some l" for k'
    using assms(1,2) that by (metis domI inj_onD)
  obtain k' where f: "find (\<lambda>k. ls k = Some l) keys = Some k'"
    using assms(2,3) by (cases "find (\<lambda>k. ls k = Some l) keys") (auto simp: find_None_iff)
  then have "ls k' = Some l"
    by (auto simp: find_Some_iff)
  then show ?thesis
    using * f by (simp add: get_layer_index_def)
qed

lemma exported_parent:
  assumes "inj_on ls (dom ls)" and "set keys = dom ls" and "parents_indexed view ls" and "ls k = Some l" and "positive k"
  obtains i p where "view_parent (view l) = Some p" "ls (Some i) = Some p" "0 \<le> i"
    "get_layer_index keys ls (view_parent (view l)) = Some i"
  using assms get_layer_index_eq [OF assms(1)] unfolding parents_indexed_def by (metis domI)

lemma layer_events_restored:
  assumes "inj_on ls (dom ls)" and "set keys = dom ls" and "parents_indexed view ls" and images: "\<And>l. view_url (view l) \<noteq> []"
    and k: "ls k = Some l" and r: "\<And>k l. ls k = Some l \<Longrightarrow> ls' k = Some (r l)"
  shows "layer_events ls' (k, export_layer view keys ls k l) = restored view r k l"
proof (cases "positive k")
  case True
  then obtain i p where "view_parent (view l) = Some p" "ls (Some i) = Some p" "0 \<le> i"
    "get_layer_index keys ls (view_parent (view l)) = Some i"
    by (rule exported_parent [OF assms(1-3) k])
  then show ?thesis
    using True r [OF k] r [of "Some i" p] images
    by (auto simp: layer_events_def restored_def export_layer_def null_or_nonnegative_def Let_def)
next
  case False
  then show ?thesis
    using r [OF k] images by (auto simp: layer_events_def restored_def export_layer_def Let_def)
qed

lemma needed_exported:
  assumes "inj_on ls (dom ls)" and keys: "set keys = dom ls" and "parents_indexed view ls"
  shows "\<Union>(needed ` set (map (\<lambda>k. (k, export_layer view keys ls k (the (ls k)))) keys)) = dom ls"
proof
  have "needed (k, export_layer view keys ls k l) \<subseteq> dom ls" if k: "ls k = Some l" for k l
  proof (cases "positive k")
    case True
    then obtain i p where "ls (Some i) = Some p" "get_layer_index keys ls (view_parent (view l)) = Some i"
      by (rule exported_parent [OF assms k])
    then show ?thesis using True k by (auto simp: needed_def export_layer_def)
  qed (use k in \<open>auto simp: needed_def export_layer_def\<close>)
  then show "\<Union>(needed ` set (map (\<lambda>k. (k, export_layer view keys ls k (the (ls k)))) keys)) \<subseteq> dom ls"
    using keys by (simp add: UN_subset_iff) (metis domD option.sel)
next
  have "k \<in> needed (k, e)" for k e by (simp add: needed_def)
  then show "dom ls \<subseteq> \<Union>(needed ` set (map (\<lambda>k. (k, export_layer view keys ls k (the (ls k)))) keys))"
    using keys by auto
qed

text \<open>Two tables without repetitions and with the same keys differ by a renaming of their values.\<close>

lemma table_renaming:
  assumes inj: "inj_on m (dom m)" and inj': "inj_on m' (dom m')" and dom: "dom m' = dom m"
  obtains r where "inj_on r (ran m)" and "m' = (\<lambda>k. map_option r (m k))"
proof
  define r where "r v = the (m' (the_inv_into (dom m) m (Some v)))" for v
  have r: "m' k = Some (r v)" if "m k = Some v" for k v
  proof -
    have "the_inv_into (dom m) m (Some v) = k"
      using the_inv_into_f_f [OF inj, of k] that by (simp add: domI)
    then show ?thesis
      using dom that by (metis domD domI option.sel r_def)
  qed
  show "inj_on r (ran m)"
  proof (rule inj_onI)
    fix v v' assume "v \<in> ran m" "v' \<in> ran m" and eq: "r v = r v'"
    then obtain k k' where k: "m k = Some v" "m k' = Some v'" by (auto simp: ran_def)
    then have "k = k'"
      using r [OF k(1)] r [OF k(2)] eq inj' by (auto simp: inj_on_def domI)
    then show "v = v'" using k by simp
  qed
  show "m' = (\<lambda>k. map_option r (m k))"
  proof
    fix k show "m' k = map_option r (m k)"
      using r [of k] dom by (cases "m k") (auto simp: domIff)
  qed
qed


text \<open>A client with the default layer at 0, a layer at 3 below it and a buffer at -1, imported into a new client.\<close>

definition example_view :: "layer \<Rightarrow> layer_view" where
  "example_view l =
     (case l of
        Default_layer \<Rightarrow> \<lparr>view_width = 640, view_height = 480, view_url = js ''data:,a'', view_place = (Some 0, Some 0, Some 0),
          view_alpha = Some 255, view_matrix = (None, None, None, None, None, None), view_parent = None\<rparr>
      | _ \<Rightarrow> \<lparr>view_width = 10, view_height = 0, view_url = js ''data:,'', view_place = (Some 1, Some 2, Some 3),
          view_alpha = Some 128, view_matrix = (None, None, None, None, None, None), view_parent = Some Default_layer\<rparr>)"

definition example_client :: client where
  "example_client = snd (get_layer (Some (-1)) (snd (get_layer (Some 3) (snd (get_layer (Some 0) new_client)))))"

lemma example_layers: "layers example_client = [Some 0 \<mapsto> Default_layer, Some 3 \<mapsto> Visible_layer 0, Some (-1) \<mapsto> Buffer_layer 1]"
  by (simp add: example_client_def get_layer_def new_client_def Let_def)


text \<open>The parent of a layer that has no index is exported as \<^verbatim>\<open>null\<close>, which the comparison \<^verbatim>\<open>importLayer.parent >= 0\<close> takes for
  an index: such a layer is moved below a buffer made for it.\<close>

lemma unindexed_parent_becomes_buffer:
  assumes "layers c None = None" and "layers c k = Some l" and "positive k" and "ex_properties e = Some p" and "ex_parent p = None"
  shows "import_place k l e c = ([I_move l (Buffer_layer (next_layer c)) (ex_place p), I_shade l (ex_alpha p), I_distort l (ex_matrix p)],
      c\<lparr>next_layer := next_layer c + 1, layers := (layers c)(None \<mapsto> Buffer_layer (next_layer c))\<rparr>)"
  using assms by (simp add: import_place_def null_or_nonnegative_def get_layer_def)

end
