(* ===== verification/Guac_Tunnel.thy ===== *)
theory Guac_Tunnel
  imports Guac_Protocol Guac_Status
begin

section \<open>Guacamole.Tunnel and Guacamole.WebSocketTunnel\<close>

text \<open>
  The base object \<^verbatim>\<open>Guacamole.Tunnel\<close> is the record \<open>tunnel\<close>; the tunnels that inherit
  from it extend the record. The WebSocket tunnel, which is the one the remote access page
  uses, is the record \<open>ws_tunnel\<close>. What a tunnel does to the outside (calls of the
  application's callbacks, use of the socket) is appended to its \<open>trace\<close>. The
  callback \<^verbatim>\<open>oninstruction\<close> is also a parameter \<open>h\<close> of the definitions that call it,
  since the client behind it calls back into the tunnel (it sends, or disconnects) while a
  message is still being read; the other callbacks are only recorded. All callbacks are taken
  to be set.

  A timer is \<open>Some\<close> deadline while it is armed. The clock, \<^verbatim>\<open>new Date().getTime()\<close>, is the
  argument \<open>now\<close> of the operations that read it. The browser's socket is kept as its ready
  state; \<open>ws_step\<close> says which of its events can arrive in which ready state.
\<close>

subsection \<open>The base tunnel\<close>

datatype tunnel_state = CONNECTING | OPEN | CLOSED | UNSTABLE

datatype tunnel_event =
  Onstatechange tunnel_state
| Onuuid jsstring
| Onerror status
| Oninstruction jsstring "jsstring list"
| New_socket jsstring jsstring
| Socket_send jsstring
| Socket_close
| Post_connect jsstring jsstring
| Post_write jsstring jsstring
| Get_read jsstring
| Abort_read

record tunnel =
  tstate :: tunnel_state
  uuid :: "jsstring option"
  receive_timeout_ms :: nat
  unstable_threshold :: nat
  trace :: "tunnel_event list"

definition new_tunnel :: tunnel where
  "new_tunnel = \<lparr>tstate = CLOSED, uuid = None, receive_timeout_ms = 15000,
     unstable_threshold = 1500, trace = []\<rparr>"

definition INTERNAL_DATA_OPCODE :: jsstring where
  "INTERNAL_DATA_OPCODE = []"

definition log_event :: "tunnel_event \<Rightarrow> 'a tunnel_scheme \<Rightarrow> 'a tunnel_scheme" where
  "log_event e t = t\<lparr>trace := trace t @ [e]\<rparr>"

definition set_state :: "tunnel_state \<Rightarrow> 'a tunnel_scheme \<Rightarrow> 'a tunnel_scheme" where
  "set_state s t =
     (if s \<noteq> tstate t then log_event (Onstatechange s) (t\<lparr>tstate := s\<rparr>) else t)"

definition set_uuid :: "jsstring \<Rightarrow> 'a tunnel_scheme \<Rightarrow> 'a tunnel_scheme" where
  "set_uuid u t = log_event (Onuuid u) (t\<lparr>uuid := Some u\<rparr>)"

definition is_connected :: "'a tunnel_scheme \<Rightarrow> bool" where
  "is_connected t \<longleftrightarrow> tstate t = OPEN \<or> tstate t = UNSTABLE"

lemma log_event_simps [simp]:
  "tstate (log_event e t) = tstate t" "uuid (log_event e t) = uuid t"
  "trace (log_event e t) = trace t @ [e]"
  "receive_timeout_ms (log_event e t) = receive_timeout_ms t"
  "unstable_threshold (log_event e t) = unstable_threshold t"
  "tunnel.more (log_event e t) = tunnel.more t"
  by (simp_all add: log_event_def)

lemma set_state_simps [simp]:
  "tstate (set_state s t) = s" "uuid (set_state s t) = uuid t"
  "trace (set_state s t) = trace t @ (if s = tstate t then [] else [Onstatechange s])"
  "receive_timeout_ms (set_state s t) = receive_timeout_ms t"
  "unstable_threshold (set_state s t) = unstable_threshold t"
  "tunnel.more (set_state s t) = tunnel.more t"
  by (simp_all add: set_state_def)

lemma set_uuid_simps [simp]:
  "tstate (set_uuid u t) = tstate t" "uuid (set_uuid u t) = Some u"
  "trace (set_uuid u t) = trace t @ [Onuuid u]"
  "receive_timeout_ms (set_uuid u t) = receive_timeout_ms t"
  "unstable_threshold (set_uuid u t) = unstable_threshold t"
  "tunnel.more (set_uuid u t) = tunnel.more t"
  by (simp_all add: set_uuid_def)

lemma set_state_same [simp]: "tstate t = s \<Longrightarrow> set_state s t = t"
  by (simp add: set_state_def)

text \<open>The text a tunnel has handed to the network.\<close>

fun event_text :: "tunnel_event \<Rightarrow> jsstring" where
  "event_text (Socket_send s) = s"
| "event_text (Post_write u s) = s"
| "event_text _ = []"

definition sent_text :: "'a tunnel_scheme \<Rightarrow> jsstring" where
  "sent_text t = concat (map event_text (trace t))"

subsection \<open>The contract of a tunnel with its client\<close>

text \<open>
  What the client relies on, whichever tunnel it was given: messages sent while the tunnel
  is connected reach the wire in order and unchanged, messages sent otherwise have no
  effect, and a disconnected tunnel is not connected. \<open>wire\<close> is what has been handed over for
  transmission, sent or waiting.
\<close>

locale message_tunnel =
  fixes usable :: "'t \<Rightarrow> bool"
    and send :: "jsstring list \<Rightarrow> 't \<Rightarrow> 't"
    and disconnect :: "'t \<Rightarrow> 't"
    and wire :: "'t \<Rightarrow> jsstring"
  assumes send_unusable: "\<not> usable t \<Longrightarrow> send es t = t"
    and send_nothing: "send [] t = t"
    and send_usable: "usable t \<Longrightarrow> usable (send es t)"
    and send_wire: "usable t \<Longrightarrow> es \<noteq> [] \<Longrightarrow> wire (send es t) = wire t @ encode_message es"
    and disconnect_unusable: "\<not> usable (disconnect t)"
begin

definition send_all :: "instruction list \<Rightarrow> 't \<Rightarrow> 't" where
  "send_all is t = fold (\<lambda>i. send (fst i # snd i)) is t"

lemma send_all_usable: "usable t \<Longrightarrow> usable (send_all is t)"
  unfolding send_all_def by (induction "is" arbitrary: t) (simp_all add: send_usable)

lemma send_all_wire:
  "usable t \<Longrightarrow> wire (send_all is t) = wire t @ concat (map encode_instruction is)"
  unfolding send_all_def
  by (induction "is" arbitrary: t) (simp_all add: send_usable send_wire encode_instruction_def)

lemma send_all_parsed:
  assumes "usable t" and "wire t = []" and "concat packets = wire (send_all is t)"
  shows "\<exists>p. receive_all packets new_parser = (p, is, None) \<and> abs_parser p = ([], Need_length [])"
proof -
  have "spec_loop [] (Need_length (concat packets)) = (([], Need_length []), is, None)"
    using assms spec_loop_instructions [of "is" "[]"]
    by (simp add: send_all_wire spec_loop.simps(2))
  from fresh_parser_refines [OF this] show ?thesis by auto
qed

lemma silent_after_disconnect: "send_all is (disconnect t) = disconnect t"
  unfolding send_all_def
  by (induction "is") (simp_all add: send_unusable disconnect_unusable)

end

subsection \<open>The URL of the WebSocket\<close>

record location =
  protocol :: jsstring
  host :: jsstring
  pathname :: jsstring

definition last_index_of :: "jsstring \<Rightarrow> code_unit \<Rightarrow> int" where
  "last_index_of s c =
     (case find_unit c (rev s) of None \<Rightarrow> -1 | Some i \<Rightarrow> int (length s) - 1 - int i)"

text \<open>A property that is not in the table \<^verbatim>\<open>ws_protocol\<close> concatenates as \<^verbatim>\<open>undefined\<close>.\<close>

definition ws_protocol :: "jsstring \<Rightarrow> jsstring" where
  "ws_protocol p =
     (if p = js ''http:'' then js ''ws:''
      else if p = js ''https:'' then js ''wss:''
      else js ''undefined'')"

definition socket_url :: "location \<Rightarrow> jsstring \<Rightarrow> jsstring" where
  "socket_url loc url =
     (if js_substring url 0 3 \<noteq> js ''ws:'' \<and> js_substring url 0 4 \<noteq> js ''wss:''
      then (let prefix = ws_protocol (protocol loc) @ js ''//'' @ host loc
            in if js_substring url 0 1 = js ''/'' then prefix @ url
               else (let slash = last_index_of (pathname loc) (of_char (CHR ''/''));
                         path = js_substring (pathname loc) 0 (slash + 1)
                     in prefix @ path @ url))
      else url)"

subsection \<open>The WebSocket tunnel\<close>

datatype ready_state = Connecting | Open | Closing | Closed

record ws_tunnel = tunnel +
  tunnel_url :: jsstring
  socket :: "ready_state option"
  receive_timer :: "nat option"
  unstable_timer :: "nat option"
  ping_timer :: "nat option"
  last_sent_ping :: nat

definition new_ws_tunnel :: "location \<Rightarrow> jsstring \<Rightarrow> ws_tunnel" where
  "new_ws_tunnel loc url = tunnel.extend new_tunnel
     \<lparr>tunnel_url = socket_url loc url, socket = None, receive_timer = None,
      unstable_timer = None, ping_timer = None, last_sent_ping = 0\<rparr>"

definition PING_FREQUENCY :: nat where
  "PING_FREQUENCY = 500"

text \<open>
  \<^verbatim>\<open>socket.send\<close> throws while the socket is connecting, and drops the data once it is
  closing. \<^verbatim>\<open>null.send\<close> throws as well. An exception ends the operation that
  called, so the operations give it beside the state.
\<close>

datatype ws_exception = Invalid_state | Null_socket

definition ws_send :: "jsstring list \<Rightarrow> ws_tunnel \<Rightarrow> ws_tunnel \<times> ws_exception option" where
  "ws_send elements w =
     (if \<not> is_connected w then (w, None)
      else if length elements = 0 then (w, None)
      else (let message = encode_message elements in
        case socket w of
          None \<Rightarrow> (w, Some Null_socket)
        | Some Connecting \<Rightarrow> (w, Some Invalid_state)
        | Some Open \<Rightarrow> (log_event (Socket_send message) w, None)
        | Some _ \<Rightarrow> (w, None)))"

definition send_ping :: "nat \<Rightarrow> ws_tunnel \<Rightarrow> ws_tunnel \<times> ws_exception option" where
  "send_ping now w =
     (case ws_send [INTERNAL_DATA_OPCODE, js ''ping'', nat_str now] w of
        (w1, Some e) \<Rightarrow> (w1, Some e)
      | (w1, None) \<Rightarrow> (w1\<lparr>last_sent_ping := now\<rparr>, None))"

definition clear_timers :: "ws_tunnel \<Rightarrow> ws_tunnel" where
  "clear_timers w = w\<lparr>receive_timer := None, unstable_timer := None, ping_timer := None\<rparr>"

definition reset_timers :: "nat \<Rightarrow> ws_tunnel \<Rightarrow> ws_tunnel \<times> ws_exception option" where
  "reset_timers now w =
     (let w1 = clear_timers w;
          w2 = (if tstate w1 = UNSTABLE then set_state OPEN w1 else w1);
          w3 = w2\<lparr>receive_timer := Some (now + receive_timeout_ms w2),
                  unstable_timer := Some (now + unstable_threshold w2)\<rparr>;
          ping_delay = max (int (last_sent_ping w3) + int PING_FREQUENCY - int now) 0
      in if ping_delay > 0 then (w3\<lparr>ping_timer := Some (now + nat ping_delay)\<rparr>, None)
         else send_ping now w3)"

definition ws_close_tunnel :: "status \<Rightarrow> ws_tunnel \<Rightarrow> ws_tunnel \<times> ws_exception option" where
  "ws_close_tunnel st w =
     (let w = clear_timers w in
      if tstate w = CLOSED then (w, None)
      else
        (let w1 = (if code st \<noteq> Some (status_code SUCCESS) then log_event (Onerror st) w else w);
             w2 = set_state CLOSED w1
         in case socket w2 of
              None \<Rightarrow> (w2, Some Null_socket)
            | Some Closed \<Rightarrow> (log_event Socket_close w2, None)
            | Some _ \<Rightarrow> (log_event Socket_close (w2\<lparr>socket := Some Closing\<rparr>), None)))"

definition ws_disconnect :: "ws_tunnel \<Rightarrow> ws_tunnel \<times> ws_exception option" where
  "ws_disconnect w = ws_close_tunnel (named_status SUCCESS (Some (js ''Manually closed.''))) w"

definition ws_connect :: "nat \<Rightarrow> jsstring \<Rightarrow> ws_tunnel \<Rightarrow> ws_tunnel \<times> ws_exception option" where
  "ws_connect now data w =
     (case reset_timers now w of
        (w1, Some e) \<Rightarrow> (w1, Some e)
      | (w1, None) \<Rightarrow>
          (let w2 = set_state CONNECTING w1
           in (log_event (New_socket (tunnel_url w2 @ js ''?'' @ data) (js ''guacamole''))
                 (w2\<lparr>socket := Some Connecting\<rparr>), None)))"

definition ws_onopen :: "nat \<Rightarrow> ws_tunnel \<Rightarrow> ws_tunnel \<times> ws_exception option" where
  "ws_onopen now w = reset_timers now w"

definition ws_onclose :: "jsstring \<Rightarrow> nat \<Rightarrow> ws_tunnel \<Rightarrow> ws_tunnel \<times> ws_exception option" where
  "ws_onclose reason c w =
     (if reason \<noteq> [] then ws_close_tunnel (new_status (parse_int reason) (Some reason)) w
      else if c \<noteq> 0 then ws_close_tunnel (named_status (from_websocket_code (int c)) None) w
      else ws_close_tunnel (named_status UPSTREAM_NOT_FOUND None) w)"

definition ws_on_receive_timeout :: "ws_tunnel \<Rightarrow> ws_tunnel \<times> ws_exception option" where
  "ws_on_receive_timeout w =
     ws_close_tunnel (named_status UPSTREAM_TIMEOUT (Some (js ''Server timeout.'')))
       (w\<lparr>receive_timer := None\<rparr>)"

definition ws_on_unstable_timeout :: "ws_tunnel \<Rightarrow> ws_tunnel" where
  "ws_on_unstable_timeout w = set_state UNSTABLE (w\<lparr>unstable_timer := None\<rparr>)"

definition ws_on_ping_timeout :: "nat \<Rightarrow> ws_tunnel \<Rightarrow> ws_tunnel \<times> ws_exception option" where
  "ws_on_ping_timeout now w = send_ping now (w\<lparr>ping_timer := None\<rparr>)"

subsection \<open>Reading a message\<close>

text \<open>
  The variable \<^verbatim>\<open>elementEnd\<close> of \<^verbatim>\<open>onmessage\<close> starts as \<^verbatim>\<open>undefined\<close> and becomes
  \<^verbatim>\<open>NaN\<close> when a length cannot be read. As arguments of \<^verbatim>\<open>substring\<close> both count as 0, except
  that an end that is \<^verbatim>\<open>undefined\<close> is the end of the string.
\<close>

datatype js_index = Undefined | NaN | At int

fun succ_index :: "js_index \<Rightarrow> js_index" where
  "succ_index (At i) = At (i + 1)"
| "succ_index _ = NaN"

fun index_start :: "js_index \<Rightarrow> int" where
  "index_start (At i) = i"
| "index_start _ = 0"

fun index_end :: "jsstring \<Rightarrow> js_index \<Rightarrow> int" where
  "index_end s (At i) = i"
| "index_end s Undefined = int (length s)"
| "index_end s NaN = 0"

fun index_less :: "js_index \<Rightarrow> int \<Rightarrow> bool" where
  "index_less (At i) n \<longleftrightarrow> i < n"
| "index_less _ n \<longleftrightarrow> False"

definition substring_at :: "jsstring \<Rightarrow> js_index \<Rightarrow> js_index \<Rightarrow> jsstring" where
  "substring_at s a b = js_substring s (index_start a) (index_end s b)"

type_synonym ws_handler = "instruction \<Rightarrow> ws_tunnel \<Rightarrow> ws_tunnel"

definition ws_instruction :: "ws_handler \<Rightarrow> instruction \<Rightarrow> ws_tunnel \<Rightarrow> ws_tunnel" where
  "ws_instruction h i w =
     (let opcode = fst i; elements = snd i;
          w1 = (if uuid w = None then
                  set_state OPEN
                    (if opcode = INTERNAL_DATA_OPCODE \<and> length elements = 1
                     then set_uuid (elements ! 0) w else w)
                else w)
      in if opcode \<noteq> INTERNAL_DATA_OPCODE
         then h i (log_event (Oninstruction opcode elements) w1)
         else w1)"

definition incomplete_instruction :: status where
  "incomplete_instruction = named_status SERVER_ERROR (Some (js ''Incomplete instruction.''))"

definition ws_scan_length ::
  "jsstring \<Rightarrow> int \<Rightarrow> js_index \<Rightarrow> ws_tunnel \<Rightarrow> (int \<times> js_index \<times> ws_tunnel) \<times> ws_exception option" where
  "ws_scan_length msg start el_end w =
     (let length_end = js_index_of msg dot start
      in if length_end \<noteq> -1 then
           (let start = length_end + 1
            in ((start,
                 case parse_int (substring_at msg (succ_index el_end) (At length_end)) of
                   None \<Rightarrow> NaN | Some len \<Rightarrow> At (start + len),
                 w), None))
         else (case ws_close_tunnel incomplete_instruction w of
                 (w1, e) \<Rightarrow> ((start, el_end, w1), e)))"

definition ws_take_element ::
  "ws_handler \<Rightarrow> jsstring \<Rightarrow> int \<Rightarrow> js_index \<Rightarrow> jsstring list \<Rightarrow> ws_tunnel
   \<Rightarrow> jsstring list \<times> ws_tunnel" where
  "ws_take_element h msg start el_end elements w =
     (let elements = elements @ [substring_at msg (At start) el_end]
      in if substring_at msg el_end (succ_index el_end) = [semicolon]
         then ([], ws_instruction h (hd elements, tl elements) w)
         else (elements, w))"

text \<open>\<open>None\<close> is a loop that never ends.\<close>

partial_function (option) ws_loop ::
  "ws_handler \<Rightarrow> jsstring \<Rightarrow> int \<Rightarrow> js_index \<Rightarrow> jsstring list \<Rightarrow> ws_tunnel
   \<Rightarrow> (ws_tunnel \<times> ws_exception option) option" where
  "ws_loop h msg start el_end elements w =
     (case ws_scan_length msg start el_end w of
        ((si, ee, w1), Some e) \<Rightarrow> Some (w1, Some e)
      | ((si, ee, w1), None) \<Rightarrow>
          (case ws_take_element h msg si ee elements w1 of
             (els, w2) \<Rightarrow>
               if index_less (succ_index ee) (int (length msg))
               then ws_loop h msg (index_start (succ_index ee)) ee els w2
               else Some (w2, None)))"

definition ws_onmessage ::
  "ws_handler \<Rightarrow> nat \<Rightarrow> jsstring \<Rightarrow> ws_tunnel \<Rightarrow> (ws_tunnel \<times> ws_exception option) option" where
  "ws_onmessage h now msg w =
     (case reset_timers now w of
        (w1, Some e) \<Rightarrow> Some (w1, Some e)
      | (w1, None) \<Rightarrow> ws_loop h msg 0 Undefined [] w1)"

subsection \<open>The loop reads whole messages\<close>

definition at_boundary :: "jsstring \<Rightarrow> js_index \<Rightarrow> bool" where
  "at_boundary pre ee \<longleftrightarrow> ee = At (int (length pre) - 1) \<or> pre = [] \<and> ee = Undefined"

lemma boundary_start: "at_boundary pre ee \<Longrightarrow> index_start (succ_index ee) = int (length pre)"
  by (auto simp: at_boundary_def)

lemma ws_scan_length_element:
  assumes "at_boundary pre ee"
  shows "ws_scan_length (pre @ get_element v @ t) (int (length pre)) ee w =
    ((int (length pre + length (nat_str (length v)) + 1),
      At (int (length (pre @ get_element v))), w), None)"
proof -
  let ?n = "nat_str (length v)"
  have split: "pre @ get_element v @ t = pre @ ?n @ dot # (v @ t)"
    by (simp add: get_element_def)
  have idx: "js_index_of (pre @ ?n @ dot # (v @ t)) dot (int (length pre)) =
      int (length pre + length ?n)"
    by (rule js_index_of_at) (simp add: nat_str_no_unit)
  have sub: "substring_at (pre @ ?n @ dot # (v @ t)) (succ_index ee)
      (At (int (length pre + length ?n))) = ?n"
    using boundary_start [OF assms] js_substring_at [of pre ?n "dot # v @ t"]
    by (simp add: substring_at_def)
  show ?thesis
    unfolding split ws_scan_length_def idx sub Let_def
    by (simp add: js_simps get_element_def)
qed

lemma ws_take_element_text:
  fixes pre v rest c
  defines "msg \<equiv> pre @ get_element v @ c # rest"
  shows "ws_take_element h msg (int (length pre + length (nat_str (length v)) + 1))
      (At (int (length (pre @ get_element v)))) els w =
    (if c = semicolon then ([], ws_instruction h (hd (els @ [v]), tl (els @ [v])) w)
     else (els @ [v], w))"
proof -
  let ?p = "pre @ nat_str (length v) @ [dot]" and ?q = "pre @ get_element v"
  have "substring_at msg (At (int (length pre + length (nat_str (length v)) + 1)))
      (At (int (length ?q))) = v"
    using js_substring_at [of ?p v "c # rest"]
    by (simp add: substring_at_def msg_def get_element_def algebra_simps)
  moreover have "substring_at msg (At (int (length ?q))) (succ_index (At (int (length ?q)))) = [c]"
    using js_substring_at [of ?q "[c]" rest]
    by (simp add: substring_at_def msg_def algebra_simps)
  ultimately show ?thesis by (simp add: ws_take_element_def Let_def)
qed

lemma ws_loop_element:
  fixes pre v rest c
  defines "msg \<equiv> pre @ get_element v @ c # rest" and "pre' \<equiv> pre @ get_element v @ [c]"
  assumes "at_boundary pre ee"
  shows "ws_loop h msg (int (length pre)) ee els w =
    (let (els', w') = (if c = semicolon then ([], ws_instruction h (hd (els @ [v]), tl (els @ [v])) w)
                       else (els @ [v], w))
     in if rest = [] then Some (w', None)
        else ws_loop h msg (int (length pre')) (At (int (length pre') - 1)) els' w')"
  using ws_take_element_text [of h pre v c rest els w]
  unfolding msg_def pre'_def
  by (subst ws_loop.simps)
    (simp add: ws_scan_length_element [OF assms(3)] Let_def algebra_simps split: prod.split)

lemma at_boundary_next [simp]: "at_boundary pre (At (int (length pre) - 1))"
  by (simp add: at_boundary_def)

lemma ws_loop_message:
  assumes "at_boundary pre ee" and "args \<noteq> []"
  shows "ws_loop h (pre @ encode_message args @ rest) (int (length pre)) ee els w =
    (let w' = ws_instruction h (hd (els @ args), tl (els @ args)) w;
         pre' = pre @ encode_message args
     in if rest = [] then Some (w', None)
        else ws_loop h (pre' @ rest) (int (length pre')) (At (int (length pre') - 1)) [] w')"
  using assms
proof (induction args arbitrary: pre ee els)
  case (Cons a as)
  show ?case
  proof (cases "as = []")
    case True
    then show ?thesis
      using ws_loop_element [OF Cons.prems(1), of h a semicolon rest els w]
      by (simp add: encode_message_Cons Let_def)
  next
    case False
    let ?pre = "pre @ get_element a @ [comma]"
    have e: "encode_message (a # as) = get_element a @ comma # encode_message as"
      using False by (rule encode_message_step)
    have ne: "encode_message as \<noteq> []" by (simp add: encode_message_def)
    have "hd ((els @ [a]) @ as) = hd (els @ a # as)" "tl ((els @ [a]) @ as) = tl (els @ a # as)"
      by simp_all
    then show ?thesis
      using ws_loop_element [OF Cons.prems(1), of h a comma "encode_message as @ rest" els w]
        Cons.IH [OF at_boundary_next [of ?pre] False, of "els @ [a]"] ne
      unfolding e by (simp only: append_assoc append_Cons append_Nil Let_def case_prod_conv
          append_is_Nil_conv if_False simp_thms) simp
  qed
qed simp

lemma encode_instruction_nonempty [simp]: "encode_instruction i \<noteq> []"
  by (simp add: encode_instruction_def encode_message_Cons)

lemma ws_loop_instructions:
  assumes "at_boundary pre ee" and "is \<noteq> []"
  shows "ws_loop h (pre @ concat (map encode_instruction is) @ rest) (int (length pre)) ee [] w =
    (let w' = fold (ws_instruction h) is w; pre' = pre @ concat (map encode_instruction is)
     in if rest = [] then Some (w', None)
        else ws_loop h (pre' @ rest) (int (length pre')) (At (int (length pre') - 1)) [] w')"
  using assms
proof (induction "is" arbitrary: pre ee w)
  case (Cons i ins)
  let ?rest = "concat (map encode_instruction ins) @ rest"
  have one: "ws_loop h (pre @ encode_instruction i @ ?rest) (int (length pre)) ee [] w =
      (let w' = ws_instruction h i w; pre' = pre @ encode_instruction i
       in if ?rest = [] then Some (w', None)
          else ws_loop h (pre' @ ?rest) (int (length pre')) (At (int (length pre') - 1)) [] w')"
    using ws_loop_message [OF Cons.prems(1), of "fst i # snd i" h ?rest "[]" w]
    by (simp add: encode_instruction_def)
  show ?case
  proof (cases "ins = []")
    case True
    then show ?thesis using one by (simp add: Let_def)
  next
    case False
    then have "?rest \<noteq> []" by (cases ins) simp_all
    with one have "ws_loop h (pre @ encode_instruction i @ ?rest) (int (length pre)) ee [] w =
        ws_loop h ((pre @ encode_instruction i) @ ?rest) (int (length (pre @ encode_instruction i)))
          (At (int (length (pre @ encode_instruction i)) - 1)) [] (ws_instruction h i w)"
      by (simp only: Let_def if_False)
    then show ?thesis
      using Cons.IH [OF at_boundary_next [of "pre @ encode_instruction i"] False]
      by (simp add: Let_def)
  qed
qed simp

subsection \<open>The loop never leaves trailing text without a period\<close>

definition keeps_socket :: "ws_handler \<Rightarrow> bool" where
  "keeps_socket h \<longleftrightarrow> (\<forall>i w. socket w \<noteq> None \<longrightarrow> socket (h i w) \<noteq> None)"

definition stuck_at :: "jsstring \<Rightarrow> int \<Rightarrow> js_index \<Rightarrow> bool" where
  "stuck_at msg si ee \<longleftrightarrow>
     js_index_of msg dot si = -1 \<and> ee = At (si - 1) \<and> si < int (length msg)"

lemma ws_fields [simp]:
  "socket (log_event e w) = socket w" "socket (set_state s w) = socket w"
  "socket (set_uuid u w) = socket w" "socket (clear_timers w) = socket w"
  "tstate (clear_timers w) = tstate w" "trace (clear_timers w) = trace w"
  "uuid (clear_timers w) = uuid w"
  "receive_timer (clear_timers w) = None" "unstable_timer (clear_timers w) = None"
  "ping_timer (clear_timers w) = None"
  by (simp_all add: log_event_def set_state_def set_uuid_def clear_timers_def)

lemma ws_instruction_socket:
  "keeps_socket h \<Longrightarrow> socket w \<noteq> None \<Longrightarrow> socket (ws_instruction h i w) \<noteq> None"
  unfolding ws_instruction_def keeps_socket_def Let_def
  by (simp del: not_None_eq split_paired_All)

lemma ws_close_tunnel_socket:
  "socket w \<noteq> None \<Longrightarrow>
   socket (fst (ws_close_tunnel st w)) \<noteq> None \<and> snd (ws_close_tunnel st w) = None"
  by (auto simp: ws_close_tunnel_def Let_def split: option.split ready_state.split)

lemma stuck_scan:
  assumes "stuck_at msg si ee" and "socket w \<noteq> None"
  obtains w1 where "ws_scan_length msg si ee w = ((si, ee, w1), None)" "socket w1 \<noteq> None"
    "index_less (succ_index ee) (int (length msg))" "index_start (succ_index ee) = si"
proof -
  have m: "js_index_of msg dot si = -1" "ee = At (si - 1)" "si < int (length msg)"
    using assms(1) by (simp_all add: stuck_at_def)
  with ws_close_tunnel_socket [OF assms(2), of incomplete_instruction] m show thesis
    by (intro that [of "fst (ws_close_tunnel incomplete_instruction w)"])
      (simp_all add: ws_scan_length_def prod_eq_iff split: prod.split)
qed

abbreviation ws_body where
  "ws_body loop h msg si ee els w \<equiv>
     (case ws_scan_length msg si ee w of
        ((si, ee, w1), None) \<Rightarrow>
          (case ws_take_element h msg si ee els w1 of
             (els, w2) \<Rightarrow>
               if index_less (succ_index ee) (int (length msg))
               then loop h msg (index_start (succ_index ee)) ee els w2 else Some (w2, None))
      | ((si, ee, w1), Some e) \<Rightarrow> Some (w1, Some e))"

lemma ws_take_element_socket:
  "keeps_socket h \<Longrightarrow> socket w \<noteq> None \<Longrightarrow> socket (snd (ws_take_element h msg si ee els w)) \<noteq> None"
  using ws_instruction_socket by (simp add: ws_take_element_def Let_def del: not_None_eq)

lemma stuck_body:
  assumes "keeps_socket h" and "stuck_at msg si ee" and "socket w \<noteq> None"
  obtains els' w' where "ws_body loop h msg si ee els w = loop h msg si ee els' w'" "socket w' \<noteq> None"
proof -
  obtain w1 where w1: "ws_scan_length msg si ee w = ((si, ee, w1), None)" "socket w1 \<noteq> None"
    "index_less (succ_index ee) (int (length msg))" "index_start (succ_index ee) = si"
    using stuck_scan assms by blast
  obtain els' w' where "ws_take_element h msg si ee els w1 = (els', w')" by fastforce
  with ws_take_element_socket [OF assms(1) w1(2), of msg si ee els] w1 show thesis
    by (intro that [of els' w']) simp_all
qed

lemma ws_loop_stuck:
  assumes "ws_loop h msg si ee els w = Some r"
  shows "\<not> (keeps_socket h \<and> stuck_at msg si ee \<and> socket w \<noteq> None)"
proof (rule ws_loop.raw_induct [where P =
      "\<lambda>h msg si ee els w r. \<not> (keeps_socket h \<and> stuck_at msg si ee \<and> socket w \<noteq> None)", OF _ assms])
  fix loop h msg si ee els w r
  assume IH: "\<And>h msg si ee els w r. loop h msg si ee els w = Some r \<Longrightarrow>
      \<not> (keeps_socket h \<and> stuck_at msg si ee \<and> socket w \<noteq> None)"
    and step: "ws_body loop h msg si ee els w = Some r"
  show "\<not> (keeps_socket h \<and> stuck_at msg si ee \<and> socket w \<noteq> None)"
  proof
    assume a: "keeps_socket h \<and> stuck_at msg si ee \<and> socket w \<noteq> None"
    then obtain els' w' where
      "ws_body loop h msg si ee els w = loop h msg si ee els' w'" "socket w' \<noteq> None"
      using stuck_body by blast
    with IH [of h msg si ee els' w' r] step a show False by simp
  qed
qed

subsection \<open>The tunnel as a state machine\<close>

text \<open>
  The steps of a WebSocket tunnel: calls by the client, events of the socket, and timers. A
  socket delivers \<^verbatim>\<open>open\<close> only while connecting, messages only while open, and \<^verbatim>\<open>close\<close>
  once. A timer fires at or after its deadline. \<^verbatim>\<open>connect\<close> is a step only when no earlier
  socket is alive; the message step is there only for messages whose reading ends.
\<close>

datatype ws_label =
  Connects | Opens | Receives | Socket_closes | Sends | Disconnects
| Receive_timeout | Unstable_timeout | Ping_timeout

inductive ws_step :: "ws_handler \<Rightarrow> ws_label \<Rightarrow> ws_tunnel \<Rightarrow> ws_tunnel \<Rightarrow> bool" for h where
  step_connect: "socket w = None \<or> socket w = Some Closed \<Longrightarrow>
    ws_step h Connects w (fst (ws_connect now data w))"
| step_open: "socket w = Some Connecting \<Longrightarrow>
    ws_step h Opens w (fst (ws_onopen now (w\<lparr>socket := Some Open\<rparr>)))"
| step_message: "socket w = Some Open \<Longrightarrow> ws_onmessage h now msg w = Some r \<Longrightarrow>
    ws_step h Receives w (fst r)"
| step_close: "socket w = Some s \<Longrightarrow> s \<noteq> Closed \<Longrightarrow>
    ws_step h Socket_closes w (fst (ws_onclose reason c (w\<lparr>socket := Some Closed\<rparr>)))"
| step_send: "ws_step h Sends w (fst (ws_send es w))"
| step_disconnect: "ws_step h Disconnects w (fst (ws_disconnect w))"
| step_receive_timeout: "receive_timer w = Some d \<Longrightarrow> d \<le> now \<Longrightarrow>
    ws_step h Receive_timeout w (fst (ws_on_receive_timeout w))"
| step_unstable: "unstable_timer w = Some d \<Longrightarrow> d \<le> now \<Longrightarrow>
    ws_step h Unstable_timeout w (ws_on_unstable_timeout w)"
| step_ping: "ping_timer w = Some d \<Longrightarrow> d \<le> now \<Longrightarrow>
    ws_step h Ping_timeout w (fst (ws_on_ping_timeout now w))"

inductive ws_reachable :: "ws_handler \<Rightarrow> ws_tunnel \<Rightarrow> bool" for h where
  reach_new: "ws_reachable h (new_ws_tunnel loc url)"
| reach_step: "ws_reachable h w \<Longrightarrow> ws_step h l w w' \<Longrightarrow> ws_reachable h w'"

text \<open>
  The invariant: a tunnel that is not closed has a socket, a live socket belongs to a tunnel
  that is not closed, a closed tunnel has no timer armed, and a tunnel that is not closed has
  its receive timer armed, so that it cannot wait for ever.
\<close>

definition ws_inv :: "ws_tunnel \<Rightarrow> bool" where
  "ws_inv w \<longleftrightarrow>
     (tstate w \<noteq> CLOSED \<longrightarrow> socket w \<noteq> None \<and> receive_timer w \<noteq> None) \<and>
     (socket w = Some Connecting \<or> socket w = Some Open \<longrightarrow> tstate w \<noteq> CLOSED) \<and>
     (tstate w = CLOSED \<longrightarrow>
        receive_timer w = None \<and> unstable_timer w = None \<and> ping_timer w = None)"

text \<open>
  What is asked of the client behind \<^verbatim>\<open>oninstruction\<close>: it uses the tunnel only in ways
  that keep the invariant and the socket, and does not close it before the server's
  identifier has arrived (which the server sends first).
\<close>

definition handler_ok :: "ws_handler \<Rightarrow> bool" where
  "handler_ok h \<longleftrightarrow> keeps_socket h \<and>
     (\<forall>i w. ws_inv w \<and> socket w \<noteq> None \<longrightarrow>
        ws_inv (h i w) \<and> uuid (h i w) = uuid w \<and>
        (uuid w = None \<and> tstate w \<noteq> CLOSED \<longrightarrow> tstate (h i w) \<noteq> CLOSED))"

lemma ws_fields2 [simp]:
  "receive_timer (log_event e w) = receive_timer w" "receive_timer (set_state s w) = receive_timer w"
  "receive_timer (set_uuid u w) = receive_timer w"
  "unstable_timer (log_event e w) = unstable_timer w" "unstable_timer (set_state s w) = unstable_timer w"
  "unstable_timer (set_uuid u w) = unstable_timer w"
  "ping_timer (log_event e w) = ping_timer w" "ping_timer (set_state s w) = ping_timer w"
  "ping_timer (set_uuid u w) = ping_timer w"
  "receive_timeout_ms (clear_timers w) = receive_timeout_ms w"
  "unstable_threshold (clear_timers w) = unstable_threshold w"
  by (simp_all add: log_event_def set_state_def set_uuid_def clear_timers_def)

lemma ws_send_fields [simp]:
  "tstate (fst (ws_send es w)) = tstate w" "socket (fst (ws_send es w)) = socket w"
  "uuid (fst (ws_send es w)) = uuid w" "receive_timer (fst (ws_send es w)) = receive_timer w"
  "unstable_timer (fst (ws_send es w)) = unstable_timer w"
  "ping_timer (fst (ws_send es w)) = ping_timer w"
  by (simp_all add: ws_send_def Let_def split: option.split ready_state.split)

lemma send_ping_fst:
  "fst (send_ping now w) =
     (let r = ws_send [INTERNAL_DATA_OPCODE, js ''ping'', nat_str now] w
      in if snd r = None then (fst r)\<lparr>last_sent_ping := now\<rparr> else fst r)"
  by (simp add: send_ping_def Let_def split: prod.split option.split)

lemma send_ping_fields [simp]:
  "tstate (fst (send_ping now w)) = tstate w" "socket (fst (send_ping now w)) = socket w"
  "uuid (fst (send_ping now w)) = uuid w" "receive_timer (fst (send_ping now w)) = receive_timer w"
  "unstable_timer (fst (send_ping now w)) = unstable_timer w"
  "ping_timer (fst (send_ping now w)) = ping_timer w"
  by (simp_all add: send_ping_fst Let_def)

lemma reset_timers_fields [simp]:
  "tstate (fst (reset_timers now w)) = (if tstate w = UNSTABLE then OPEN else tstate w)"
  "socket (fst (reset_timers now w)) = socket w" "uuid (fst (reset_timers now w)) = uuid w"
  "receive_timer (fst (reset_timers now w)) = Some (now + receive_timeout_ms w)"
  by (simp_all add: reset_timers_def Let_def)

lemma ws_close_tunnel_fields:
  "tstate (fst (ws_close_tunnel st w)) = CLOSED"
  "uuid (fst (ws_close_tunnel st w)) = uuid w"
  "receive_timer (fst (ws_close_tunnel st w)) = None"
  "unstable_timer (fst (ws_close_tunnel st w)) = None"
  "ping_timer (fst (ws_close_tunnel st w)) = None"
  "tstate w \<noteq> CLOSED \<Longrightarrow> socket (fst (ws_close_tunnel st w)) \<noteq> Some Connecting"
  "tstate w \<noteq> CLOSED \<Longrightarrow> socket (fst (ws_close_tunnel st w)) \<noteq> Some Open"
  "tstate w = CLOSED \<Longrightarrow> ws_close_tunnel st w = (clear_timers w, None)"
  by (simp_all add: ws_close_tunnel_def Let_def split: option.split ready_state.split)

lemma ws_close_tunnel_inv: "ws_inv w \<Longrightarrow> ws_inv (fst (ws_close_tunnel st w))"
  by (cases "tstate w = CLOSED") (auto simp: ws_inv_def ws_close_tunnel_fields)

lemma ws_connect_inv:
  "socket w = None \<or> socket w = Some Closed \<Longrightarrow> ws_inv w \<Longrightarrow> ws_inv (fst (ws_connect now data w))"
proof -
  assume sock: "socket w = None \<or> socket w = Some Closed" and inv: "ws_inv w"
  obtain w1 e where r: "reset_timers now w = (w1, e)" by fastforce
  have f: "tstate w1 = (if tstate w = UNSTABLE then OPEN else tstate w)" "socket w1 = socket w"
    "receive_timer w1 = Some (now + receive_timeout_ms w)"
    using reset_timers_fields [of now w] r by simp_all
  have "e = None"
  proof (rule ccontr)
    assume "e \<noteq> None"
    then have "tstate w = OPEN \<or> tstate w = UNSTABLE" "socket w \<noteq> Some Closed"
      using r by (auto simp: reset_timers_def send_ping_def ws_send_def is_connected_def Let_def
          split: if_splits option.splits ready_state.splits prod.splits)
    with sock inv show False by (auto simp: ws_inv_def)
  qed
  with r f show ?thesis by (simp add: ws_connect_def ws_inv_def Let_def)
qed

lemma reset_timers_inv: "ws_inv w \<Longrightarrow> tstate w \<noteq> CLOSED \<Longrightarrow> ws_inv (fst (reset_timers now w))"
  by (simp add: ws_inv_def)

definition reading_inv :: "ws_tunnel \<Rightarrow> bool" where
  "reading_inv w \<longleftrightarrow> ws_inv w \<and> socket w \<noteq> None \<and> (uuid w = None \<longrightarrow> tstate w \<noteq> CLOSED)"

lemma ws_instruction_inv:
  assumes "handler_ok h" and "reading_inv w"
  shows "reading_inv (ws_instruction h i w)"
proof -
  define w1 where "w1 = (if uuid w = None then set_state OPEN
      (if fst i = INTERNAL_DATA_OPCODE \<and> length (snd i) = 1 then set_uuid (snd i ! 0) w else w) else w)"
  have w1: "reading_inv w1" using assms(2) by (auto simp: w1_def reading_inv_def ws_inv_def)
  then have "ws_inv (log_event e w1)" "socket (log_event e w1) \<noteq> None" for e
    by (auto simp: reading_inv_def ws_inv_def)
  with w1 assms(1) have "reading_inv (h i (log_event e w1))" for e
    unfolding handler_ok_def reading_inv_def keeps_socket_def by (metis log_event_simps(1,2))
  with w1 show ?thesis by (simp add: ws_instruction_def w1_def Let_def)
qed

lemma ws_take_element_inv:
  "handler_ok h \<Longrightarrow> reading_inv w \<Longrightarrow> reading_inv (snd (ws_take_element h msg si ee els w))"
  by (simp add: ws_take_element_def Let_def ws_instruction_inv)

text \<open>
  A length that cannot be found closes the tunnel; then either the message was a single
  fragment with no period at all, and the loop ends, or the loop is stuck.
\<close>

lemma ws_scan_length_inv:
  assumes "reading_inv w" and "si = index_start (succ_index ee)" and "ee \<noteq> NaN"
    and "ws_scan_length msg si ee w = ((si', ee', w'), e)"
  shows "e = None \<and> (reading_inv w' \<or>
    js_index_of msg dot si = -1 \<and> si' = si \<and> ee' = ee \<and> w' = fst (ws_close_tunnel incomplete_instruction w))"
proof (cases "js_index_of msg dot si = -1")
  case True
  have "socket w \<noteq> None" using assms(1) by (simp add: reading_inv_def)
  from ws_close_tunnel_socket [OF this, of incomplete_instruction] True assms show ?thesis
    by (auto simp: ws_scan_length_def Let_def split: prod.splits)
next
  case False
  with assms show ?thesis by (auto simp: ws_scan_length_def Let_def)
qed

lemma take_element_undefined: "ws_take_element h msg si Undefined els w = (els @ [substring_at msg (At si) Undefined], w)"
  by (simp add: ws_take_element_def Let_def substring_at_def js_substring_def)

lemma ws_loop_inv:
  assumes "ws_loop h msg si ee els w = Some r" and "handler_ok h" and "reading_inv w"
    and "si = index_start (succ_index ee)"
    and "ee = Undefined \<or> index_less (succ_index ee) (int (length msg))"
  shows "ws_inv (fst r)"
proof -
  let ?P = "\<lambda>h msg si ee els w r. handler_ok h \<longrightarrow>
    \<not> (stuck_at msg si ee \<and> socket w \<noteq> None) \<and>
    (reading_inv w \<and> si = index_start (succ_index ee) \<and>
       (ee = Undefined \<or> index_less (succ_index ee) (int (length msg))) \<longrightarrow> ws_inv (fst r))"
  have "?P h msg si ee els w r"
  proof (rule ws_loop.raw_induct [where P = ?P, OF _ assms(1)])
    fix loop h msg si ee els w r
    assume IH: "\<And>h msg si ee els w r. loop h msg si ee els w = Some r \<Longrightarrow> ?P h msg si ee els w r"
      and step: "ws_body loop h msg si ee els w = Some r"
    obtain si' ee' w1 e where sc: "ws_scan_length msg si ee w = ((si', ee', w1), e)"
      by (metis prod.collapse)
    obtain els2 w2 where tk: "ws_take_element h msg si' ee' els w1 = (els2, w2)" by fastforce
    show "?P h msg si ee els w r"
    proof (intro impI conjI)
      assume ok: "handler_ok h"
      then have ks: "keeps_socket h" by (simp add: handler_ok_def)
      show not_stuck: "\<not> (stuck_at msg si ee \<and> socket w \<noteq> None)"
      proof
        assume a: "stuck_at msg si ee \<and> socket w \<noteq> None"
        then obtain els' w' where
          "ws_body loop h msg si ee els w = loop h msg si ee els' w'" "socket w' \<noteq> None"
          using stuck_body [OF ks] by blast
        with IH [of h msg si ee els' w' r] step a ok show False by simp
      qed
      assume a: "reading_inv w \<and> si = index_start (succ_index ee) \<and>
        (ee = Undefined \<or> index_less (succ_index ee) (int (length msg)))"
      then have "ee \<noteq> NaN" by auto
      with a ws_scan_length_inv [OF _ _ _ sc] have e: "e = None"
        and cases: "reading_inv w1 \<or> js_index_of msg dot si = -1 \<and> si' = si \<and> ee' = ee
          \<and> w1 = fst (ws_close_tunnel incomplete_instruction w)" by blast+
      from cases show "ws_inv (fst r)"
      proof
        assume r1: "reading_inv w1"
        with ws_take_element_inv [OF ok r1, of msg si' ee' els] tk have "reading_inv w2" by simp
        moreover have "ws_inv w2" using \<open>reading_inv w2\<close> by (simp add: reading_inv_def)
        ultimately show ?thesis using step sc tk e IH ok by (auto split: if_splits)
      next
        assume n: "js_index_of msg dot si = -1 \<and> si' = si \<and> ee' = ee
          \<and> w1 = fst (ws_close_tunnel incomplete_instruction w)"
        show ?thesis
        proof (cases ee)
          case Undefined
          then have "r = (w1, None)"
            using step sc e n by (simp add: take_element_undefined)
          with n a show ?thesis by (simp add: ws_close_tunnel_inv reading_inv_def)
        next
          case (At k)
          with a n not_stuck show ?thesis by (auto simp: stuck_at_def reading_inv_def)
        qed (use a in simp)
      qed
    qed
  qed
  with assms show ?thesis by blast
qed

lemma ws_onmessage_inv:
  assumes "ws_onmessage h now msg w = Some r" and "handler_ok h" and "ws_inv w" and "socket w = Some Open"
  shows "ws_inv (fst r)"
proof -
  obtain w1 e where rt: "reset_timers now w = (w1, e)" by fastforce
  have nc: "tstate w \<noteq> CLOSED" using assms(3,4) by (auto simp: ws_inv_def)
  with reset_timers_inv [OF assms(3) nc, of now] reset_timers_fields [of now w] rt assms(4)
  have ri: "reading_inv w1" by (simp add: reading_inv_def)
  show ?thesis
  proof (cases e)
    case None
    with assms(1,2) rt ri ws_loop_inv [of h msg 0 Undefined "[]" w1 r] show ?thesis
      by (simp add: ws_onmessage_def)
  next
    case (Some x)
    with assms(1) rt ri show ?thesis by (auto simp: ws_onmessage_def reading_inv_def)
  qed
qed

lemma ws_step_inv:
  assumes "ws_step h l w w'" and "handler_ok h" and "ws_inv w"
  shows "ws_inv w'"
  using assms
proof cases
  case (step_connect now data)
  with assms(3) show ?thesis by (simp add: ws_connect_inv)
next
  case (step_open now)
  with assms(3) show ?thesis by (simp add: ws_onopen_def ws_inv_def)
next
  case (step_message now msg r)
  with assms ws_onmessage_inv show ?thesis by simp
next
  case (step_close s reason c)
  then have "ws_inv (w\<lparr>socket := Some Closed\<rparr>)" using assms(3) by (simp add: ws_inv_def)
  with step_close(2) ws_close_tunnel_inv show ?thesis by (simp add: ws_onclose_def)
next
  case (step_send es)
  with assms(3) show ?thesis by (simp add: ws_inv_def)
next
  case step_disconnect
  with assms(3) show ?thesis by (simp add: ws_disconnect_def ws_close_tunnel_inv)
next
  case (step_receive_timeout d now)
  then have nc: "tstate w \<noteq> CLOSED" using assms(3) by (auto simp: ws_inv_def)
  with ws_close_tunnel_fields(1-5) ws_close_tunnel_fields(6,7) [of "w\<lparr>receive_timer := None\<rparr>"]
    step_receive_timeout(2) show ?thesis by (simp add: ws_on_receive_timeout_def ws_inv_def)
next
  case (step_unstable d now)
  with assms(3) show ?thesis by (auto simp: ws_on_unstable_timeout_def ws_inv_def)
next
  case (step_ping d now)
  with assms(3) show ?thesis by (simp add: ws_on_ping_timeout_def ws_inv_def)
qed

lemma ws_reachable_inv: "ws_reachable h w \<Longrightarrow> handler_ok h \<Longrightarrow> ws_inv w"
proof (induction rule: ws_reachable.induct)
  case (reach_new loc url)
  then show ?case by (simp add: ws_inv_def new_ws_tunnel_def new_tunnel_def tunnel.defs)
qed (rule ws_step_inv)

lemma sent_text_log [simp]: "sent_text (log_event e t) = sent_text t @ event_text e"
  by (simp add: sent_text_def)

interpretation ws: message_tunnel
  "\<lambda>w. is_connected w \<and> socket w = Some Open" "\<lambda>es w. fst (ws_send es w)"
  "\<lambda>w. fst (ws_disconnect w)" sent_text
proof unfold_locales
  fix w :: ws_tunnel and es
  show "\<not> (is_connected (fst (ws_disconnect w)) \<and> socket (fst (ws_disconnect w)) = Some Open)"
    by (simp add: ws_disconnect_def is_connected_def ws_close_tunnel_fields)
qed (auto simp: ws_send_def Let_def is_connected_def split: option.split ready_state.split)

subsection \<open>A tunnel for examples\<close>

definition example_tunnel :: ws_tunnel where
  "example_tunnel = new_ws_tunnel
     \<lparr>protocol = js ''https:'', host = js ''host'', pathname = js ''/rac/x''\<rparr> (js ''/rac/connect/x'')"

definition open_tunnel :: ws_tunnel where
  "open_tunnel = example_tunnel\<lparr>tstate := OPEN, socket := Some Open\<rparr>"

definition quiet_handler :: ws_handler where
  "quiet_handler i w = w"

lemma handler_ok_quiet: "handler_ok quiet_handler"
  by (simp add: handler_ok_def keeps_socket_def quiet_handler_def)

lemma example_connect_reachable:
  "ws_reachable quiet_handler (fst (ws_connect 0 [] example_tunnel))"
  unfolding example_tunnel_def
  by (rule reach_step [OF reach_new step_connect])
    (simp add: new_ws_tunnel_def new_tunnel_def tunnel.defs)

lemma example_connect_state: "tstate (fst (ws_connect 0 [] example_tunnel)) = CONNECTING"
  by (simp add: ws_connect_def reset_timers_def send_ping_def ws_send_def is_connected_def Let_def
      clear_timers_def example_tunnel_def new_ws_tunnel_def new_tunnel_def tunnel.defs PING_FREQUENCY_def)

lemmas example_defs = open_tunnel_def example_tunnel_def new_ws_tunnel_def new_tunnel_def tunnel.defs

subsection \<open>Properties of the WebSocket tunnel\<close>

lemma reset_timers_open:
  assumes "socket w = Some Open"
  shows "snd (reset_timers now w) = None"
  using assms
  by (simp add: reset_timers_def send_ping_def ws_send_def Let_def)

lemma ws_onmessage_open:
  assumes "socket w = Some Open"
  shows "ws_onmessage h now msg w = ws_loop h msg 0 Undefined [] (fst (reset_timers now w))"
  using reset_timers_open [OF assms, of now]
  by (cases "reset_timers now w") (simp add: ws_onmessage_def)

text \<open>
  (C6) A WebSocket message that holds whole instructions, of any content, is read to its end:
  the reading stops, throws nothing, and has the effect of handling those instructions one by
  one in order. This holds for every client behind \<^verbatim>\<open>oninstruction\<close>, one that sends or
  disconnects while it handles an instruction included.
\<close>

theorem ws_message_delivered:
  assumes "socket w = Some Open" and "is \<noteq> []"
  shows "ws_onmessage h now (concat (map encode_instruction is)) w =
    Some (fold (ws_instruction h) is (fst (reset_timers now w)), None)"
  using ws_loop_instructions [OF _ assms(2), of "[]" Undefined h "[]" "fst (reset_timers now w)"]
  by (simp add: ws_onmessage_open [OF assms(1)] at_boundary_def)

theorem ws_message_delivered_witness:
  "ws_onmessage quiet_handler 7 (concat (map encode_instruction [(js ''nop'', []), (js ''name'', [js ''a;'']) ]))
     open_tunnel =
   Some (fold (ws_instruction quiet_handler) [(js ''nop'', []), (js ''name'', [js ''a;'']) ]
     (fst (reset_timers 7 open_tunnel)), None)"
  by (rule ws_message_delivered) (simp_all add: open_tunnel_def)

text \<open>
  A message that ends in text without a period after a whole instruction is never read
  to its end: the tunnel is closed with the error for an incomplete instruction, but the loop
  goes on, finds no period again, and keeps its position for ever.
\<close>

theorem ws_trailing_text_hangs:
  assumes "socket w = Some Open" and "keeps_socket h"
    and "is \<noteq> []" and "t \<noteq> []" and "dot \<notin> set t"
  shows "ws_onmessage h now (concat (map encode_instruction is) @ t) w = None"
proof -
  let ?m = "concat (map encode_instruction is)"
  let ?w = "fold (ws_instruction h) is (fst (reset_timers now w))"
  have "socket (fold (ws_instruction h) is v) \<noteq> None" if "socket v \<noteq> None" for v
    using that by (induction "is" arbitrary: v)
      (simp_all add: ws_instruction_socket [OF assms(2)] del: not_None_eq)
  then have "socket ?w \<noteq> None" using assms(1) by simp
  moreover have "stuck_at (?m @ t) (int (length ?m)) (At (int (length ?m) - 1))"
    using assms(4,5) by (simp add: stuck_at_def js_index_of_none)
  ultimately have "ws_loop h (?m @ t) (int (length ?m)) (At (int (length ?m) - 1)) [] ?w = None"
    using ws_loop_stuck assms(2) by (metis not_None_eq)
  then show ?thesis
    using ws_loop_instructions [OF _ assms(3), of "[]" Undefined h t "fst (reset_timers now w)"] assms(4)
    by (simp add: ws_onmessage_open [OF assms(1)] at_boundary_def Let_def)
qed

theorem ws_trailing_text_hangs_witness:
  "ws_onmessage quiet_handler 7 (concat (map encode_instruction [(js ''nop'', [])]) @ [120]) open_tunnel = None"
  by (rule ws_trailing_text_hangs) (simp_all add: open_tunnel_def keeps_socket_def quiet_handler_def)





text \<open>
  \<^verbatim>\<open>UNSTABLE\<close> is documented as an open connection that is disturbed, but the timer that
  sets it runs during the handshake too: if the socket needs longer than the threshold to
  connect, the tunnel counts as connected while its socket is still connecting, and a send
  throws.
\<close>

theorem ws_slow_handshake_unstable:
  "let w1 = fst (ws_connect now data (new_ws_tunnel loc url)); w2 = ws_on_unstable_timeout w1
   in tstate w1 = CONNECTING \<and> unstable_timer w1 = Some (now + 1500) \<and>
      is_connected w2 \<and> socket w2 = Some Connecting \<and>
      snd (ws_send (e # es) w2) = Some Invalid_state"
proof -
  let ?w0 = "new_ws_tunnel loc url"
  have "unstable_timer (fst (reset_timers now ?w0)) = Some (now + unstable_threshold ?w0)"
    "snd (reset_timers now ?w0) = None"
    by (simp_all add: reset_timers_def Let_def send_ping_def ws_send_def is_connected_def
        new_ws_tunnel_def new_tunnel_def tunnel.defs clear_timers_def)
  then show ?thesis
    using reset_timers_fields [of now ?w0]
    by (cases "reset_timers now ?w0") (simp add: ws_connect_def Let_def ws_on_unstable_timeout_def
        is_connected_def ws_send_def new_ws_tunnel_def new_tunnel_def tunnel.defs)
qed

text \<open>
  (C9) What a connected WebSocket tunnel puts on the wire is what it was asked to send: the
  protocol parser, reading the text of the socket in whatever packets, recovers exactly the
  instructions passed to \<^verbatim>\<open>sendMessage\<close>; after a disconnect the same calls do nothing.
\<close>

theorem ws_sends_are_parsed:
  assumes "is_connected w" and "socket w = Some Open" and "sent_text w = []"
    and "concat packets = sent_text (fold (\<lambda>i w. fst (ws_send (fst i # snd i) w)) is w)"
  shows "(\<exists>p. receive_all packets new_parser = (p, is, None) \<and> abs_parser p = ([], Need_length []))
    \<and> fold (\<lambda>i w. fst (ws_send (fst i # snd i) w)) is (fst (ws_disconnect w)) = fst (ws_disconnect w)"
  using ws.send_all_parsed [of w packets "is"] ws.silent_after_disconnect [of "is" w] assms
  by (simp add: ws.send_all_def)

theorem ws_sends_are_parsed_witness:
  "(\<exists>p. receive_all [js ''3.'', js ''nop;''] new_parser = (p, [(js ''nop'', [])], None)
      \<and> abs_parser p = ([], Need_length []))
   \<and> fold (\<lambda>i w. fst (ws_send (fst i # snd i) w)) [(js ''nop'', [])] (fst (ws_disconnect open_tunnel))
     = fst (ws_disconnect open_tunnel)"
  by (rule ws_sends_are_parsed)
    (simp_all add: example_defs is_connected_def sent_text_def ws_send_def js_eval log_event_def)

end
