(* ===== verification/Guac_Utf8.thy ===== *)
theory Guac_Utf8
  imports Guac_Prelude
begin

unbundle bit_operations_syntax

section \<open>UTF-8: Guacamole.UTF8Parser and the encoder of Guacamole.StringWriter\<close>

text \<open>
  \<open>utf8_parser\<close> with \<open>decode\<close> is \<^verbatim>\<open>Guacamole.UTF8Parser\<close>; its state outlives a buffer,
  so a character may be cut between two buffers. \<open>string_writer\<close> is the growing byte
  buffer of \<^verbatim>\<open>Guacamole.StringWriter\<close> with \<open>expand\<close>, \<open>append_utf8\<close> and
  \<open>encode_utf8\<close>. The reference encoder is \<open>utf8_bytes\<close>; the buffer of the writer is
  shown to hold exactly its output. The interface of an incremental decoder is the locale
  \<open>stream_decoder\<close>.
\<close>

subsection \<open>Incremental decoders\<close>

text \<open>
  A decoder takes a buffer and returns its new state and the output; \<open>feed_all\<close> hands it
  one buffer after the other and joins the outputs.
\<close>

fun feed_all :: "('s \<Rightarrow> 'i list \<Rightarrow> 's \<times> 'o list) \<Rightarrow> 's \<Rightarrow> 'i list list \<Rightarrow> 's \<times> 'o list" where
  "feed_all feed s [] = (s, [])"
| "feed_all feed s (x # xs) =
     (case feed s x of (s1, o1) \<Rightarrow> case feed_all feed s1 xs of (s2, o2) \<Rightarrow> (s2, o1 @ o2))"

locale stream_decoder =
  fixes feed :: "'s \<Rightarrow> 'i list \<Rightarrow> 's \<times> 'o list"
  assumes feed_Nil: "feed s [] = (s, [])"
    and feed_append: "feed s (x @ y) =
      (case feed s x of (s1, o1) \<Rightarrow> case feed s1 y of (s2, o2) \<Rightarrow> (s2, o1 @ o2))"
begin

lemma feed_all_concat: "feed_all feed s xs = feed s (concat xs)"
  by (induction xs arbitrary: s) (auto simp: feed_Nil feed_append split: prod.splits)

end

subsection \<open>Decoding\<close>

record utf8_parser =
  bytesRemaining :: nat
  codepoint :: nat

definition new_utf8_parser :: utf8_parser where
  "new_utf8_parser = \<lparr>bytesRemaining = 0, codepoint = 0\<rparr>"

definition from_char_code :: "nat \<Rightarrow> jsstring" where
  "from_char_code c = [c mod 65536]"

definition decode_byte :: "utf8_parser \<Rightarrow> nat \<Rightarrow> utf8_parser \<times> jsstring" where
  "decode_byte s v =
     (if bytesRemaining s = 0 then
        (if v OR 0x7F = 0x7F then (s, from_char_code v)
         else if v OR 0x1F = 0xDF then (s\<lparr>codepoint := v AND 0x1F, bytesRemaining := 1\<rparr>, [])
         else if v OR 0x0F = 0xEF then (s\<lparr>codepoint := v AND 0x0F, bytesRemaining := 2\<rparr>, [])
         else if v OR 0x07 = 0xF7 then (s\<lparr>codepoint := v AND 0x07, bytesRemaining := 3\<rparr>, [])
         else (s, [0xFFFD]))
      else if v OR 0x3F = 0xBF then
        (let s' = s\<lparr>codepoint := push_bit 6 (codepoint s) OR (v AND 0x3F),
                    bytesRemaining := bytesRemaining s - 1\<rparr>
         in (s', if bytesRemaining s' = 0 then from_char_code (codepoint s') else []))
      else (s\<lparr>bytesRemaining := 0\<rparr>, [0xFFFD]))"

fun decode :: "utf8_parser \<Rightarrow> nat list \<Rightarrow> utf8_parser \<times> jsstring" where
  "decode s [] = (s, [])"
| "decode s (v # vs) =
     (case decode_byte s v of (s1, t1) \<Rightarrow> case decode s1 vs of (s2, t2) \<Rightarrow> (s2, t1 @ t2))"

interpretation u8: stream_decoder decode
proof (unfold_locales, goal_cases)
  case (1 s)
  show ?case by simp
next
  case (2 s x y)
  show ?case by (induction x arbitrary: s) (auto split: prod.splits)
qed

subsection \<open>Encoding\<close>

record string_writer =
  sw_buffer :: "nat list"
  sw_length :: nat

definition new_string_writer :: string_writer where
  "new_string_writer = \<lparr>sw_buffer = replicate 8192 0, sw_length = 0\<rparr>"

definition expand :: "nat \<Rightarrow> string_writer \<Rightarrow> string_writer" where
  "expand bytes w =
     (let w' = (if sw_length w + bytes \<ge> length (sw_buffer w)
                then w\<lparr>sw_buffer := sw_buffer w @
                        replicate ((sw_length w + bytes) * 2 - length (sw_buffer w)) 0\<rparr>
                else w)
      in w'\<lparr>sw_length := sw_length w + bytes\<rparr>)"

text \<open>The trailing bytes are stored from the last offset down; a byte array keeps 8 bits.\<close>

fun store_trailing :: "nat \<Rightarrow> nat \<Rightarrow> nat \<Rightarrow> nat list \<Rightarrow> nat list \<times> nat \<times> nat" where
  "store_trailing 0 off cp buf = (buf, off, cp)"
| "store_trailing (Suc i) off cp buf =
     store_trailing i (off - 1) (drop_bit 6 cp) (buf[off := (0x80 OR (cp AND 0x3F)) mod 256])"

definition store_codepoint :: "nat \<Rightarrow> nat \<Rightarrow> nat \<Rightarrow> string_writer \<Rightarrow> string_writer" where
  "store_codepoint mask_byte bytes cp w =
     (let w1 = expand bytes w;
          (buf, off, c) = store_trailing (bytes - 1) (sw_length w1 - 1) cp (sw_buffer w1)
      in w1\<lparr>sw_buffer := buf[off := (mask_byte OR c) mod 256]\<rparr>)"

function append_utf8 :: "nat \<Rightarrow> string_writer \<Rightarrow> string_writer" where
  "append_utf8 cp w =
     (if cp \<le> 0x7F then store_codepoint 0x00 1 cp w
      else if cp \<le> 0x7FF then store_codepoint 0xC0 2 cp w
      else if cp \<le> 0xFFFF then store_codepoint 0xE0 3 cp w
      else if cp \<le> 0x1FFFFF then store_codepoint 0xF0 4 cp w
      else append_utf8 0xFFFD w)"
  by pat_completeness auto
termination
  by (relation "measure (\<lambda>(cp, w). if cp \<le> 0x1FFFFF then 0 else 1)") auto

declare append_utf8.simps [simp del]

definition encode_utf8 :: "jsstring \<Rightarrow> string_writer \<Rightarrow> nat list option \<times> string_writer" where
  "encode_utf8 str w =
     (let w1 = fold append_utf8 str w
      in if sw_length w1 > 0
         then (Some (take (sw_length w1) (sw_buffer w1)), w1\<lparr>sw_length := 0\<rparr>)
         else (None, w1))"

text \<open>The reference encoder: the bytes of one code unit, written down directly.\<close>

definition utf8_bytes :: "nat \<Rightarrow> nat list" where
  "utf8_bytes u =
     (if u < 0x80 then [u]
      else if u < 0x800 then [192 + u div 64, 128 + u mod 64]
      else [224 + u div 4096, 128 + u div 64 mod 64, 128 + u mod 64])"

subsection \<open>Bit operations on disjoint fields are additions\<close>

lemma push_bit_or_low:
  fixes x y :: nat
  assumes "y < 2 ^ k"
  shows "push_bit k x OR y = x * 2 ^ k + y"
proof -
  have "push_bit k x AND take_bit k y = 0"
    by (rule bit_eqI) (auto simp: bit_simps)
  then have "push_bit k x AND y = 0" using assms by (simp add: take_bit_nat_eq_self)
  then have "push_bit k x + y = push_bit k x OR y" by (rule disjunctive_add_eq_or)
  then show ?thesis by (simp add: push_bit_nat_def)
qed

lemma or_low_mask:
  fixes v :: nat
  shows "v OR mask k = v div 2 ^ k * 2 ^ k + (2 ^ k - 1)"
proof -
  have "v OR mask k = push_bit k (drop_bit k v) OR mask k"
    by (rule bit_eqI) (auto simp: bit_simps)
  also have "\<dots> = v div 2 ^ k * 2 ^ k + (2 ^ k - 1)"
    by (subst push_bit_or_low) (simp_all add: mask_eq_exp_minus_1 drop_bit_nat_def)
  finally show ?thesis .
qed

lemma and_low_mask:
  fixes v :: nat
  shows "v AND mask k = v mod 2 ^ k"
  by (simp add: take_bit_eq_mask [symmetric] take_bit_nat_def)

lemma or_masks:
  fixes v :: nat
  shows "v OR 0x7F = v div 128 * 128 + 127" "v OR 0x3F = v div 64 * 64 + 63"
    "v OR 0x1F = v div 32 * 32 + 31" "v OR 0x0F = v div 16 * 16 + 15"
    "v OR 0x07 = v div 8 * 8 + 7"
  using or_low_mask [of v 7] or_low_mask [of v 6] or_low_mask [of v 5] or_low_mask [of v 4]
    or_low_mask [of v 3]
  by (simp_all add: mask_eq_exp_minus_1)

lemma and_masks:
  fixes v :: nat
  shows "v AND 0x3F = v mod 64" "v AND 0x1F = v mod 32" "v AND 0x0F = v mod 16"
    "v AND 0x07 = v mod 8"
  using and_low_mask [of v 6] and_low_mask [of v 5] and_low_mask [of v 4] and_low_mask [of v 3]
  by (simp_all add: mask_eq_exp_minus_1)

lemma or_leading:
  fixes c :: nat
  shows "c < 64 \<Longrightarrow> 0x80 OR c = 128 + c" "c < 32 \<Longrightarrow> 0xC0 OR c = 192 + c"
    "c < 16 \<Longrightarrow> 0xE0 OR c = 224 + c" "c < 8 \<Longrightarrow> 0xF0 OR c = 240 + c" "0 OR c = c"
  using push_bit_or_low [of c 6 2] push_bit_or_low [of c 5 6] push_bit_or_low [of c 4 14]
    push_bit_or_low [of c 3 30]
  by (simp_all add: push_bit_nat_def)

lemma push_6_or: "c < 64 \<Longrightarrow> push_bit 6 x OR c = x * 64 + (c::nat)"
  using push_bit_or_low [of c 6 x] by simp

text \<open>The decoder's byte classes as ranges, and its steps on them.\<close>

lemma lead_fields:
  fixes d :: nat
  shows "d < 64 \<Longrightarrow> (128 + d) div 64 = 2 \<and> (128 + d) mod 64 = d"
    and "d < 32 \<Longrightarrow> (192 + d) div 32 = 6 \<and> (192 + d) div 128 = 1 \<and> (192 + d) mod 32 = d"
    and "d < 16 \<Longrightarrow> (224 + d) div 16 = 14 \<and> (224 + d) div 32 = 7 \<and> (224 + d) div 128 = 1
      \<and> (224 + d) mod 16 = d"
    and "d < 8 \<Longrightarrow> (240 + d) div 8 = 30 \<and> (240 + d) div 16 = 15 \<and> (240 + d) div 32 = 7
      \<and> (240 + d) div 128 = 1 \<and> (240 + d) mod 8 = d"
  by (auto intro!: div_nat_eqI mod_nat_eqI)

lemma decode_byte_start:
  assumes "bytesRemaining s = 0"
  shows "v < 128 \<Longrightarrow> decode_byte s v = (s, [v])"
    and "d < 32 \<Longrightarrow> decode_byte s (192 + d) = (s\<lparr>codepoint := d, bytesRemaining := 1\<rparr>, [])"
    and "d < 16 \<Longrightarrow> decode_byte s (224 + d) = (s\<lparr>codepoint := d, bytesRemaining := 2\<rparr>, [])"
    and "d < 8 \<Longrightarrow> decode_byte s (240 + d) = (s\<lparr>codepoint := d, bytesRemaining := 3\<rparr>, [])"
  using assms lead_fields [of d]
  by (simp_all add: decode_byte_def or_masks and_masks from_char_code_def)

lemma decode_byte_continue:
  assumes "bytesRemaining s = Suc n" and "d < 64"
  shows "decode_byte s (128 + d) =
    (s\<lparr>codepoint := codepoint s * 64 + d, bytesRemaining := n\<rparr>,
     if n = 0 then [(codepoint s * 64 + d) mod 65536] else [])"
  using assms lead_fields(1) [of d]
  by (simp add: decode_byte_def or_masks and_masks push_6_or from_char_code_def Let_def)

lemma decode_utf8_bytes:
  assumes "bytesRemaining s = 0" and "u < 65536"
  shows "\<exists>s'. decode s (utf8_bytes u) = (s', [u]) \<and> bytesRemaining s' = 0"
proof -
  consider "u < 0x80" | "0x80 \<le> u" "u < 0x800" | "0x800 \<le> u" by linarith
  then show ?thesis
  proof cases
    case 1
    with assms show ?thesis by (simp add: utf8_bytes_def decode_byte_start)
  next
    case 2
    then have "u div 64 < 32" "u mod 64 < 64" by auto
    with 2 assms show ?thesis
      by (simp add: utf8_bytes_def decode_byte_start decode_byte_continue [where n = 0])
  next
    case 3
    then have "u div 4096 < 16" "u div 64 mod 64 < 64" "u mod 64 < 64"
      using assms(2) by auto
    moreover have "(u div 4096 * 64 + u div 64 mod 64) * 64 + u mod 64 = u"
      using div_mult2_eq [of u 64 64] by (simp add: mod_mult2_eq)
    ultimately show ?thesis
      using 3 assms
      by (simp add: utf8_bytes_def decode_byte_start decode_byte_continue [where n = "Suc 0"]
          decode_byte_continue [where n = 0])
  qed
qed

lemma decode_utf8_string:
  assumes "bytesRemaining s = 0" and "js_wf str"
  shows "\<exists>s'. decode s (concat (map utf8_bytes str)) = (s', str) \<and> bytesRemaining s' = 0"
  using assms
proof (induction str arbitrary: s)
  case (Cons u us)
  from decode_utf8_bytes [OF Cons.prems(1)] Cons.prems(2) obtain s1 where
    s1: "decode s (utf8_bytes u) = (s1, [u])" "bytesRemaining s1 = 0" by auto
  from Cons.IH [OF s1(2)] Cons.prems(2) obtain s2 where
    "decode s1 (concat (map utf8_bytes us)) = (s2, us)" "bytesRemaining s2 = 0" by auto
  with s1 show ?case by (simp add: u8.feed_append)
qed simp

subsection \<open>The writer's buffer holds the reference encoding\<close>

definition sw_inv :: "string_writer \<Rightarrow> bool" where
  "sw_inv w \<longleftrightarrow> sw_length w \<le> length (sw_buffer w)"

definition sw_bytes :: "string_writer \<Rightarrow> nat list" where
  "sw_bytes w = take (sw_length w) (sw_buffer w)"

lemma expand_facts:
  assumes "sw_inv w"
  shows "sw_length (expand b w) = sw_length w + b"
    and "sw_length w + b \<le> length (sw_buffer (expand b w))"
    and "take (sw_length w) (sw_buffer (expand b w)) = sw_bytes w"
  using assms by (auto simp: expand_def sw_inv_def sw_bytes_def Let_def)

lemma take_overwrite:
  "l < length b \<Longrightarrow> take (Suc l) (b[l := x]) = take l b @ [x]"
  "Suc l < length b \<Longrightarrow> take (Suc (Suc l)) (b[Suc l := y, l := x]) = take l b @ [x, y]"
  "Suc (Suc l) < length b \<Longrightarrow>
   take (Suc (Suc (Suc l))) (b[Suc (Suc l) := z, Suc l := y, l := x]) = take l b @ [x, y, z]"
  by (simp_all add: take_Suc_conv_app_nth)

lemma store_trailing_2:
  "store_trailing 2 off cp buf = store_trailing 1 (off - 1) (drop_bit 6 cp)
     (buf[off := (0x80 OR (cp AND 0x3F)) mod 256])"
  by (simp add: numeral_2_eq_2)

lemma drop_bit_6: "drop_bit 6 (u :: nat) = u div 64"
  by (simp add: drop_bit_nat_def)

lemma append_utf8_bytes:
  assumes inv: "sw_inv w" and u: "u < 65536"
  shows "sw_inv (append_utf8 u w) \<and> sw_bytes (append_utf8 u w) = sw_bytes w @ utf8_bytes u"
proof -
  note ex = expand_facts [OF inv]
  note defs = append_utf8.simps [of u w] store_codepoint_def sw_inv_def sw_bytes_def Let_def
    utf8_bytes_def drop_bit_6 and_masks or_leading store_trailing_2 numeral_3_eq_3 Suc_le_eq
    take_overwrite
  consider "u < 0x80" | "0x80 \<le> u" "u < 0x800" | "0x800 \<le> u" by linarith
  then show ?thesis
  proof cases
    case 1
    with ex [of 1] show ?thesis by (simp add: defs)
  next
    case 2
    then have "u div 64 < 32" by auto
    with 2 ex [of 2] show ?thesis by (simp add: defs)
  next
    case 3
    have "u div 64 div 64 < 16" using u by auto
    with 3 u ex [of 3] show ?thesis by (simp add: defs div_mult2_eq [symmetric])
  qed
qed

lemma fold_append_utf8:
  assumes "sw_inv w" and "js_wf str"
  shows "sw_inv (fold append_utf8 str w)
    \<and> sw_bytes (fold append_utf8 str w) = sw_bytes w @ concat (map utf8_bytes str)"
  using assms by (induction str arbitrary: w) (auto simp: append_utf8_bytes)

text \<open>Between calls the writer's length is 0.\<close>

lemma encode_utf8_bytes:
  assumes "sw_inv w" and "sw_length w = 0" and "js_wf str" and "str \<noteq> []"
  shows "\<exists>w'. encode_utf8 str w = (Some (concat (map utf8_bytes str)), w')
    \<and> sw_inv w' \<and> sw_length w' = 0"
proof -
  let ?w = "fold append_utf8 str w"
  have f: "sw_inv ?w" "sw_bytes ?w = concat (map utf8_bytes str)"
    using fold_append_utf8 [OF assms(1,3)] assms(2) by (auto simp: sw_bytes_def)
  have "concat (map utf8_bytes str) \<noteq> []"
    using assms(4) by (cases str) (auto simp: utf8_bytes_def)
  with f(2) have "sw_length ?w > 0" by (cases "sw_length ?w") (simp_all add: sw_bytes_def)
  with f show ?thesis by (auto simp: encode_utf8_def sw_inv_def sw_bytes_def Let_def)
qed

lemma new_string_writer_inv: "sw_inv new_string_writer" "sw_length new_string_writer = 0"
  by (simp_all add: sw_inv_def new_string_writer_def)

subsection \<open>Properties of the codec\<close>

text \<open>
  (C3) Encoding with the string writer and decoding with the UTF-8 parser is the identity on
  every JavaScript string, surrogates included, wherever the bytes are cut into buffers; the
  decoder ends between characters. The writer's growing buffer is transparent: it loses and
  adds nothing, for strings of any length.
\<close>

theorem utf8_codec_round_trip:
  assumes "js_wf str" and "str \<noteq> []"
    and "encode_utf8 str new_string_writer = (Some bytes, w)" and "concat bufs = bytes"
  shows "\<exists>s. feed_all decode new_utf8_parser bufs = (s, str) \<and> bytesRemaining s = 0"
proof -
  from encode_utf8_bytes [OF new_string_writer_inv assms(1,2)] assms(3)
  have "bytes = concat (map utf8_bytes str)" by auto
  with decode_utf8_string [of new_utf8_parser, OF _ assms(1)] assms(4) show ?thesis
    by (simp add: u8.feed_all_concat new_utf8_parser_def)
qed

theorem utf8_codec_round_trip_witness:
  "\<exists>s. feed_all decode new_utf8_parser [[0x61, 0xE2], [], [0x82, 0xAC, 0xED, 0xA0], [0xBD]]
     = (s, [0x61, 0x20AC, 0xD83D]) \<and> bytesRemaining s = 0"
proof -
  have wf: "js_wf [0x61, 0x20AC, 0xD83D]" by simp
  obtain w where enc: "encode_utf8 [0x61, 0x20AC, 0xD83D] new_string_writer =
      (Some (concat (map utf8_bytes [0x61, 0x20AC, 0xD83D])), w)"
    using encode_utf8_bytes [OF new_string_writer_inv wf] by auto
  show ?thesis
    by (rule utf8_codec_round_trip [OF wf _ enc]) (simp_all add: utf8_bytes_def)
qed

text \<open>
  The decoder handles the four-byte form only up to its last step: a well-formed encoding of
  a character beyond the Basic Multilingual Plane comes out as one code unit, the code point
  reduced modulo 65536, instead of the surrogate pair, because the code point is passed to
  \<^verbatim>\<open>String.fromCharCode\<close>.
\<close>

theorem decode_truncates_astral:
  fixes cp :: nat
  assumes "0x10000 \<le> cp" and "cp \<le> 0x10FFFF"
  shows "\<exists>s. decode new_utf8_parser
      [240 + cp div 262144, 128 + cp div 4096 mod 64, 128 + cp div 64 mod 64, 128 + cp mod 64]
    = (s, [cp mod 65536])"
proof -
  have "cp div 262144 < 8" "cp div 4096 mod 64 < 64" "cp div 64 mod 64 < 64" "cp mod 64 < 64"
    using assms by auto
  moreover have fields: "cp div 4096 = cp div 64 div 64" "cp div 262144 = cp div 64 div 64 div 64"
    by (simp_all add: div_mult2_eq [symmetric])
  moreover have "((cp div 262144 * 64 + cp div 4096 mod 64) * 64 + cp div 64 mod 64) * 64 + cp mod 64 = cp"
    by (simp only: fields div_mult_mod_eq)
  ultimately show ?thesis
    by (simp add: decode_byte_start decode_byte_continue [where n = 2]
        decode_byte_continue [where n = 1] decode_byte_continue [where n = 0] new_utf8_parser_def)
qed

theorem decode_truncates_astral_witness:
  "\<exists>s. decode new_utf8_parser [0xF0, 0x9F, 0x98, 0x80] = (s, [0xF600])"
  using decode_truncates_astral [of "0x1F600"] by simp

end
