(* ===== verification/Guac_Http.thy ===== *)
theory Guac_Http
  imports Guac_Tunnel Guac_Utf8
begin

section \<open>Guacamole.HTTPTunnel\<close>

text \<open>
  The HTTP tunnel sends by \<^verbatim>\<open>POST\<close> requests, one at a time, and reads the text of
  overlapping \<^verbatim>\<open>GET\<close> requests. It is the record \<open>http_tunnel\<close>; \<open>response_reader\<close> holds the
  variables of one call of \<^verbatim>\<open>handleResponse\<close> (\<open>interval\<close> is set for good once the timer was
  created, \<open>interval_running\<close> says whether it still fires). An \<^verbatim>\<open>XMLHttpRequest\<close> is what the code can read
  of it at one moment, the record \<open>xhr\<close>; reading its status or text does not throw, so the
  two \<^verbatim>\<open>catch\<close> branches of the code are not taken. Request headers and credentials carry no
  logic and are left out, except the session token. The instructions that one run of the
  parse loop finds are handed to \<^verbatim>\<open>oninstruction\<close> (the parameter \<open>h\<close>) in order; the loop
  itself works on a snapshot of the text, so it is a function of that snapshot.
\<close>

record xhr =
  ready :: nat
  http_status :: int
  status_text :: jsstring
  response_text :: jsstring
  status_header :: "jsstring option"
  error_header :: "jsstring option"
  token_header :: "jsstring option"

record http_tunnel = tunnel +
  base_url :: jsstring
  polling :: bool
  sending_messages :: bool
  output_buffer :: jsstring
  http_receive_timer :: "nat option"
  http_unstable_timer :: "nat option"
  ping_interval :: bool
  session_token :: "jsstring option"
  request_id :: nat

type_synonym http_handler = "instruction \<Rightarrow> http_tunnel \<Rightarrow> http_tunnel"

definition new_http_tunnel :: "jsstring \<Rightarrow> http_tunnel" where
  "new_http_tunnel url = tunnel.extend new_tunnel
     \<lparr>base_url = url, polling = True, sending_messages = False, output_buffer = [],
      http_receive_timer = None, http_unstable_timer = None, ping_interval = False,
      session_token = None, request_id = 0\<rparr>"

text \<open>\<^verbatim>\<open>null\<close> concatenates as \<^verbatim>\<open>null\<close>.\<close>

definition uuid_text :: "'a tunnel_scheme \<Rightarrow> jsstring" where
  "uuid_text t = (case uuid t of None \<Rightarrow> js ''null'' | Some u \<Rightarrow> u)"

definition TUNNEL_CONNECT :: "http_tunnel \<Rightarrow> jsstring" where
  "TUNNEL_CONNECT t = base_url t @ js ''?connect''"

definition TUNNEL_READ :: "http_tunnel \<Rightarrow> jsstring" where
  "TUNNEL_READ t = base_url t @ js ''?read:''"

definition TUNNEL_WRITE :: "http_tunnel \<Rightarrow> jsstring" where
  "TUNNEL_WRITE t = base_url t @ js ''?write:''"

subsection \<open>Timers and closing\<close>

definition http_clear_timers :: "http_tunnel \<Rightarrow> http_tunnel" where
  "http_clear_timers t = t\<lparr>http_receive_timer := None, http_unstable_timer := None\<rparr>"

definition http_reset_timers :: "nat \<Rightarrow> http_tunnel \<Rightarrow> http_tunnel" where
  "http_reset_timers now t =
     (let t1 = http_clear_timers t;
          t2 = (if tstate t1 = UNSTABLE then set_state OPEN t1 else t1)
      in t2\<lparr>http_receive_timer := Some (now + receive_timeout_ms t2),
            http_unstable_timer := Some (now + unstable_threshold t2)\<rparr>)"

definition http_close_tunnel :: "status \<Rightarrow> http_tunnel \<Rightarrow> http_tunnel" where
  "http_close_tunnel st t =
     (let t = (http_clear_timers t)\<lparr>ping_interval := False\<rparr>
      in if tstate t = CLOSED then t
         else
           (let t1 = (if code st \<noteq> Some (status_code SUCCESS)
                         \<and> (tstate t = CONNECTING \<or> code st \<noteq> Some (status_code RESOURCE_NOT_FOUND))
                      then log_event (Onerror st) t else t)
            in set_state CLOSED (t1\<lparr>sending_messages := False\<rparr>)))"

definition http_disconnect :: "http_tunnel \<Rightarrow> http_tunnel" where
  "http_disconnect t = http_close_tunnel (named_status SUCCESS (Some (js ''Manually closed.''))) t"

definition http_on_receive_timeout :: "http_tunnel \<Rightarrow> http_tunnel" where
  "http_on_receive_timeout t =
     http_close_tunnel (named_status UPSTREAM_TIMEOUT (Some (js ''Server timeout.'')))
       (t\<lparr>http_receive_timer := None\<rparr>)"

definition http_on_unstable_timeout :: "http_tunnel \<Rightarrow> http_tunnel" where
  "http_on_unstable_timeout t = set_state UNSTABLE (t\<lparr>http_unstable_timer := None\<rparr>)"

text \<open>A code of 0 or \<^verbatim>\<open>NaN\<close> is falsy; a missing header reads as \<^verbatim>\<open>null\<close>, which is \<^verbatim>\<open>NaN\<close>.\<close>

definition handle_http_error :: "xhr \<Rightarrow> http_tunnel \<Rightarrow> http_tunnel" where
  "handle_http_error x t =
     (let c = (case status_header x of None \<Rightarrow> None | Some s \<Rightarrow> parse_int s)
      in if c \<noteq> None \<and> c \<noteq> Some 0 then http_close_tunnel (new_status c (error_header x)) t
         else if http_status x \<noteq> 0
         then http_close_tunnel (named_status (from_http_code (http_status x)) (Some (status_text x))) t
         else http_close_tunnel (named_status UPSTREAM_NOT_FOUND None) t)"

subsection \<open>Sending\<close>

definition send_pending_messages :: "http_tunnel \<Rightarrow> http_tunnel" where
  "send_pending_messages t =
     (if \<not> is_connected t then t
      else if length (output_buffer t) > 0 then
        log_event (Post_write (TUNNEL_WRITE t @ uuid_text t) (output_buffer t))
          (t\<lparr>sending_messages := True, output_buffer := []\<rparr>)
      else t\<lparr>sending_messages := False\<rparr>)"

definition http_send :: "jsstring list \<Rightarrow> http_tunnel \<Rightarrow> http_tunnel" where
  "http_send elements t =
     (if \<not> is_connected t then t
      else if length elements = 0 then t
      else
        (let t1 = t\<lparr>output_buffer := output_buffer t @ encode_message elements\<rparr>
         in if \<not> sending_messages t1 then send_pending_messages t1 else t1))"

definition on_write_response :: "nat \<Rightarrow> xhr \<Rightarrow> http_tunnel \<Rightarrow> http_tunnel" where
  "on_write_response now x t =
     (if ready x = 4 then
        (let t1 = http_reset_timers now t
         in if http_status x \<noteq> 200 then handle_http_error x t1 else send_pending_messages t1)
      else t)"

definition http_on_ping :: "http_tunnel \<Rightarrow> http_tunnel" where
  "http_on_ping t = http_send [js ''nop''] t"

subsection \<open>Reading\<close>

definition make_request :: "http_tunnel \<Rightarrow> nat \<times> http_tunnel" where
  "make_request t =
     (request_id t,
      log_event (Get_read (TUNNEL_READ t @ uuid_text t @ js '':'' @ nat_str (request_id t)))
        (t\<lparr>request_id := request_id t + 1\<rparr>))"

record response_reader =
  request :: nat
  interval :: bool
  interval_running :: bool
  next_request :: "nat option"
  data_updates :: nat
  parse_only :: bool
  attached :: bool
  scan_end :: jsnum
  scan_start :: int
  scan_elements :: "jsstring list"

definition new_reader :: "nat \<Rightarrow> response_reader" where
  "new_reader n = \<lparr>request = n, interval = False, interval_running = False, next_request = None, data_updates = 0,
     parse_only = False, attached = True, scan_end = Some (-1), scan_start = 0, scan_elements = []\<rparr>"

type_synonym scan_state = "jsnum \<times> int \<times> jsstring list"

text \<open>
  The loop over the text received so far: the instructions found, whether the end of the
  response was met, and the variables afterwards. \<^verbatim>\<open>NaN\<close> compares as false.
\<close>

definition scan_element :: "jsstring \<Rightarrow> int \<Rightarrow> int \<Rightarrow> jsstring list \<Rightarrow> instruction list \<times> int \<times> jsstring list"
where
  "scan_element current ee si els =
     (if ee \<ge> si then
        (let els = els @ [js_substring current si ee]
         in if js_substring current ee (ee + 1) = [semicolon]
            then ([(hd els, tl els)], ee + 1, [])
            else ([], ee + 1, els))
      else ([], si, els))"

function http_scan :: "jsstring \<Rightarrow> scan_state \<Rightarrow> instruction list \<times> bool \<times> scan_state" where
  "http_scan current (None, si, els) = ([], False, None, si, els)"
| "http_scan current (Some ee, si, els) =
     (if ee < int (length current) then
        (case scan_element current ee si els of
           (out, si1, els1) \<Rightarrow>
             (let length_end = js_index_of current dot si1
              in if length_end \<noteq> -1 then
                   (let len = parse_int (js_substring current (ee + 1) length_end)
                    in if len = Some 0 then (out, True, Some ee, si1, els1)
                       else
                         (case http_scan current
                            (map_option (\<lambda>n. length_end + 1 + n) len, length_end + 1, els1) of
                            (outs, r) \<Rightarrow> (out @ outs, r)))
                 else (out, False, Some ee, int (length current), els1)))
      else ([], False, Some ee, si, els))"
  by pat_completeness auto
termination
proof (relation "measure (\<lambda>(current, ee, si, els). nat (int (length current) + 1 - si))")
qed (auto simp: scan_element_def Let_def split: if_splits dest!: js_index_of_bounds)

declare http_scan.simps [simp del]

definition http_instruction :: "http_handler \<Rightarrow> instruction \<Rightarrow> http_tunnel \<Rightarrow> http_tunnel" where
  "http_instruction h i t = h i (log_event (Oninstruction (fst i) (snd i)) t)"

definition start_next_request :: "xhr \<Rightarrow> response_reader \<Rightarrow> http_tunnel \<Rightarrow> response_reader \<times> http_tunnel"
where
  "start_next_request x r t =
     (if next_request r = None \<and> http_status x = 200
      then (case make_request t of (n, t1) \<Rightarrow> (r\<lparr>next_request := Some n\<rparr>, t1))
      else (r, t))"

definition update_polling :: "xhr \<Rightarrow> http_tunnel \<Rightarrow> response_reader \<Rightarrow> response_reader" where
  "update_polling x t r =
     (if polling t then
        (if ready x = 3 \<and> \<not> interval r then r\<lparr>interval := True, interval_running := True\<rparr>
         else if ready x = 4 \<and> interval r then r\<lparr>interval_running := False\<rparr>
         else r)
      else r)"

text \<open>The third component is the request handed on to \<^verbatim>\<open>handleResponse\<close>, which is the last thing done.\<close>

definition scan_response ::
  "http_handler \<Rightarrow> xhr \<Rightarrow> response_reader \<Rightarrow> http_tunnel
   \<Rightarrow> response_reader \<times> http_tunnel \<times> nat option" where
  "scan_response h x r t =
     (case http_scan (response_text x) (scan_end r, scan_start r, scan_elements r) of
        (outs, finished, ee, si, els) \<Rightarrow>
          (let t1 = fold (http_instruction h) outs t;
               r1 = r\<lparr>scan_end := ee, scan_start := si, scan_elements := els\<rparr>
           in if finished
              then (r1\<lparr>interval_running := False, attached := False\<rparr>, log_event Abort_read t1,
                    next_request r1)
              else (r1, t1, None)))"

definition parse_response ::
  "nat \<Rightarrow> http_handler \<Rightarrow> xhr \<Rightarrow> response_reader \<Rightarrow> http_tunnel
   \<Rightarrow> response_reader \<times> http_tunnel \<times> nat option" where
  "parse_response now h x r t =
     (if \<not> is_connected t then (r\<lparr>interval_running := False\<rparr>, t, None)
      else if ready x < 2 then (r, t, None)
      else
        (case start_next_request x r t of
           (r1, t1) \<Rightarrow>
             if ready x = 3 \<or> ready x = 4 then
               (let t2 = http_reset_timers now t1;
                    r2 = update_polling x t2 r1
                in if http_status x = 0 then (r2, http_disconnect t2, None)
                   else if http_status x \<noteq> 200 then (r2, handle_http_error x t2, None)
                   else scan_response h x r2 t2)
             else (r1, t1, None)))"

partial_function (option) handle_response ::
  "nat \<Rightarrow> http_handler \<Rightarrow> (nat \<Rightarrow> xhr) \<Rightarrow> nat \<Rightarrow> http_tunnel \<Rightarrow> (response_reader \<times> http_tunnel) option"
where
  "handle_response now h view n t =
     (case parse_response now h (view n) ((new_reader n)\<lparr>parse_only := \<not> polling t\<rparr>) t of
        (r1, t1, None) \<Rightarrow> Some (r1, t1)
      | (r1, t1, Some m) \<Rightarrow> handle_response now h view m t1)"

definition run_reader ::
  "nat \<Rightarrow> http_handler \<Rightarrow> (nat \<Rightarrow> xhr) \<Rightarrow> response_reader \<Rightarrow> http_tunnel
   \<Rightarrow> (response_reader \<times> http_tunnel) option" where
  "run_reader now h view r t =
     (case parse_response now h (view (request r)) r t of
        (r1, t1, None) \<Rightarrow> Some (r1, t1)
      | (r1, t1, Some m) \<Rightarrow> handle_response now h view m t1)"

definition on_ready_state_change ::
  "nat \<Rightarrow> http_handler \<Rightarrow> (nat \<Rightarrow> xhr) \<Rightarrow> response_reader \<Rightarrow> http_tunnel
   \<Rightarrow> (response_reader \<times> http_tunnel) option" where
  "on_ready_state_change now h view r t =
     (if \<not> attached r then Some (r, t)
      else if \<not> parse_only r \<and> ready (view (request r)) = 3 then
        (let r1 = r\<lparr>data_updates := data_updates r + 1\<rparr>
         in if data_updates r1 \<ge> 2
            then run_reader now h view (r1\<lparr>parse_only := True\<rparr>) (t\<lparr>polling := False\<rparr>)
            else run_reader now h view r1 t)
      else run_reader now h view r t)"

subsection \<open>Connecting\<close>

definition http_connect :: "nat \<Rightarrow> jsstring \<Rightarrow> http_tunnel \<Rightarrow> http_tunnel" where
  "http_connect now data t =
     (let t1 = set_state CONNECTING (http_reset_timers now t)
      in log_event (Post_connect (TUNNEL_CONNECT t1) data) t1)"

text \<open>An empty token is falsy, as is a missing one.\<close>

definition on_connect_response ::
  "nat \<Rightarrow> http_handler \<Rightarrow> (nat \<Rightarrow> xhr) \<Rightarrow> xhr \<Rightarrow> http_tunnel
   \<Rightarrow> (response_reader option \<times> http_tunnel) option" where
  "on_connect_response now h view x t =
     (if ready x \<noteq> 4 then Some (None, t)
      else if http_status x \<noteq> 200 then Some (None, handle_http_error x t)
      else
        (let t1 = (set_uuid (response_text x) (http_reset_timers now t))\<lparr>session_token := token_header x\<rparr>
         in if session_token t1 = None \<or> session_token t1 = Some []
            then Some (None, http_close_tunnel (named_status UPSTREAM_NOT_FOUND None) t1)
            else
              (case make_request ((set_state OPEN t1)\<lparr>ping_interval := True\<rparr>) of
                 (n, t2) \<Rightarrow> map_option (\<lambda>(r, t3). (Some r, t3)) (handle_response now h view n t2))))"

subsection \<open>The scan of a response\<close>

definition emit_scan ::
  "instruction list \<Rightarrow> instruction list \<times> bool \<times> scan_state \<Rightarrow> instruction list \<times> bool \<times> scan_state"
where
  "emit_scan out r = (out @ fst r, snd r)"

lemma emit_scan_simps [simp]:
  "emit_scan [] r = r" "emit_scan a (emit_scan b r) = emit_scan (a @ b) r"
  "emit_scan a (outs, r') = (a @ outs, r')"
  by (simp_all add: emit_scan_def)

lemma http_scan_take:
  assumes "ee < int (length current)" and "si \<le> ee"
    and "scan_element current ee si els = (out, si1, els1)"
  shows "http_scan current (Some ee, si, els) =
    emit_scan out (http_scan current (Some ee, ee + 1, els1))"
proof -
  have "si1 = ee + 1" using assms(2,3) by (auto simp: scan_element_def Let_def split: if_splits)
  moreover have "scan_element current ee (ee + 1) els1 = ([], ee + 1, els1)"
    by (simp add: scan_element_def)
  ultimately show ?thesis
    using assms
    by (simp add: http_scan.simps(2) [of current ee si] http_scan.simps(2) [of current ee "ee + 1"]
        Let_def emit_scan_def split: prod.split)
qed

definition boundary_state :: "jsstring \<Rightarrow> jsstring list \<Rightarrow> scan_state" where
  "boundary_state pre els = (Some (int (length pre) - 1), int (length pre), els)"

lemma http_scan_length:
  "http_scan (pre @ get_element v @ t) (boundary_state pre els) =
    (if v = [] then ([], True, boundary_state pre els)
     else http_scan (pre @ get_element v @ t)
       (Some (int (length (pre @ get_element v))), int (length (pre @ nat_str (length v) @ [dot])), els))"
proof -
  let ?n = "nat_str (length v)" and ?m = "pre @ get_element v @ t"
  have split: "?m = pre @ ?n @ dot # (v @ t)" by (simp add: get_element_def)
  have "js_index_of ?m dot (int (length pre)) = int (length pre + length ?n)"
    unfolding split by (rule js_index_of_at) (simp add: nat_str_no_unit)
  moreover have "js_substring ?m (int (length pre) - 1 + 1) (int (length pre + length ?n)) = ?n"
    unfolding split using js_substring_at [of pre ?n "dot # v @ t"] by simp
  ultimately show ?thesis
    by (simp add: boundary_state_def http_scan.simps(2) [of _ "int (length pre) - 1"] scan_element_def
        Let_def js_simps get_element_def algebra_simps)
qed

lemma http_scan_element:
  assumes "v \<noteq> []"
  shows "http_scan (pre @ get_element v @ c # rest) (boundary_state pre els) =
    (let pre' = pre @ get_element v @ [c]
     in if c = semicolon
        then emit_scan [(hd (els @ [v]), tl (els @ [v]))] (http_scan (pre' @ rest) (boundary_state pre' []))
        else http_scan (pre' @ rest) (boundary_state pre' (els @ [v])))"
proof -
  let ?m = "pre @ get_element v @ c # rest" and ?q = "pre @ get_element v"
    and ?p = "pre @ nat_str (length v) @ [dot]"
  have "js_substring ?m (int (length ?p)) (int (length ?q)) = v"
    using js_substring_at [of ?p v "c # rest"] by (simp add: get_element_def algebra_simps)
  moreover have "js_substring ?m (int (length ?q)) (int (length ?q) + 1) = [c]"
    using js_substring_at [of ?q "[c]" rest] by (simp add: algebra_simps)
  moreover have "int (length ?p) \<le> int (length ?q)" by (simp add: get_element_def)
  ultimately have "scan_element ?m (int (length ?q)) (int (length ?p)) els =
      (if c = semicolon then ([(hd (els @ [v]), tl (els @ [v]))], int (length ?q) + 1, [])
       else ([], int (length ?q) + 1, els @ [v]))"
    by (simp add: scan_element_def Let_def)
  moreover have "int (length ?q) < int (length ?m)" by simp
  ultimately show ?thesis
    using assms \<open>int (length ?p) \<le> int (length ?q)\<close> http_scan_length [of pre v "c # rest" els]
    by (simp add: http_scan_take Let_def boundary_state_def algebra_simps split: if_splits)
qed

lemma http_scan_message:
  assumes "args \<noteq> []" and "[] \<notin> set args"
  shows "http_scan (pre @ encode_message args @ rest) (boundary_state pre els) =
    emit_scan [(hd (els @ args), tl (els @ args))]
      (http_scan ((pre @ encode_message args) @ rest) (boundary_state (pre @ encode_message args) []))"
  using assms
proof (induction args arbitrary: pre els)
  case (Cons a as)
  show ?case
  proof (cases "as = []")
    case True
    then show ?thesis
      using Cons.prems http_scan_element [of a pre semicolon rest els]
      by (simp add: encode_message_Cons Let_def)
  next
    case False
    have e: "encode_message (a # as) = get_element a @ comma # encode_message as"
      using False by (rule encode_message_step)
    show ?thesis
      using http_scan_element [of a pre comma "encode_message as @ rest" els]
        Cons.IH [OF False, of "pre @ get_element a @ [comma]" "els @ [a]"] Cons.prems
      by (auto simp: e Let_def)
  qed
qed simp

definition no_empty_element :: "instruction \<Rightarrow> bool" where
  "no_empty_element i \<longleftrightarrow> fst i \<noteq> [] \<and> [] \<notin> set (snd i)"

lemma http_scan_instructions:
  "list_all no_empty_element is \<Longrightarrow>
   http_scan (pre @ concat (map encode_instruction is) @ rest) (boundary_state pre []) =
     emit_scan is (http_scan ((pre @ concat (map encode_instruction is)) @ rest)
       (boundary_state (pre @ concat (map encode_instruction is)) []))"
proof (induction "is" arbitrary: pre)
  case (Cons i ins)
  let ?rest = "concat (map encode_instruction ins) @ rest"
  have "http_scan (pre @ encode_instruction i @ ?rest) (boundary_state pre []) =
      emit_scan [i] (http_scan ((pre @ encode_instruction i) @ ?rest) (boundary_state (pre @ encode_instruction i) []))"
    using http_scan_message [of "fst i # snd i" pre ?rest "[]"] Cons.prems
    by (auto simp: encode_instruction_def no_empty_element_def)
  moreover note Cons.IH [of "pre @ encode_instruction i"] Cons.prems
  ultimately show ?case by simp
qed simp

lemma scan_element_append:
  assumes "ee < int (length current)" and "si \<le> int (length current)"
  shows "scan_element (current @ y) ee si els = scan_element current ee si els"
  using assms by (simp add: scan_element_def Let_def js_substring_append)

lemma scan_element_bound:
  assumes "scan_element current ee si els = (out, si1, els1)"
    and "ee < int (length current)" and "si \<le> int (length current)"
  shows "si1 \<le> int (length current) \<and> ee < si1"
  using assms by (auto simp: scan_element_def Let_def split: if_splits)

text \<open>
  Text that arrives later does not change what was found: scanning the longer text from the
  start is scanning the shorter text and then going on from where it stopped. (The variables
  left behind at the end of a response are never read again, so \<open>visible\<close> hides them.)
\<close>

definition visible ::
  "instruction list \<times> bool \<times> scan_state \<Rightarrow> instruction list \<times> bool \<times> scan_state option" where
  "visible r = (fst r, fst (snd r), if fst (snd r) then None else Some (snd (snd r)))"

lemma visible_emit [simp]:
  "visible (emit_scan a r) = (a @ fst (visible r), snd (visible r))"
  by (simp add: visible_def emit_scan_def)

lemma http_scan_append:
  assumes "fst (snd st) \<le> int (length current)"
  shows "case http_scan current st of (outs, finished, st') \<Rightarrow>
    if finished then visible (http_scan (current @ y) st) = (outs, True, None)
    else fst (snd st') \<le> int (length current)
      \<and> visible (http_scan (current @ y) st) = visible (emit_scan outs (http_scan (current @ y) st'))"
  using assms
proof (induction current st rule: http_scan.induct)
  case (1 current si els)
  then show ?case by (simp add: http_scan.simps)
next
  case (2 current ee si els)
  show ?case
  proof (cases "ee < int (length current)")
    case False
    with "2.prems" show ?thesis by (simp add: http_scan.simps(2) [of current])
  next
    case True
    have si: "si \<le> int (length current)" using "2.prems" by simp
    obtain out si1 els1 where se: "scan_element current ee si els = (out, si1, els1)"
      by (metis prod_cases3)
    note b = scan_element_bound [OF se True si]
    have se': "scan_element (current @ y) ee si els = (out, si1, els1)"
      using scan_element_append [OF True si] se by simp
    have ti: "ee < int (length (current @ y))" using True by simp
    let ?le = "js_index_of current dot si1"
    show ?thesis
    proof (cases "?le = -1")
      case miss: True
      have "scan_element (current @ y) ee (int (length current)) els1 = ([], int (length current), els1)"
        using True by (simp add: scan_element_def)
      with miss True ti se se' b show ?thesis
        by (simp add: http_scan.simps(2) [of current] http_scan.simps(2) [of "current @ y" ee]
            js_index_of_append [of si1] Let_def visible_def split: prod.split)
    next
      case hit: False
      have le: "?le < int (length current)" using js_index_of_bounds [OF hit] by simp
      then have sub: "js_substring (current @ y) (ee + 1) ?le = js_substring current (ee + 1) ?le"
        using True by (simp add: js_substring_append)
      let ?len = "parse_int (js_substring current (ee + 1) ?le)"
      let ?st = "(map_option (\<lambda>n. ?le + 1 + n) ?len, ?le + 1, els1)"
      show ?thesis
      proof (cases "?len = Some 0")
        case zero: True
        with hit True ti se se' b sub show ?thesis
          by (simp add: http_scan.simps(2) [of _ ee] js_index_of_append [of si1] visible_def)
      next
        case nonzero: False
        have "case http_scan current ?st of (outs, finished, st') \<Rightarrow>
            if finished then visible (http_scan (current @ y) ?st) = (outs, True, None)
            else fst (snd st') \<le> int (length current)
              \<and> visible (http_scan (current @ y) ?st) = visible (emit_scan outs (http_scan (current @ y) st'))"
          using "2.IH" [OF True se [symmetric] refl refl hit refl nonzero] le by simp
        moreover have "http_scan current (Some ee, si, els) = emit_scan out (http_scan current ?st)"
          using hit True se b nonzero
          by (simp add: http_scan.simps(2) [of _ ee] Let_def emit_scan_def split: prod.split)
        moreover have "http_scan (current @ y) (Some ee, si, els) = emit_scan out (http_scan (current @ y) ?st)"
          using hit ti se' b sub nonzero
          by (simp add: http_scan.simps(2) [of _ ee] js_index_of_append [of si1] Let_def emit_scan_def
              split: prod.split)
        ultimately show ?thesis by (cases "http_scan current ?st") auto
      qed
    qed
  qed
qed

fun http_feed :: "jsstring \<Rightarrow> jsstring list \<Rightarrow> scan_state \<Rightarrow> instruction list \<times> bool \<times> scan_state" where
  "http_feed received [] st = ([], False, st)"
| "http_feed received (x # xs) st =
     (case http_scan (received @ x) st of
        (outs, finished, st') \<Rightarrow>
          if finished then (outs, True, st')
          else emit_scan outs (http_feed (received @ x) xs st'))"

lemma http_feed_scan:
  "fst (snd st) \<le> int (length received) \<Longrightarrow> xs \<noteq> [] \<Longrightarrow>
   visible (http_feed received xs st) = visible (http_scan (received @ concat xs) st)"
proof (induction xs arbitrary: received st)
  case (Cons x xs)
  obtain outs fin st' where sc: "http_scan (received @ x) st = (outs, fin, st')" by (metis prod_cases3)
  have start: "fst (snd st) \<le> int (length (received @ x))" using Cons.prems(1) by simp
  note ap = http_scan_append [OF start, of "concat xs"]
  show ?case
  proof (cases "xs = []")
    case True
    with sc show ?thesis by (simp add: visible_def)
  next
    case False
    with ap sc Cons.IH [of st' "received @ x"] show ?thesis
      by (cases fin) (simp_all add: visible_def [of "(outs, True, st')"])
  qed
qed simp

text \<open>
  One reader while its response grows chunk by chunk: each chunk is one run of the loop in
  \<^verbatim>\<open>parseResponse\<close> over the text received so far, until the reader detaches itself.
\<close>

fun read_chunks ::
  "http_handler \<Rightarrow> xhr \<Rightarrow> jsstring \<Rightarrow> jsstring list \<Rightarrow> response_reader \<times> http_tunnel \<times> nat option
   \<Rightarrow> response_reader \<times> http_tunnel \<times> nat option" where
  "read_chunks h x received [] (r, t, n) = (r, t, n)"
| "read_chunks h x received (c # cs) (r, t, n) =
     (if attached r
      then read_chunks h x (received @ c) cs (scan_response h (x\<lparr>response_text := received @ c\<rparr>) r t)
      else (r, t, n))"

lemma read_chunks_detached: "\<not> attached r \<Longrightarrow> read_chunks h x received cs (r, t, n) = (r, t, n)"
  by (cases cs) simp_all

lemma read_chunks_feed:
  assumes "attached r" and "http_feed received cs (scan_end r, scan_start r, scan_elements r) = (outs, fin, st)"
  shows "\<exists>r'. read_chunks h x received cs (r, t, None) =
    (if fin then (r', log_event Abort_read (fold (http_instruction h) outs t), next_request r)
     else (r', fold (http_instruction h) outs t, None)) \<and> attached r' = (\<not> fin)"
  using assms
proof (induction cs arbitrary: received r t outs)
  case (Cons c cs)
  obtain o1 f1 ee si els where sc: "http_scan (received @ c) (scan_end r, scan_start r, scan_elements r)
      = (o1, f1, ee, si, els)" by (metis prod_cases3)
  show ?case
  proof (cases f1)
    case True
    with Cons.prems sc have "fin" "outs = o1" by auto
    with True Cons.prems(1) sc show ?thesis by (simp add: scan_response_def Let_def read_chunks_detached)
  next
    case False
    let ?r = "r\<lparr>scan_end := ee, scan_start := si, scan_elements := els\<rparr>"
    obtain o2 where o2: "http_feed (received @ c) cs (ee, si, els) = (o2, fin, st)" "outs = o1 @ o2"
      using Cons.prems(2) sc False by (cases "http_feed (received @ c) cs (ee, si, els)") auto
    with Cons.IH [of ?r "received @ c" o2 "fold (http_instruction h) o1 t"] Cons.prems(1) sc False
    show ?thesis by (cases fin) (simp_all add: scan_response_def Let_def)
  qed
qed auto

lemma new_reader_scan:
  "(scan_end (new_reader n), scan_start (new_reader n), scan_elements (new_reader n)) = boundary_state [] []"
  by (simp add: new_reader_def boundary_state_def)

lemma new_reader_fields [simp]: "attached (new_reader n)" "next_request (new_reader n) = None"
  by (simp_all add: new_reader_def)

lemma read_chunks_finished:
  assumes "chunks \<noteq> []" and "http_scan (concat chunks) (boundary_state [] []) = (outs, True, st)"
  shows "\<exists>r. read_chunks h x [] chunks ((new_reader n)\<lparr>next_request := m\<rparr>, t, None) =
      (r, log_event Abort_read (fold (http_instruction h) outs t), m) \<and> \<not> attached r"
proof -
  have "visible (http_feed [] chunks (boundary_state [] [])) = (outs, True, None)"
    using http_feed_scan [of "boundary_state [] []" "[]" chunks] assms
    by (simp add: visible_def boundary_state_def)
  then obtain st' where "http_feed [] chunks (boundary_state [] []) = (outs, True, st')"
    by (cases "http_feed [] chunks (boundary_state [] [])") (auto simp: visible_def split: if_splits)
  with read_chunks_feed [of "(new_reader n)\<lparr>next_request := m\<rparr>" "[]" chunks outs True st' h x t]
  show ?thesis by (simp add: new_reader_scan)
qed

subsection \<open>The contract of the HTTP tunnel\<close>

lemma http_fields [simp]:
  "output_buffer (log_event e t) = output_buffer t" "output_buffer (set_state s t) = output_buffer t"
  "output_buffer (set_uuid u t) = output_buffer t"
  "sending_messages (log_event e t) = sending_messages t"
  "sending_messages (set_state s t) = sending_messages t"
  "sending_messages (set_uuid u t) = sending_messages t"
  "request_id (log_event e t) = request_id t" "request_id (set_state s t) = request_id t"
  "tstate (http_clear_timers t) = tstate t" "output_buffer (http_clear_timers t) = output_buffer t"
  "sending_messages (http_clear_timers t) = sending_messages t"
  "request_id (http_clear_timers t) = request_id t"
  by (simp_all add: log_event_def set_state_def set_uuid_def http_clear_timers_def)

lemma http_reset_timers_fields [simp]:
  "tstate (http_reset_timers now t) = (if tstate t = UNSTABLE then OPEN else tstate t)"
  "output_buffer (http_reset_timers now t) = output_buffer t"
  "sending_messages (http_reset_timers now t) = sending_messages t"
  "request_id (http_reset_timers now t) = request_id t"
  by (simp_all add: http_reset_timers_def Let_def)

lemma http_close_tunnel_fields [simp]:
  "tstate (http_close_tunnel st t) = CLOSED"
  "output_buffer (http_close_tunnel st t) = output_buffer t"
  by (simp_all add: http_close_tunnel_def Let_def)

definition http_wire :: "http_tunnel \<Rightarrow> jsstring" where
  "http_wire t = sent_text t @ output_buffer t"

lemma sent_text_update [simp]:
  "sent_text (t\<lparr>sending_messages := b\<rparr>) = sent_text t" "sent_text (t\<lparr>output_buffer := s\<rparr>) = sent_text t"
  by (simp_all add: sent_text_def)

interpretation http: message_tunnel is_connected http_send http_disconnect http_wire
  by unfold_locales
    (auto simp: http_send_def send_pending_messages_def is_connected_def http_wire_def Let_def
      http_disconnect_def)

text \<open>
  Nothing is lost between the calls either: a response to a write hands what waited to the
  next request.
\<close>

lemma on_write_response_wire:
  "is_connected t \<Longrightarrow> http_status x = 200 \<Longrightarrow> ready x = 4 \<Longrightarrow>
   is_connected (on_write_response now x t)
   \<and> http_wire (on_write_response now x t) = http_wire t
   \<and> output_buffer (on_write_response now x t) = []"
proof -
  have "sent_text (http_reset_timers now t) = sent_text t"
    by (simp add: http_reset_timers_def Let_def sent_text_def http_clear_timers_def set_state_def)
  then show "is_connected t \<Longrightarrow> http_status x = 200 \<Longrightarrow> ready x = 4 \<Longrightarrow> ?thesis"
    by (auto simp: on_write_response_def send_pending_messages_def is_connected_def http_wire_def Let_def)
qed

subsection \<open>Properties of the HTTP tunnel\<close>

definition end_of_response :: jsstring where
  "end_of_response = js ''0.;''"

lemma http_scan_zero:
  "http_scan (pre @ get_element [] @ rest) (boundary_state pre els) = ([], True, boundary_state pre els)"
  using http_scan_length [of pre "[]" rest els] by simp

lemma end_of_response_element: "end_of_response = get_element [] @ [semicolon]"
  by (simp add: end_of_response_def js_eval)


definition example_xhr :: xhr where
  "example_xhr = \<lparr>ready = 4, http_status = 200, status_text = [], response_text = [],
     status_header = None, error_header = None, token_header = Some (js ''token'')\<rparr>"


lemma http_scan_empty_argument:
  "[] \<notin> set args \<Longrightarrow>
   \<exists>st. http_scan (pre @ encode_message (args @ [] # more_args) @ rest) (boundary_state pre els) = ([], True, st)"
proof (induction args arbitrary: pre els)
  case Nil
  then show ?case
    using http_scan_zero [of pre "concat (map (\<lambda>v. comma # get_element v) more_args) @ [semicolon] @ rest" els]
    by (auto simp: encode_message_Cons boundary_state_def)
next
  case (Cons a args)
  then have "a \<noteq> []" "[] \<notin> set args" by auto
  with Cons.IH [of "pre @ get_element a @ [comma]" "els @ [a]"]
    http_scan_element [of a pre comma "encode_message (args @ [] # more_args) @ rest" els]
  show ?case by (simp add: encode_message_step)
qed

text \<open>
  An instruction with an empty argument is lost, and the rest of the response with it:
  the reader takes every element of length zero for the end of the response, aborts the
  request, and goes on with the next one.
\<close>

theorem http_empty_argument_ends_response:
  assumes "list_all no_empty_element is" and "[] \<notin> set args" and "chunks \<noteq> []"
    and "concat chunks = concat (map encode_instruction is) @ encode_message (args @ [] # more_args) @ rest"
  shows "\<exists>r. read_chunks h x [] chunks ((new_reader n)\<lparr>next_request := m\<rparr>, t, None) =
      (r, log_event Abort_read (fold (http_instruction h) is t), m) \<and> \<not> attached r"
proof -
  let ?m = "concat (map encode_instruction is)"
  obtain st where "http_scan (?m @ encode_message (args @ [] # more_args) @ rest) (boundary_state ?m []) = ([], True, st)"
    using http_scan_empty_argument [OF assms(2)] by blast
  then have "http_scan (concat chunks) (boundary_state [] []) = (is, True, st)"
    using http_scan_instructions [OF assms(1), of "[]" "encode_message (args @ [] # more_args) @ rest"] assms(4)
    by simp
  from read_chunks_finished [OF assms(3) this] show ?thesis .
qed

theorem http_empty_argument_ends_response_witness:
  "\<exists>r. read_chunks (\<lambda>i t. t) example_xhr [] [js ''3.nop;4.name,0.;4.sync,1.5;'']
       ((new_reader 0)\<lparr>next_request := Some 1\<rparr>, new_http_tunnel [], None) =
     (r, log_event Abort_read (fold (http_instruction (\<lambda>i t. t)) [(js ''nop'', [])]
        (new_http_tunnel [])), Some 1) \<and> \<not> attached r"
  by (rule http_empty_argument_ends_response [where args = "[js ''name'']" and more_args = "[]"
        and rest = "js ''4.sync,1.5;''"])
    (simp_all add: no_empty_element_def js_eval)

text \<open>
  (C11) The HTTP tunnel sends everything once and in order: the text of its write requests
  followed by what is waiting for the next one is the concatenation of the messages passed to
  \<^verbatim>\<open>sendMessage\<close>, while a request is under way (nothing is sent then, only queued) as well as
  when none is; when the write in progress succeeds the queue goes out as one request.
\<close>

theorem http_sends_everything_in_order:
  assumes "is_connected t" and "http_wire t = []" and "ready x = 4" and "http_status x = 200"
  shows "let t1 = fold (\<lambda>i. http_send (fst i # snd i)) is t; t2 = on_write_response now x t1
    in sent_text t1 @ output_buffer t1 = concat (map encode_instruction is)
       \<and> (sending_messages t \<longrightarrow> sent_text t1 = [])
       \<and> sent_text t2 = concat (map encode_instruction is) \<and> output_buffer t2 = []"
proof -
  let ?t = "fold (\<lambda>i. http_send (fst i # snd i)) is t"
  have w: "http_wire ?t = concat (map encode_instruction is)" and c: "is_connected ?t"
    using http.send_all_wire [of t "is"] http.send_all_usable [of t "is"] assms(1,2)
    by (simp_all add: http.send_all_def)
  have q: "sent_text (fold (\<lambda>i. http_send (fst i # snd i)) is s) = sent_text s"
    if "sending_messages s" for s
    using that by (induction "is" arbitrary: s) (simp_all add: http_send_def Let_def)
  have "sent_text t = []" using assms(2) by (simp add: http_wire_def)
  with w c q [of t] on_write_response_wire [OF c assms(4,3), of now] show ?thesis
    by (auto simp: http_wire_def Let_def)
qed

theorem http_sends_everything_in_order_witness:
  "let t = (new_http_tunnel [])\<lparr>tstate := OPEN, sending_messages := True\<rparr>;
       t1 = fold (\<lambda>i. http_send (fst i # snd i)) [(js ''nop'', []), (js ''sync'', [js ''1''])] t;
       t2 = on_write_response 0 example_xhr t1
   in sent_text t1 @ output_buffer t1
        = concat (map encode_instruction [(js ''nop'', []), (js ''sync'', [js ''1''])])
      \<and> (sending_messages t \<longrightarrow> sent_text t1 = [])
      \<and> sent_text t2 = concat (map encode_instruction [(js ''nop'', []), (js ''sync'', [js ''1''])])
      \<and> output_buffer t2 = []"
  unfolding Let_def
  by (rule http_sends_everything_in_order [unfolded Let_def])
    (simp_all add: is_connected_def http_wire_def sent_text_def new_http_tunnel_def new_tunnel_def
      tunnel.defs example_xhr_def)

text \<open>
  Closing the HTTP tunnel does not reset its output buffer, although the comment at that
  place says so: text that was waiting when the tunnel was closed is sent to the server in
  the next session, in front of its first message.
\<close>

theorem http_stale_output_survives_close:
  assumes "is_connected t" and "sending_messages t" and "output_buffer t = []" and "es \<noteq> []" and "fs \<noteq> []"
  shows "let t1 = http_disconnect (http_send es t);
             t2 = set_state OPEN (set_uuid u (http_connect now data t1))
         in tstate t1 = CLOSED \<and> output_buffer t1 = encode_message es
            \<and> sent_text (http_send fs t2) = sent_text t2 @ encode_message es @ encode_message fs"
proof -
  let ?t1 = "http_disconnect (http_send es t)"
  have "sending_messages ?t1 = False" "tstate ?t1 = CLOSED" "output_buffer ?t1 = encode_message es"
    using assms
    by (auto simp: http_disconnect_def http_close_tunnel_def http_send_def is_connected_def Let_def)
  with assms(5) show ?thesis
    by (simp add: http_send_def http_connect_def is_connected_def send_pending_messages_def Let_def)
qed

theorem http_stale_output_survives_close_witness:
  "let t1 = http_disconnect (http_send [js ''key''] ((new_http_tunnel [])\<lparr>tstate := OPEN, sending_messages := True\<rparr>));
       t2 = set_state OPEN (set_uuid (js ''u'') (http_connect 0 [] t1))
   in tstate t1 = CLOSED \<and> output_buffer t1 = encode_message [js ''key'']
      \<and> sent_text (http_send [js ''nop''] t2) = sent_text t2 @ encode_message [js ''key''] @ encode_message [js ''nop'']"
  by (rule http_stale_output_survives_close)
    (simp_all add: is_connected_def new_http_tunnel_def new_tunnel_def tunnel.defs)

subsection \<open>Passing from request to request\<close>

text \<open>
  \<^verbatim>\<open>handleResponse\<close> calls itself for the next request as soon as a response has ended. A
  request that has just been made has no response yet (its ready state is below 2), which is
  what ends the recursion: \<open>pending\<close> says that no request from number \<open>k\<close> on has one.
\<close>

definition pending :: "(nat \<Rightarrow> xhr) \<Rightarrow> nat \<Rightarrow> bool" where
  "pending view k \<longleftrightarrow> (\<forall>n \<ge> k. ready (view n) < 2)"

definition keeps_request_id :: "http_handler \<Rightarrow> bool" where
  "keeps_request_id h \<longleftrightarrow> (\<forall>i t. request_id (h i t) = request_id t)"

lemma fold_request_id:
  "keeps_request_id h \<Longrightarrow> request_id (fold (http_instruction h) is t) = request_id t"
  by (induction "is" arbitrary: t) (simp_all add: keeps_request_id_def http_instruction_def del: split_paired_All)

lemma parse_response_next:
  assumes "keeps_request_id h" and "next_request r = None"
    and "parse_response now h x r t = (r', t', Some m)"
  shows "m = request_id t \<and> request_id t' = request_id t + 1 \<and> 2 \<le> ready x"
proof -
  obtain r1 t1 where st: "start_next_request x r t = (r1, t1)" by fastforce
  have c: "is_connected t" "\<not> ready x < 2" "http_status x = 200"
    and sc: "scan_response h x (update_polling x (http_reset_timers now t1) r1) (http_reset_timers now t1)
      = (r', t', Some m)"
    using assms(3) st by (auto simp: parse_response_def Let_def split: if_splits)
  from st c(3) assms(2) have r1: "next_request r1 = Some (request_id t)" "request_id t1 = request_id t + 1"
    by (auto simp: start_next_request_def make_request_def)
  then have "next_request (update_polling x (http_reset_timers now t1) r1) = Some (request_id t)"
    by (simp add: update_polling_def)
  with sc r1 fold_request_id [OF assms(1)] c(2) show ?thesis
    by (auto simp: scan_response_def Let_def split: prod.splits if_splits)
qed

lemma handle_response_returns:
  assumes "pending view k" and "keeps_request_id h"
  shows "\<exists>r. handle_response now h view n t = Some r"
proof (induction "Suc k - request_id t + (if ready (view n) < 2 then 0 else 1)" arbitrary: n t rule: less_induct)
  case less
  let ?r = "(new_reader n)\<lparr>parse_only := \<not> polling t\<rparr>"
  obtain r1 t1 o1 where pr: "parse_response now h (view n) ?r t = (r1, t1, o1)" by (metis prod_cases3)
  show ?case
  proof (cases o1)
    case None
    with pr show ?thesis by (subst handle_response.simps) simp
  next
    case (Some m)
    with pr parse_response_next [OF assms(2), of ?r now "view n" t r1 t1 m]
    have m: "m = request_id t" "request_id t1 = request_id t + 1" "2 \<le> ready (view n)" by simp_all
    have "ready (view m) < 2 \<or> request_id t < k" using assms(1) m(1) by (auto simp: pending_def not_less)
    then have "\<exists>r. handle_response now h view m t1 = Some r"
      using m(2,3) by (intro less) auto
    with Some pr show ?thesis by (subst handle_response.simps) simp
  qed
qed

text \<open>
  (C12) The handler of a read request always returns: whatever responses have arrived, the
  chain of calls from one finished response to the next stops at a request that has no
  response yet.
\<close>

theorem http_read_handler_returns:
  assumes "pending view k" and "keeps_request_id h"
  shows "\<exists>r. on_ready_state_change now h view rd t = Some r"
  using handle_response_returns [OF assms]
  by (auto simp: on_ready_state_change_def run_reader_def Let_def split: prod.split option.split)

theorem http_read_handler_returns_witness:
  "\<exists>r. on_ready_state_change 0 (\<lambda>i t. t) (\<lambda>n. if n < 5 then example_xhr\<lparr>response_text := js ''0.;''\<rparr>
       else example_xhr\<lparr>ready := 1\<rparr>) ((new_reader 0)\<lparr>next_request := Some 1\<rparr>)
     ((new_http_tunnel [])\<lparr>tstate := OPEN, request_id := 2\<rparr>) = Some r"
  by (rule http_read_handler_returns [where k = 5]) (simp_all add: pending_def keeps_request_id_def)

end
