(* ===== verification/Guac_Chain.thy ===== *)
theory Guac_Chain
  imports Guac_Tunnel Guac_Utf8
begin

section \<open>Guacamole.StaticHTTPTunnel and Guacamole.ChainedTunnel\<close>

text \<open>
  The static tunnel plays a recording fetched over HTTP: bytes are decoded as UTF-8 and the
  text goes through the protocol parser. The chained tunnel tries a list of tunnels in order
  and commits to the first that works; the tunnels themselves are numbered, and their
  callbacks arrive as events.
\<close>

subsection \<open>StaticHTTPTunnel\<close>

record static_tunnel = tunnel +
  size_header :: "jsstring option"
  abort_controller :: bool
  static_parser :: parser
  static_utf8 :: utf8_parser
  reading :: bool

type_synonym static_handler = "instruction \<Rightarrow> static_tunnel \<Rightarrow> static_tunnel"

definition new_static_tunnel :: static_tunnel where
  "new_static_tunnel = tunnel.extend new_tunnel
     \<lparr>size_header = None, abort_controller = False, static_parser = new_parser,
      static_utf8 = new_utf8_parser, reading = False\<rparr>"

definition static_send :: "jsstring list \<Rightarrow> static_tunnel \<Rightarrow> static_tunnel" where
  "static_send elements t = t"

text \<open>Aborting makes the pending read fail, so nothing more is read.\<close>

definition static_disconnect :: "static_tunnel \<Rightarrow> static_tunnel" where
  "static_disconnect t =
     set_state CLOSED
       (if abort_controller t
        then log_event Abort_read (t\<lparr>abort_controller := False, reading := False\<rparr>) else t)"

definition static_connect :: "jsstring \<Rightarrow> static_tunnel \<Rightarrow> static_tunnel" where
  "static_connect url t =
     (let t1 = set_state CONNECTING (static_disconnect t)
      in log_event (Get_read url)
           (t1\<lparr>static_parser := new_parser, static_utf8 := new_utf8_parser, abort_controller := True\<rparr>))"

definition response_ok :: "int \<Rightarrow> bool" where
  "response_ok st \<longleftrightarrow> 200 \<le> st \<and> st \<le> 299"

definition static_got_response ::
  "int \<Rightarrow> jsstring \<Rightarrow> jsstring option \<Rightarrow> static_tunnel \<Rightarrow> static_tunnel" where
  "static_got_response st st_text content_length t =
     (if \<not> response_ok st
      then static_disconnect (log_event (Onerror (named_status (from_http_code st) (Some st_text))) t)
      else (set_state OPEN (t\<lparr>size_header := content_length\<rparr>))\<lparr>reading := True\<rparr>)"

text \<open>
  \<open>None\<close> is the end of the stream. An exception of the parser rejects the promise: the next
  read is not scheduled.
\<close>

definition static_process :: "static_handler \<Rightarrow> nat list option \<Rightarrow> static_tunnel \<Rightarrow> static_tunnel" where
  "static_process h result t =
     (case result of
        None \<Rightarrow> static_disconnect t
      | Some bytes \<Rightarrow>
          (case decode (static_utf8 t) bytes of
             (u, s) \<Rightarrow>
               (case receive s (static_parser t) of
                  (p, outs, err) \<Rightarrow>
                    fold (\<lambda>i t. h i (log_event (Oninstruction (fst i) (snd i)) t)) outs
                      (t\<lparr>static_utf8 := u, static_parser := p, reading := (err = None)\<rparr>))))"

text \<open>The read loop: results arrive while a read is scheduled.\<close>

fun static_read_all :: "static_handler \<Rightarrow> nat list list \<Rightarrow> static_tunnel \<Rightarrow> static_tunnel" where
  "static_read_all h [] t = t"
| "static_read_all h (b # bs) t =
     (if reading t then static_read_all h bs (static_process h (Some b) t) else t)"

lemma static_fields [simp]:
  "static_parser (log_event e t) = static_parser t" "static_utf8 (log_event e t) = static_utf8 t"
  "reading (log_event e t) = reading t" "static_parser (set_state s t) = static_parser t"
  "static_utf8 (set_state s t) = static_utf8 t" "reading (set_state s t) = reading t"
  by (simp_all add: log_event_def set_state_def)

abbreviation record_instruction :: static_handler where
  "record_instruction \<equiv> (\<lambda>i t. t)"

definition delivered :: "instruction list \<Rightarrow> static_tunnel \<Rightarrow> static_tunnel" where
  "delivered is t = t\<lparr>trace := trace t @ map (\<lambda>i. Oninstruction (fst i) (snd i)) is\<rparr>"

lemma delivered_simps [simp]:
  "delivered [] t = t" "delivered b (delivered a t) = delivered (a @ b) t"
  "static_parser (delivered a t) = static_parser t" "static_utf8 (delivered a t) = static_utf8 t"
  "reading (delivered a t) = reading t" "tstate (delivered a t) = tstate t"
  "trace (delivered a t) = trace t @ map (\<lambda>i. Oninstruction (fst i) (snd i)) a"
  by (simp_all add: delivered_def)

lemma fold_record_instruction:
  "fold (\<lambda>i t. record_instruction i (log_event (Oninstruction (fst i) (snd i)) t)) is t = delivered is t"
proof -
  have "log_event (Oninstruction (fst i) (snd i)) s = delivered [i] s" for i s
    by (simp add: delivered_def log_event_def)
  then show ?thesis by (induction "is" arbitrary: t) simp_all
qed

lemma static_process_some:
  "static_process record_instruction (Some b) t =
     (case decode (static_utf8 t) b of (u, s) \<Rightarrow> case receive s (static_parser t) of (p, outs, err) \<Rightarrow>
        delivered outs (t\<lparr>static_utf8 := u, static_parser := p, reading := (err = None)\<rparr>))"
  by (simp add: static_process_def fold_record_instruction split: prod.split)

fun decode_each :: "utf8_parser \<Rightarrow> nat list list \<Rightarrow> jsstring list" where
  "decode_each u [] = []"
| "decode_each u (b # bs) = snd (decode u b) # decode_each (fst (decode u b)) bs"

lemma concat_decode_each: "concat (decode_each u bs) = snd (decode u (concat bs))"
  by (induction bs arbitrary: u) (simp_all add: u8.feed_append split: prod.split)

lemma static_read_all_parsed:
  assumes "reading t" and "receive_all (decode_each (static_utf8 t) bs) (static_parser t) = (p, outs, err)"
  shows "trace (static_read_all record_instruction bs t) =
      trace t @ map (\<lambda>i. Oninstruction (fst i) (snd i)) outs
    \<and> tstate (static_read_all record_instruction bs t) = tstate t
    \<and> reading (static_read_all record_instruction bs t) = (err = None)"
  using assms
proof (induction bs arbitrary: t outs)
  case (Cons b bs)
  obtain u s where d: "decode (static_utf8 t) b = (u, s)" by fastforce
  obtain p1 o1 e1 where r: "receive s (static_parser t) = (p1, o1, e1)" by (metis prod_cases3)
  let ?t = "delivered o1 (t\<lparr>static_utf8 := u, static_parser := p1, reading := (e1 = None)\<rparr>)"
  have step: "static_process record_instruction (Some b) t = ?t"
    by (simp add: static_process_some d r)
  show ?case
  proof (cases e1)
    case None
    obtain o2 where "receive_all (decode_each u bs) p1 = (p, o2, err)" "outs = o1 @ o2"
      using Cons.prems(2) d r None by (auto split: prod.splits)
    with Cons.IH [of ?t o2] None step Cons.prems(1) show ?thesis by simp
  next
    case (Some e)
    with Cons.prems d r have "outs = o1" "err = Some e" by auto
    then show ?thesis using Some step Cons.prems(1) by (cases bs) simp_all
  qed
qed auto

lemma static_opened:
  fixes url st_text len
  defines "t \<equiv> static_got_response 200 st_text len (static_connect url new_static_tunnel)"
  shows "reading t" "static_utf8 t = new_utf8_parser" "static_parser t = new_parser"
    "tstate t = OPEN" "trace t = [Onstatechange CONNECTING, Get_read url, Onstatechange OPEN]"
  by (simp_all add: t_def static_got_response_def response_ok_def static_connect_def static_disconnect_def
      new_static_tunnel_def new_tunnel_def tunnel.defs Let_def)



text \<open>
  A recording with a syntax error leaves the static tunnel open for good: the exception
  of the parser ends the chain of reads, but the tunnel stays \<^verbatim>\<open>OPEN\<close>, \<^verbatim>\<open>onerror\<close> is not called,
  and nothing more is read.
\<close>

theorem static_tunnel_hides_parse_error:
  assumes "js_wf m" and "m = concat (map encode_instruction ins) @ get_element v @ c # rest"
    and "c \<noteq> comma" and "c \<noteq> semicolon" and "concat bs = concat (map utf8_bytes m)"
  shows "let t = static_got_response 200 st_text len (static_connect url new_static_tunnel);
             t' = static_read_all record_instruction bs t
         in tstate t' = OPEN \<and> \<not> reading t' \<and> (\<forall>st. Onerror st \<notin> set (trace t'))"
proof -
  let ?t = "static_got_response 200 st_text len (static_connect url new_static_tunnel)"
  have "snd (decode new_utf8_parser (concat bs)) = m"
    using decode_utf8_string [of new_utf8_parser, OF _ assms(1)] assms(5)
    by (auto simp: new_utf8_parser_def)
  then have "spec_loop [] (Need_length (concat (decode_each new_utf8_parser bs))) =
      (([v], Need_data (length v) (v @ c # rest)), ins, Some (Rejects Illegal_terminator))"
    using spec_loop_instructions [of ins "get_element v @ c # rest"] assms(2-4)
    by (simp add: concat_decode_each spec_loop_element)
  from fresh_parser_refines [OF this] obtain p e where
    "receive_all (decode_each new_utf8_parser bs) new_parser = (p, ins, e)"
    "Some (Rejects Illegal_terminator) = map_option Rejects e" by auto
  then have "receive_all (decode_each (static_utf8 ?t) bs) (static_parser ?t) = (p, ins, e)" "e \<noteq> None"
    by (cases e; auto simp: static_opened)+
  with static_read_all_parsed [OF static_opened(1)] show ?thesis
    by (auto simp: static_opened Let_def)
qed

theorem static_tunnel_hides_parse_error_witness:
  "let t = static_got_response 200 [] None (static_connect (js ''/r'') new_static_tunnel);
       t' = static_read_all record_instruction [[0x31, 0x2E, 0x61], [0x21]] t
   in tstate t' = OPEN \<and> \<not> reading t' \<and> (\<forall>st. Onerror st \<notin> set (trace t'))"
  by (rule static_tunnel_hides_parse_error [where m = "js ''1.a!''" and ins = "[]" and v = "js ''a''" and c = 33
        and rest = "[]"])
    (simp_all add: js_eval utf8_bytes_def)

subsection \<open>ChainedTunnel\<close>

text \<open>
  The callbacks of a tunnel in the chain are one of three: the wrappers that \<^verbatim>\<open>attach\<close>
  installs, the chained tunnel's own callbacks after \<^verbatim>\<open>commit_tunnel\<close>, or nothing after the
  chain has moved on. \<open>tunnels\<close> are those not yet tried. The chained tunnel's own callbacks are
  calls in the trace; \<open>No_tunnels\<close> is the call of \<^verbatim>\<open>onerror\<close> with a bare code.
\<close>

datatype callbacks = Unset | Wrapped | Passed_through

datatype chain_event =
  Attached nat
| Chain_state tunnel_state
| Chain_error status
| Chain_instruction instruction
| Chain_uuid jsstring
| No_tunnels int jsstring

record chain =
  tunnels :: "nat list"
  current_tunnel :: "nat option"
  committed :: "nat option"
  hooks :: "nat \<Rightarrow> callbacks"
  chain_trace :: "chain_event list"

definition new_chain :: "nat list \<Rightarrow> chain" where
  "new_chain ts = \<lparr>tunnels = ts, current_tunnel = None, committed = None, hooks = (\<lambda>n. Unset), chain_trace = []\<rparr>"

definition chain_log :: "chain_event \<Rightarrow> chain \<Rightarrow> chain" where
  "chain_log e c = c\<lparr>chain_trace := chain_trace c @ [e]\<rparr>"

definition attach :: "nat \<Rightarrow> chain \<Rightarrow> chain" where
  "attach n c = chain_log (Attached n) (c\<lparr>current_tunnel := Some n, hooks := (hooks c)(n := Wrapped)\<rparr>)"

fun server_timeout :: "status option \<Rightarrow> bool" where
  "server_timeout None = False"
| "server_timeout (Some s) = (code s = Some (status_code UPSTREAM_TIMEOUT))"

text \<open>The result of \<^verbatim>\<open>failTunnel\<close> is whether there was a next tunnel.\<close>

definition fail_tunnel :: "nat \<Rightarrow> status option \<Rightarrow> chain \<Rightarrow> chain \<times> bool" where
  "fail_tunnel n st c =
     (if server_timeout st then (c\<lparr>tunnels := []\<rparr>, False)
      else
        (case tunnels c of
           [] \<Rightarrow> (c, False)
         | m # ms \<Rightarrow> (attach m (c\<lparr>tunnels := ms, hooks := (hooks c)(n := Unset)\<rparr>), True)))"

definition commit_tunnel :: "nat \<Rightarrow> jsstring option \<Rightarrow> chain \<Rightarrow> chain" where
  "commit_tunnel n known c =
     (let c1 = c\<lparr>hooks := (hooks c)(n := Passed_through)\<rparr>;
          c2 = (case known of None \<Rightarrow> c1 | Some u \<Rightarrow> if u = [] then c1 else chain_log (Chain_uuid u) c1)
      in c2\<lparr>committed := Some n\<rparr>)"

text \<open>The callbacks of tunnel \<open>n\<close>, whose identifier at that moment is \<open>known\<close>.\<close>

definition chain_onstatechange :: "nat \<Rightarrow> jsstring option \<Rightarrow> tunnel_state \<Rightarrow> chain \<Rightarrow> chain" where
  "chain_onstatechange n known s c =
     (case hooks c n of
        Unset \<Rightarrow> c
      | Passed_through \<Rightarrow> chain_log (Chain_state s) c
      | Wrapped \<Rightarrow>
          (case s of
             OPEN \<Rightarrow> chain_log (Chain_state OPEN) (commit_tunnel n known c)
           | CLOSED \<Rightarrow>
               (case fail_tunnel n None c of
                  (c1, next) \<Rightarrow> if next then c1 else chain_log (Chain_state CLOSED) c1)
           | _ \<Rightarrow> c))"

definition chain_oninstruction :: "nat \<Rightarrow> jsstring option \<Rightarrow> instruction \<Rightarrow> chain \<Rightarrow> chain" where
  "chain_oninstruction n known i c =
     (case hooks c n of
        Unset \<Rightarrow> c
      | Passed_through \<Rightarrow> chain_log (Chain_instruction i) c
      | Wrapped \<Rightarrow> chain_log (Chain_instruction i) (commit_tunnel n known c))"

definition chain_onerror :: "nat \<Rightarrow> status \<Rightarrow> chain \<Rightarrow> chain" where
  "chain_onerror n st c =
     (case hooks c n of
        Unset \<Rightarrow> c
      | Passed_through \<Rightarrow> chain_log (Chain_error st) c
      | Wrapped \<Rightarrow>
          (case fail_tunnel n (Some st) c of
             (c1, next) \<Rightarrow> if next then c1 else chain_log (Chain_error st) c1))"

definition chain_connect :: "chain \<Rightarrow> chain" where
  "chain_connect c =
     (case committed c of
        Some n \<Rightarrow> attach n c
      | None \<Rightarrow>
          (case tunnels c of
             m # ms \<Rightarrow> attach m (c\<lparr>tunnels := ms\<rparr>)
           | [] \<Rightarrow> chain_log (No_tunnels (status_code SERVER_ERROR) (js ''No tunnels to try.'')) c))"

text \<open>A tunnel that fails to connect reports the error and then that it is closed.\<close>

definition tunnel_fails :: "nat \<Rightarrow> status \<Rightarrow> chain \<Rightarrow> chain" where
  "tunnel_fails n st c = chain_onstatechange n None CLOSED (chain_onerror n st c)"

fun fails_in_turn :: "(nat \<times> status) list \<Rightarrow> chain \<Rightarrow> chain" where
  "fails_in_turn [] c = c"
| "fails_in_turn ((n, st) # fs) c = fails_in_turn fs (tunnel_fails n st c)"

subsection \<open>The chain as a state machine\<close>

datatype tunnel_callback =
  On_state nat "jsstring option" tunnel_state
| On_instruction nat "jsstring option" instruction
| On_error nat status

fun chain_event_step :: "tunnel_callback \<Rightarrow> chain \<Rightarrow> chain" where
  "chain_event_step (On_state n known s) c = chain_onstatechange n known s c"
| "chain_event_step (On_instruction n known i) c = chain_oninstruction n known i c"
| "chain_event_step (On_error n st) c = chain_onerror n st c"

fun attached_of :: "chain_event \<Rightarrow> nat list" where
  "attached_of (Attached n) = [n]"
| "attached_of _ = []"

definition attached_tunnels :: "chain \<Rightarrow> nat list" where
  "attached_tunnels c = concat (map attached_of (chain_trace c))"

text \<open>
  The invariant, for a chain made with the tunnels \<open>ts\<close>: those attached so far are an initial
  part of the list, those left are the rest of it (or were given up), only the last one
  attached has callbacks, and a committed tunnel is that one.
\<close>

definition chain_inv :: "nat list \<Rightarrow> chain \<Rightarrow> bool" where
  "chain_inv ts c \<longleftrightarrow>
     (tunnels c = drop (length (attached_tunnels c)) ts \<or> tunnels c = []) \<and>
     attached_tunnels c = take (length (attached_tunnels c)) ts \<and>
     length (attached_tunnels c) \<le> length ts \<and>
     (\<forall>n. hooks c n \<noteq> Unset \<longrightarrow> current_tunnel c = Some n) \<and>
     (\<forall>n. committed c = Some n \<longrightarrow> hooks c n = Passed_through)"

lemma chain_log_simps [simp]:
  "tunnels (chain_log e c) = tunnels c" "hooks (chain_log e c) = hooks c"
  "committed (chain_log e c) = committed c" "current_tunnel (chain_log e c) = current_tunnel c"
  "chain_trace (chain_log e c) = chain_trace c @ [e]"
  "attached_tunnels (chain_log e c) = attached_tunnels c @ attached_of e"
  by (simp_all add: chain_log_def attached_tunnels_def)

lemma attached_tunnels_update [simp]:
  "attached_tunnels (c\<lparr>tunnels := x\<rparr>) = attached_tunnels c"
  "attached_tunnels (c\<lparr>hooks := y\<rparr>) = attached_tunnels c"
  "attached_tunnels (c\<lparr>committed := z\<rparr>) = attached_tunnels c"
  "attached_tunnels (c\<lparr>current_tunnel := w\<rparr>) = attached_tunnels c"
  by (simp_all add: attached_tunnels_def)

lemma fail_tunnel_inv:
  assumes "chain_inv ts c" and "hooks c n = Wrapped"
  shows "chain_inv ts (fst (fail_tunnel n st c))"
proof (cases "server_timeout st \<or> tunnels c = []")
  case True
  then have "fst (fail_tunnel n st c) = c\<lparr>tunnels := []\<rparr>" by (auto simp: fail_tunnel_def)
  with assms(1) show ?thesis by (simp add: chain_inv_def)
next
  case False
  then obtain m ms where t: "tunnels c = m # ms" by (cases "tunnels c") auto
  let ?k = "length (attached_tunnels c)"
  have d: "drop ?k ts = m # ms" using assms(1) t by (simp add: chain_inv_def)
  have lt: "?k < length ts" using d by (cases "?k < length ts") simp_all
  have k: "ts ! ?k = m" "drop (Suc ?k) ts = ms"
    using Cons_nth_drop_Suc [OF lt] d by simp_all
  have cb: "\<And>x. hooks c x \<noteq> Unset \<Longrightarrow> current_tunnel c = Some x"
    "\<And>x. committed c = Some x \<Longrightarrow> hooks c x = Passed_through"
    using assms(1) by (simp_all add: chain_inv_def)
  have other: "hooks c x = Unset" if "x \<noteq> n" for x
    using cb(1) [of x] cb(1) [of n] assms(2) that by auto
  have nc: "committed c = None"
    using cb(2) other assms(2) by (metis callbacks.distinct(3,5) not_None_eq)
  have at: "attached_tunnels c = take ?k ts" using assms(1) by (simp add: chain_inv_def)
  have "take (Suc ?k) ts = attached_tunnels c @ [m]"
    using lt k(1) at by (simp add: take_Suc_conv_app_nth)
  with False t lt k(2) other nc show ?thesis
    by (simp add: fail_tunnel_def attach_def chain_inv_def)
qed

lemma commit_tunnel_inv:
  "chain_inv ts c \<Longrightarrow> hooks c n = Wrapped \<Longrightarrow> chain_inv ts (commit_tunnel n known c)"
  by (auto simp: commit_tunnel_def chain_inv_def Let_def split: option.splits)

lemma chain_log_inv: "chain_inv ts c \<Longrightarrow> attached_of e = [] \<Longrightarrow> chain_inv ts (chain_log e c)"
  by (simp add: chain_inv_def)

lemma chain_event_step_inv: "chain_inv ts c \<Longrightarrow> chain_inv ts (chain_event_step e c)"
proof (cases e)
  case (On_state n known s)
  assume "chain_inv ts c"
  with On_state fail_tunnel_inv [of ts c n None] show ?thesis
    by (auto simp: chain_onstatechange_def chain_log_inv commit_tunnel_inv
        split: callbacks.splits tunnel_state.splits prod.splits)
next
  case (On_instruction n known i)
  assume "chain_inv ts c"
  with On_instruction show ?thesis
    by (auto simp: chain_oninstruction_def chain_log_inv commit_tunnel_inv split: callbacks.splits)
next
  case (On_error n st)
  assume "chain_inv ts c"
  with On_error fail_tunnel_inv [of ts c n "Some st"] show ?thesis
    by (auto simp: chain_onerror_def chain_log_inv split: callbacks.splits prod.splits)
qed

lemma chain_connect_inv: "chain_inv ts (chain_connect (new_chain ts))"
  by (cases ts) (auto simp: chain_connect_def new_chain_def attach_def chain_inv_def attached_tunnels_def chain_log_def)

text \<open>
  (C14) Whatever the tunnels of a chain report, in any order and interleaving, the chain tries
  them in the order it was given, each at most once, and never goes back; and once it has
  committed to one, callbacks of that tunnel are passed on unchanged and no other tunnel is
  attached.
\<close>

theorem chain_tries_tunnels_in_order:
  "let c = fold chain_event_step es (chain_connect (new_chain ts))
   in attached_tunnels c = take (length (attached_tunnels c)) ts
      \<and> (committed c = Some n \<longrightarrow>
           attached_tunnels (chain_event_step e c) = attached_tunnels c
           \<and> chain_trace (chain_event_step (On_error n st) c) = chain_trace c @ [Chain_error st]
           \<and> chain_trace (chain_event_step (On_instruction n known i) c) = chain_trace c @ [Chain_instruction i])"
proof -
  have inv: "chain_inv ts (fold chain_event_step es c)" if "chain_inv ts c" for c
    using that by (induction es arbitrary: c) (simp_all add: chain_event_step_inv)
  define c where "c = fold chain_event_step es (chain_connect (new_chain ts))"
  have c: "chain_inv ts c" using inv [OF chain_connect_inv] by (simp add: c_def)
  have quiet: "attached_tunnels (chain_event_step e c) = attached_tunnels c" if "committed c = Some n"
  proof -
    have "hooks c x = Unset \<or> hooks c x = Passed_through" for x
      using c that unfolding chain_inv_def by (metis callbacks.distinct(3))
    then have "hooks c x \<noteq> Wrapped" for x by (metis callbacks.distinct(1,5))
    then show ?thesis
      by (cases e) (auto simp: chain_onstatechange_def chain_oninstruction_def chain_onerror_def
          split: callbacks.split)
  qed
  show ?thesis
    using c quiet unfolding c_def [symmetric] Let_def
    by (auto simp: chain_inv_def chain_onerror_def chain_oninstruction_def)
qed

theorem chain_tries_tunnels_in_order_witness:
  "let c = fold chain_event_step [On_error 7 (named_status SERVER_ERROR None), On_state 9 None OPEN]
             (chain_connect (new_chain [7, 9, 8]))
   in attached_tunnels c = take (length (attached_tunnels c)) [7, 9, 8] \<and> committed c = Some 9
      \<and> attached_tunnels (chain_event_step (On_error 7 (named_status SERVER_BUSY None)) c) = attached_tunnels c
      \<and> chain_trace (chain_event_step (On_instruction 9 None (js ''nop'', [])) c)
        = chain_trace c @ [Chain_instruction (js ''nop'', [])]"
proof -
  let ?es = "[On_error 7 (named_status SERVER_ERROR None), On_state 9 None OPEN]"
  have "committed (fold chain_event_step ?es (chain_connect (new_chain [7, 9, 8]))) = Some 9"
    by (simp add: chain_connect_def new_chain_def attach_def chain_onerror_def fail_tunnel_def
        chain_onstatechange_def commit_tunnel_def)
  then show ?thesis
    using chain_tries_tunnels_in_order [of ?es "[7, 9, 8]" 9 "On_error 7 (named_status SERVER_BUSY None)"
        "named_status SERVER_BUSY None" None "(js ''nop'', [])"]
    by (simp only: Let_def simp_thms)
qed

lemma tunnel_fails_next:
  "hooks c n = Wrapped \<Longrightarrow> \<not> server_timeout (Some st) \<Longrightarrow> tunnels c = m # ms \<Longrightarrow> n \<noteq> m \<Longrightarrow>
   tunnel_fails n st c = attach m (c\<lparr>tunnels := ms, hooks := (hooks c)(n := Unset)\<rparr>)"
  by (simp add: tunnel_fails_def chain_onerror_def fail_tunnel_def chain_onstatechange_def attach_def)

lemma tunnel_fails_last:
  "hooks c n = Wrapped \<Longrightarrow> tunnels c = [] \<Longrightarrow>
   chain_trace (tunnel_fails n st c) = chain_trace c @ [Chain_error st, Chain_state CLOSED]"
  by (simp add: tunnel_fails_def chain_onerror_def fail_tunnel_def chain_onstatechange_def)

lemma fails_in_turn_trace:
  assumes "hooks c n = Wrapped" and "tunnels c = map fst fs" and "distinct (n # map fst fs)"
    and "list_all (\<lambda>(m, s). \<not> server_timeout (Some s)) ((n, st) # fs)"
  shows "chain_trace (fails_in_turn ((n, st) # fs) c) =
    chain_trace c @ map Attached (map fst fs) @ [Chain_error (snd (last ((n, st) # fs))), Chain_state CLOSED]"
  using assms
proof (induction fs arbitrary: n st c)
  case Nil
  then show ?case by (simp add: tunnel_fails_last)
next
  case (Cons f fs)
  obtain m s where f: "f = (m, s)" by fastforce
  let ?c = "attach m (c\<lparr>tunnels := map fst fs, hooks := (hooks c)(n := Unset)\<rparr>)"
  have "tunnel_fails n st c = ?c"
    using Cons.prems f by (intro tunnel_fails_next) auto
  with Cons.IH [of ?c m s] Cons.prems f show ?case by (simp add: attach_def)
qed



end
