(* ===== verification/Guac_Streams.thy ===== *)
theory Guac_Streams
  imports Guac_Utf8 Guac_Status
begin

section \<open>Streams of bytes: readers and writers over base64 blobs\<close>

text \<open>
  A stream carries blobs of base64 text. The writers cut bytes into blobs
  (\<^verbatim>\<open>ArrayBufferWriter\<close>, \<^verbatim>\<open>StringWriter\<close>, \<^verbatim>\<open>BlobWriter\<close>); the readers turn blobs back
  into bytes or text (\<^verbatim>\<open>ArrayBufferReader\<close>, \<^verbatim>\<open>StringReader\<close>, \<^verbatim>\<open>BlobReader\<close>,
  \<^verbatim>\<open>JSONReader\<close>, \<^verbatim>\<open>DataURIReader\<close>). \<open>btoa\<close> and \<open>atob\<close> are the browser's base64
  functions. An operation returns what it hands to its stream or to its event handlers, in
  order. The chunk loop of \<^verbatim>\<open>sendData\<close> does not end when \<^verbatim>\<open>blobLength\<close> is 0 and is a
  partial function.
\<close>

subsection \<open>Base64\<close>

definition b64_char :: "nat \<Rightarrow> code_unit" where
  "b64_char n =
     (if n < 26 then 65 + n else if n < 52 then 71 + n else if n < 62 then n - 4
      else if n = 62 then 43 else 47)"

definition b64_value :: "code_unit \<Rightarrow> nat option" where
  "b64_value c =
     (if 65 \<le> c \<and> c \<le> 90 then Some (c - 65)
      else if 97 \<le> c \<and> c \<le> 122 then Some (c - 71)
      else if 48 \<le> c \<and> c \<le> 57 then Some (c + 4)
      else if c = 43 then Some 62 else if c = 47 then Some 63 else None)"

fun btoa :: "nat list \<Rightarrow> jsstring" where
  "btoa [] = []"
| "btoa [a] = [b64_char (a div 4), b64_char (a mod 4 * 16), 61, 61]"
| "btoa [a, b] =
     [b64_char (a div 4), b64_char (a mod 4 * 16 + b div 16), b64_char (b mod 16 * 4), 61]"
| "btoa (a # b # c # rest) =
     [b64_char (a div 4), b64_char (a mod 4 * 16 + b div 16), b64_char (b mod 16 * 4 + c div 64),
      b64_char (c mod 64)] @ btoa rest"

fun sextets_to_bytes :: "nat list \<Rightarrow> nat list option" where
  "sextets_to_bytes [] = Some []"
| "sextets_to_bytes [p] = None"
| "sextets_to_bytes [p, q] = Some [p * 4 + q div 16]"
| "sextets_to_bytes [p, q, r] = Some [p * 4 + q div 16, q mod 16 * 16 + r div 4]"
| "sextets_to_bytes (p # q # r # s # rest) =
     map_option (\<lambda>bs. [p * 4 + q div 16, q mod 16 * 16 + r div 4, r mod 4 * 64 + s] @ bs)
       (sextets_to_bytes rest)"

text \<open>
  \<^verbatim>\<open>atob\<close>: drop white space, drop up to two padding characters when the length is a
  multiple of four, refuse other characters and a length of one modulo four.
\<close>

definition ascii_space :: "code_unit \<Rightarrow> bool" where
  "ascii_space c \<longleftrightarrow> c \<in> {9, 10, 12, 13, 32}"

definition strip_padding :: "jsstring \<Rightarrow> jsstring" where
  "strip_padding s =
     (if length s mod 4 = 0 then
        (if take 2 (rev s) = [61, 61] then butlast (butlast s)
         else if take 1 (rev s) = [61] then butlast s else s)
      else s)"

definition atob :: "jsstring \<Rightarrow> nat list option" where
  "atob data =
     (let s = map b64_value (strip_padding (filter (\<lambda>c. \<not> ascii_space c) data))
      in if None \<in> set s then None else sextets_to_bytes (map the s))"

subsection \<open>ArrayBufferWriter and ArrayBufferReader\<close>

definition DEFAULT_BLOB_LENGTH :: nat where
  "DEFAULT_BLOB_LENGTH = 6048"

partial_function (option) chunks_from :: "nat \<Rightarrow> nat list \<Rightarrow> nat \<Rightarrow> nat list list option" where
  "chunks_from blobLength bytes offset =
     (if offset < length bytes then
        do { rest \<leftarrow> chunks_from blobLength bytes (offset + blobLength);
             Some (take blobLength (drop offset bytes) # rest) }
      else Some [])"

definition send_blob :: "nat list \<Rightarrow> jsstring" where
  "send_blob bytes = btoa bytes"

definition send_data :: "nat \<Rightarrow> nat list \<Rightarrow> jsstring list option" where
  "send_data blobLength bytes =
     (if length bytes \<le> blobLength then Some [send_blob bytes]
      else map_option (map send_blob) (chunks_from blobLength bytes 0))"

text \<open>\<^verbatim>\<open>atob\<close> throws on malformed data; then no handler runs.\<close>

definition reader_onblob :: "jsstring \<Rightarrow> nat list option" where
  "reader_onblob data = atob data"

subsection \<open>StringWriter and StringReader\<close>

definition send_text :: "jsstring \<Rightarrow> string_writer \<Rightarrow> (jsstring list \<times> string_writer) option" where
  "send_text str w =
     (if str \<noteq> [] then
        (case encode_utf8 str w of
           (Some bytes, w') \<Rightarrow> map_option (\<lambda>blobs. (blobs, w')) (send_data DEFAULT_BLOB_LENGTH bytes)
         | (None, w') \<Rightarrow> map_option (\<lambda>blobs. (blobs, w')) (send_data DEFAULT_BLOB_LENGTH []))
      else Some ([], w))"

definition string_reader_onblob ::
  "jsstring \<Rightarrow> utf8_parser \<Rightarrow> (jsstring \<times> utf8_parser) option" where
  "string_reader_onblob data s =
     map_option (\<lambda>bytes. case decode s bytes of (s', str) \<Rightarrow> (str, s')) (reader_onblob data)"

fun string_reader_run ::
  "jsstring list \<Rightarrow> utf8_parser \<Rightarrow> (jsstring list \<times> utf8_parser) option" where
  "string_reader_run [] s = Some ([], s)"
| "string_reader_run (d # ds) s =
     do { (str, s1) \<leftarrow> string_reader_onblob d s;
          (strs, s2) \<leftarrow> string_reader_run ds s1;
          Some (str # strs, s2) }"

subsection \<open>JSONReader, BlobReader and DataURIReader\<close>

record json_reader =
  json :: jsstring
  json_utf8 :: utf8_parser

definition json_onblob :: "jsstring \<Rightarrow> json_reader \<Rightarrow> (nat \<times> json_reader) option" where
  "json_onblob data r =
     map_option (\<lambda>(str, s). (length str, r\<lparr>json := json r @ str, json_utf8 := s\<rparr>))
       (string_reader_onblob data (json_utf8 r))"

record blob_reader =
  blob_parts :: "nat list list"
  blob_length :: nat

text \<open>
  A blob received by the blob reader is reported by its length and acknowledged; the second
  component is the acknowledgement it sends.
\<close>

definition blob_onblob ::
  "jsstring \<Rightarrow> blob_reader \<Rightarrow> (nat \<times> (jsstring \<times> int) \<times> blob_reader) option" where
  "blob_onblob data r =
     map_option (\<lambda>bytes. (length bytes, (js ''OK'', 0x0000),
         r\<lparr>blob_parts := blob_parts r @ [bytes], blob_length := blob_length r + length bytes\<rparr>))
       (atob data)"

definition get_blob :: "blob_reader \<Rightarrow> nat list" where
  "get_blob r = concat (blob_parts r)"

fun blob_reader_run :: "jsstring list \<Rightarrow> blob_reader \<Rightarrow> blob_reader option" where
  "blob_reader_run [] r = Some r"
| "blob_reader_run (d # ds) r =
     do { (n, ack, r1) \<leftarrow> blob_onblob d r; blob_reader_run ds r1 }"

definition new_data_uri :: "jsstring \<Rightarrow> jsstring" where
  "new_data_uri mimetype = js ''data:'' @ mimetype @ js '';base64,''"

definition data_uri_onblob :: "jsstring \<Rightarrow> jsstring \<Rightarrow> jsstring" where
  "data_uri_onblob data uri = uri @ data"

subsection \<open>BlobWriter\<close>

text \<open>
  \<^verbatim>\<open>slice\<close> must work with both generations of \<^verbatim>\<open>Blob.slice\<close>, whose second argument
  was once a length and is now an end. The browser's function is a parameter of \<open>bw_slice\<close>;
  \<open>slice_end\<close> and \<open>slice_length\<close> are the two documented behaviours.
\<close>

definition slice_end :: "nat list \<Rightarrow> nat \<Rightarrow> nat \<Rightarrow> nat list" where
  "slice_end b start stop = take (stop - start) (drop start b)"

definition slice_length :: "nat list \<Rightarrow> nat \<Rightarrow> nat \<Rightarrow> nat list" where
  "slice_length b start len = take len (drop start b)"

definition bw_slice ::
  "(nat list \<Rightarrow> nat \<Rightarrow> nat \<Rightarrow> nat list) \<Rightarrow> nat list \<Rightarrow> nat \<Rightarrow> nat \<Rightarrow> nat list" where
  "bw_slice impl b start stop =
     (let len = stop - start
      in if len \<noteq> stop \<and> length (impl b start len) = len then impl b start len
         else impl b start stop)"

text \<open>
  The transfer of one blob is driven by events: a chunk that was read, an acknowledgement, a
  read error. \<open>bw_read_next\<close> is \<^verbatim>\<open>readNextChunk\<close>; the events of the writer are what it
  asks of the file reader, what it sends, and the handlers it calls.
\<close>

datatype bw_event =
  Read_chunk "nat list"
| Sent_blob jsstring
| On_ack status
| On_progress int
| On_complete
| On_read_error nat

record blob_writer =
  bw_blob :: "nat list"
  bw_offset :: nat
  bw_resend :: bool

definition bw_read_next ::
  "(nat list \<Rightarrow> nat \<Rightarrow> nat \<Rightarrow> nat list) \<Rightarrow> nat \<Rightarrow> blob_writer \<Rightarrow> bw_event list \<times> blob_writer" where
  "bw_read_next impl blobLength w =
     (if bw_offset w \<ge> length (bw_blob w) then ([On_complete], w)
      else ([Read_chunk (bw_slice impl (bw_blob w) (bw_offset w) (bw_offset w + blobLength))],
            w\<lparr>bw_offset := bw_offset w + blobLength\<rparr>))"

definition bw_start ::
  "(nat list \<Rightarrow> nat \<Rightarrow> nat \<Rightarrow> nat list) \<Rightarrow> nat \<Rightarrow> nat list \<Rightarrow> bw_event list \<times> blob_writer" where
  "bw_start impl blobLength b =
     bw_read_next impl blobLength \<lparr>bw_blob = b, bw_offset = 0, bw_resend = False\<rparr>"

definition bw_onload :: "nat \<Rightarrow> nat list \<Rightarrow> blob_writer \<Rightarrow> (bw_event list \<times> blob_writer) option" where
  "bw_onload blobLength chunk w =
     map_option (\<lambda>blobs. (map Sent_blob blobs, w\<lparr>bw_resend := True\<rparr>)) (send_data blobLength chunk)"

definition bw_onack ::
  "(nat list \<Rightarrow> nat \<Rightarrow> nat \<Rightarrow> nat list) \<Rightarrow> nat \<Rightarrow> status \<Rightarrow> blob_writer \<Rightarrow> bw_event list \<times> blob_writer"
where
  "bw_onack impl blobLength st w =
     (if bw_resend w \<and> \<not> is_error st then
        (case bw_read_next impl blobLength w of
           (evs, w') \<Rightarrow> ([On_ack st, On_progress (int (bw_offset w) - int blobLength)] @ evs, w'))
      else ([On_ack st], w))"

definition bw_onerror :: "blob_writer \<Rightarrow> bw_event list \<times> blob_writer" where
  "bw_onerror w = ([On_read_error (bw_offset w)], w)"

text \<open>
  A whole transfer: every requested chunk is read, sent, and answered by the next
  acknowledgement of the list, until the list or the blob ends. The result is the blobs sent
  and whether the completion handler ran.
\<close>

fun requested_chunk :: "bw_event list \<Rightarrow> nat list option" where
  "requested_chunk [] = None"
| "requested_chunk (Read_chunk c # evs) = Some c"
| "requested_chunk (e # evs) = requested_chunk evs"

fun sent_blobs :: "bw_event list \<Rightarrow> jsstring list" where
  "sent_blobs [] = []"
| "sent_blobs (Sent_blob b # evs) = b # sent_blobs evs"
| "sent_blobs (e # evs) = sent_blobs evs"

fun bw_session ::
  "(nat list \<Rightarrow> nat \<Rightarrow> nat \<Rightarrow> nat list) \<Rightarrow> nat \<Rightarrow> status list \<Rightarrow> bw_event list \<times> blob_writer
    \<Rightarrow> jsstring list \<times> bool" where
  "bw_session impl n acks (evs, w) =
     (case requested_chunk evs of
        None \<Rightarrow> ([], On_complete \<in> set evs)
      | Some c \<Rightarrow>
          (case bw_onload n c w of
             None \<Rightarrow> ([], False)
           | Some (sent, w1) \<Rightarrow>
               (case acks of
                  [] \<Rightarrow> (sent_blobs sent, False)
                | a # as \<Rightarrow>
                    (case bw_session impl n as (bw_onack impl n a w1) of
                       (bs, ok) \<Rightarrow> (sent_blobs sent @ bs, ok)))))"

subsection \<open>Base64 round trip\<close>

definition bytes_wf :: "nat list \<Rightarrow> bool" where
  "bytes_wf bs = list_all (\<lambda>b. b < 256) bs"

fun sextets :: "nat list \<Rightarrow> nat list" where
  "sextets [] = []"
| "sextets [a] = [a div 4, a mod 4 * 16]"
| "sextets [a, b] = [a div 4, a mod 4 * 16 + b div 16, b mod 16 * 4]"
| "sextets (a # b # c # rest) =
     [a div 4, a mod 4 * 16 + b div 16, b mod 16 * 4 + c div 64, c mod 64] @ sextets rest"

lemma b64_char_facts:
  "n < 64 \<Longrightarrow> b64_value (b64_char n) = Some n"
  "n < 64 \<Longrightarrow> b64_char n \<noteq> 61 \<and> \<not> ascii_space (b64_char n)"
  by (auto simp: b64_char_def b64_value_def ascii_space_def)

lemma byte_fields:
  fixes a b c :: nat
  assumes "a < 256" "b < 256" "c < 256"
  shows "a div 4 < 64" "a mod 4 * 16 + b div 16 < 64" "b mod 16 * 4 + c div 64 < 64"
    "a mod 4 * 16 < 64" "b mod 16 * 4 < 64" "c mod 64 < 64"
    "(a mod 4 * 16 + b div 16) div 16 = a mod 4" "(a mod 4 * 16 + b div 16) mod 16 = b div 16"
    "(b mod 16 * 4 + c div 64) div 4 = b mod 16" "(b mod 16 * 4 + c div 64) mod 4 = c div 64"
    "a div 4 * 4 + a mod 4 = a" "b div 16 * 16 + b mod 16 = b" "c div 64 * 64 + c mod 64 = c"
proof -
  have q: "b div 16 < 16" "c div 64 < 4" "a mod 4 < 4" "b mod 16 < 16"
    using assms by auto
  then show "a mod 4 * 16 + b div 16 < 64" "b mod 16 * 4 + c div 64 < 64"
    "a mod 4 * 16 < 64" "b mod 16 * 4 < 64" by linarith+
  show "(a mod 4 * 16 + b div 16) div 16 = a mod 4" "(a mod 4 * 16 + b div 16) mod 16 = b div 16"
    "(b mod 16 * 4 + c div 64) div 4 = b mod 16" "(b mod 16 * 4 + c div 64) mod 4 = c div 64"
    using q by simp_all
qed (use assms in auto)

lemma sextets_facts:
  "bytes_wf bs \<Longrightarrow> list_all (\<lambda>n. n < 64) (sextets bs) \<and> sextets_to_bytes (sextets bs) = Some bs
   \<and> (\<exists>k \<le> 2. btoa bs = map b64_char (sextets bs) @ replicate k 61
        \<and> (length (sextets bs) + k) mod 4 = 0)"
proof (induction bs rule: sextets.induct)
  case 1
  show ?case by simp
next
  case (2 a)
  then have "a < 256" by (simp add: bytes_wf_def)
  with byte_fields [of a 0 0] show ?case by (auto simp: numeral_2_eq_2 intro!: exI [of _ 2])
next
  case (3 a b)
  then have "a < 256" "b < 256" by (simp_all add: bytes_wf_def)
  with byte_fields [of a b 0] show ?case by (auto intro!: exI [of _ 1])
next
  case (4 a b c rest)
  then have "a < 256" "b < 256" "c < 256" "bytes_wf rest" by (simp_all add: bytes_wf_def)
  with 4 byte_fields [of a b c] show ?case by auto
qed

lemma strip_padding_chars:
  assumes "list_all (\<lambda>n. n < 64) ss" and "k \<le> 2" and "(length ss + k) mod 4 = 0"
  shows "strip_padding (map b64_char ss @ replicate k 61) = map b64_char ss"
proof -
  have chars: "b64_char x \<noteq> 61" if "x \<in> set ss" for x
    using that assms(1) b64_char_facts(2) by (simp add: list_all_iff)
  consider "k = 0" | "k = 1" | "k = 2" using assms(2) by linarith
  then show ?thesis
  proof cases
    case 1
    with chars show ?thesis
      by (cases ss rule: rev_cases) (auto simp: strip_padding_def)
  next
    case 2
    with chars assms(3) show ?thesis
      by (cases ss rule: rev_cases) (auto simp: strip_padding_def butlast_append)
  next
    case 3
    with assms(3) show ?thesis
      by (simp add: strip_padding_def numeral_2_eq_2 butlast_append)
  qed
qed

lemma atob_btoa:
  assumes "bytes_wf bs"
  shows "atob (btoa bs) = Some bs"
proof -
  note sx = sextets_facts [OF assms]
  from sx have ex: "\<exists>k. k \<le> 2 \<and> btoa bs = map b64_char (sextets bs) @ replicate k 61
      \<and> (length (sextets bs) + k) mod 4 = 0" by (simp only: simp_thms)
  obtain k where btoa: "btoa bs = map b64_char (sextets bs) @ replicate k 61"
    and ss: "list_all (\<lambda>n. n < 64) (sextets bs)" "sextets_to_bytes (sextets bs) = Some bs" "k \<le> 2"
      "(length (sextets bs) + k) mod 4 = 0"
    using ex sx by (elim exE conjE) (rule that)
  have "\<not> ascii_space c" if "c \<in> set (btoa bs)" for c
  proof -
    from that btoa consider n where "n \<in> set (sextets bs)" "c = b64_char n" | "c = 61"
      by (auto simp: set_replicate_conv_if split: if_splits)
    then show ?thesis
      using ss(1) b64_char_facts(2) by cases (simp_all add: list_all_iff ascii_space_def)
  qed
  then have filt: "filter (\<lambda>c. \<not> ascii_space c) (btoa bs) = btoa bs"
    by (simp add: filter_id_conv)
  have vals: "map b64_value (map b64_char (sextets bs)) = map Some (sextets bs)"
    using ss(1) by (simp add: list_all_iff b64_char_facts(1))
  have strip: "strip_padding (btoa bs) = map b64_char (sextets bs)"
    using strip_padding_chars [OF ss(1,3,4)] btoa by simp
  have "atob (btoa bs) = sextets_to_bytes (map the (map Some (sextets bs)))"
    unfolding atob_def Let_def filt strip vals by (simp add: image_iff)
  with ss(2) show ?thesis by (simp add: comp_def)
qed

lemma length_btoa: "length (btoa bs) = (length bs + 2) div 3 * 4"
  by (induction bs rule: btoa.induct) (simp_all, arith)

subsection \<open>Chunks\<close>

lemma chunks_from_total:
  assumes "0 < n"
  shows "\<exists>cs. chunks_from n bytes off = Some cs \<and> concat cs = drop off bytes
    \<and> (\<forall>c \<in> set cs. c \<noteq> [] \<and> length c \<le> n)"
proof (induction "length bytes - off" arbitrary: off rule: less_induct)
  case less
  show ?case
  proof (cases "off < length bytes")
    case True
    then have "length bytes - (off + n) < length bytes - off" using assms by simp
    from less [OF this] obtain cs where cs: "chunks_from n bytes (off + n) = Some cs"
      "concat cs = drop (off + n) bytes" "\<forall>c \<in> set cs. c \<noteq> [] \<and> length c \<le> n" by blast
    have "take n (drop off bytes) @ drop (off + n) bytes = drop off bytes"
      by (metis add.commute append_take_drop_id drop_drop)
    with True cs assms show ?thesis
      by (subst chunks_from.simps) auto
  next
    case False
    then show ?thesis by (subst chunks_from.simps) simp
  qed
qed

lemma send_data_blobs:
  assumes "0 < n"
  shows "\<exists>cs. send_data n bytes = Some (map btoa cs) \<and> concat cs = bytes
    \<and> (\<forall>c \<in> set cs. length c \<le> n)"
proof (cases "length bytes \<le> n")
  case True
  then show ?thesis by (intro exI [of _ "[bytes]"]) (simp add: send_data_def send_blob_def)
next
  case False
  with chunks_from_total [OF assms, of bytes 0] show ?thesis
    by (auto simp: send_data_def send_blob_def [abs_def])
qed

lemma bytes_wf_concat: "bytes_wf (concat cs) \<longleftrightarrow> (\<forall>c \<in> set cs. bytes_wf c)"
  by (auto simp: bytes_wf_def list_all_iff)

lemma utf8_bytes_wf: "u < 65536 \<Longrightarrow> bytes_wf (utf8_bytes u)"
proof -
  assume u: "u < 65536"
  have m: "v mod 64 < 64" for v :: nat by simp
  show ?thesis
    using u m [of u] m [of "u div 64"]
    by (auto simp: utf8_bytes_def bytes_wf_def simp del: mod_less_divisor)
qed

lemma string_reader_run_blobs:
  assumes "\<forall>c \<in> set cs. bytes_wf c"
  shows "\<exists>strs. string_reader_run (map btoa cs) s = Some (strs, fst (decode s (concat cs)))
    \<and> concat strs = snd (decode s (concat cs))"
  using assms
proof (induction cs arbitrary: s)
  case (Cons c cs)
  obtain s1 str where d: "decode s c = (s1, str)" by (cases "decode s c")
  from Cons obtain strs where "string_reader_run (map btoa cs) s1 = Some (strs, fst (decode s1 (concat cs)))"
    "concat strs = snd (decode s1 (concat cs))" by auto
  with d Cons.prems show ?case
    by (auto simp: string_reader_onblob_def reader_onblob_def atob_btoa u8.feed_append
        split: prod.splits)
qed simp

subsection \<open>Properties of the streams\<close>

text \<open>
  Binary data that is sent through an array buffer writer always leaves it (the chunk loop
  ends for every positive blob length) as blobs of at most the blob length, whose decoded
  contents, joined in order, are the data; with the default length every blob is at most 8064
  characters, under the protocol's limit of 8192.
\<close>

theorem sent_data_is_received:
  assumes "0 < blobLength" and "bytes_wf bytes"
  shows "\<exists>blobs parts. send_data blobLength bytes = Some blobs
    \<and> map reader_onblob blobs = map Some parts \<and> concat parts = bytes
    \<and> (\<forall>b \<in> set blobs. length b \<le> (blobLength + 2) div 3 * 4)"
proof -
  from send_data_blobs [OF assms(1), of bytes] obtain cs where
    cs: "send_data blobLength bytes = Some (map btoa cs)" "concat cs = bytes"
      "\<forall>c \<in> set cs. length c \<le> blobLength" by blast
  then have "\<forall>c \<in> set cs. bytes_wf c" using assms(2) bytes_wf_concat by blast
  then have "map reader_onblob (map btoa cs) = map Some cs"
    by (simp add: reader_onblob_def atob_btoa)
  moreover have "length (btoa c) \<le> (blobLength + 2) div 3 * 4" if "c \<in> set cs" for c
    using cs(3) that by (simp add: length_btoa div_le_mono)
  ultimately show ?thesis
    using cs(1,2) by (intro exI [of _ "map btoa cs"] exI [of _ cs]) auto
qed

theorem sent_data_is_received_witness:
  "\<exists>blobs parts. send_data DEFAULT_BLOB_LENGTH (replicate 7000 255) = Some blobs
    \<and> map reader_onblob blobs = map Some parts \<and> concat parts = replicate 7000 255
    \<and> (\<forall>b \<in> set blobs. length b \<le> 8064)"
proof -
  have "bytes_wf (replicate 7000 255)" by (simp add: bytes_wf_def list_all_iff)
  from sent_data_is_received [OF _ this, of DEFAULT_BLOB_LENGTH] show ?thesis
    by (simp add: DEFAULT_BLOB_LENGTH_def)
qed

text \<open>
  (C4) Text sent through a string writer and received by a string reader is the same text, for
  every JavaScript string: the reader's successive \<^verbatim>\<open>ontext\<close> calls, joined, give it back,
  although the blobs cut the UTF-8 encoding at arbitrary bytes. The writer is left ready for
  the next call.
\<close>

theorem sent_text_is_received:
  assumes "js_wf str" and "sw_inv w" and "sw_length w = 0" and "bytesRemaining s = 0"
  shows "\<exists>blobs w' strs s'. send_text str w = Some (blobs, w')
    \<and> string_reader_run blobs s = Some (strs, s') \<and> concat strs = str
    \<and> bytesRemaining s' = 0 \<and> sw_inv w' \<and> sw_length w' = 0"
proof (cases "str = []")
  case True
  with assms show ?thesis by (simp add: send_text_def)
next
  case False
  let ?bytes = "concat (map utf8_bytes str)"
  from encode_utf8_bytes [OF assms(2,3,1) False] obtain w' where
    w': "encode_utf8 str w = (Some ?bytes, w')" "sw_inv w'" "sw_length w' = 0" by blast
  have "0 < DEFAULT_BLOB_LENGTH" by (simp add: DEFAULT_BLOB_LENGTH_def)
  from send_data_blobs [OF this, of ?bytes] obtain cs where
    cs: "send_data DEFAULT_BLOB_LENGTH ?bytes = Some (map btoa cs)" "concat cs = ?bytes" by blast
  have "bytes_wf ?bytes"
    using assms(1) utf8_bytes_wf by (auto simp: bytes_wf_concat js_wf_def list_all_iff)
  then have wf: "\<forall>c \<in> set cs. bytes_wf c" using cs(2) bytes_wf_concat by metis
  from decode_utf8_string [OF assms(4,1)] obtain s' where
    "decode s (concat cs) = (s', str)" "bytesRemaining s' = 0" unfolding cs(2) by blast
  with string_reader_run_blobs [OF wf, of s] False w' cs(1) show ?thesis
    by (auto simp: send_text_def)
qed

theorem sent_text_is_received_witness:
  "\<exists>blobs w' strs s'. send_text [104, 0x20AC, 0xD83D, 0xDE00] new_string_writer = Some (blobs, w')
    \<and> string_reader_run blobs new_utf8_parser = Some (strs, s')
    \<and> concat strs = [104, 0x20AC, 0xD83D, 0xDE00]
    \<and> bytesRemaining s' = 0 \<and> sw_inv w' \<and> sw_length w' = 0"
  by (rule sent_text_is_received)
    (simp_all add: new_string_writer_inv new_utf8_parser_def)

subsection \<open>Transfer of a blob\<close>

lemma bw_slice_both:
  assumes "0 < n" and "impl = slice_end \<or> impl = slice_length"
  shows "bw_slice impl b start (start + n) = take n (drop start b)"
  using assms by (auto simp: bw_slice_def Let_def slice_end_def slice_length_def min_def split: if_splits)

lemma sent_blobs_map [simp]: "sent_blobs (map Sent_blob bs) = bs"
  by (induction bs) auto

lemma bw_onload_chunk:
  "length c \<le> n \<Longrightarrow> bw_onload n c w = Some ([Sent_blob (btoa c)], w\<lparr>bw_resend := True\<rparr>)"
  by (simp add: bw_onload_def send_data_def send_blob_def)

lemma bw_session_accepted:
  assumes n: "0 < n" and impl: "impl = slice_end \<or> impl = slice_length"
    and "length (bw_blob w) \<le> bw_offset w + n * length acks"
    and "\<forall>a \<in> set acks. \<not> is_error a"
    and "set pre \<subseteq> {On_ack st, On_progress i}"
  shows "\<exists>cs. bw_session impl n acks (pre @ fst (bw_read_next impl n w), snd (bw_read_next impl n w))
      = (map btoa cs, True) \<and> concat cs = drop (bw_offset w) (bw_blob w)"
  using assms(3-)
proof (induction acks arbitrary: w pre st i)
  case Nil
  have "requested_chunk (pre @ [On_complete]) = None"
    using Nil.prems(3) by (induction pre) auto
  with Nil show ?case by (simp add: bw_read_next_def)
next
  case (Cons a as)
  show ?case
  proof (cases "bw_offset w \<ge> length (bw_blob w)")
    case True
    have "requested_chunk (pre @ [On_complete]) = None"
      using Cons.prems(3) by (induction pre) auto
    with True show ?thesis by (simp add: bw_read_next_def)
  next
    case False
    define c where "c = take n (drop (bw_offset w) (bw_blob w))"
    define w1 where "w1 = w\<lparr>bw_offset := bw_offset w + n, bw_resend := True\<rparr>"
    have rn: "bw_read_next impl n w = ([Read_chunk c], w\<lparr>bw_offset := bw_offset w + n\<rparr>)"
      using False bw_slice_both [OF n impl] by (simp add: bw_read_next_def c_def)
    have rc: "requested_chunk (pre @ [Read_chunk c]) = Some c"
      using Cons.prems(3) by (induction pre) auto
    have load: "bw_onload n c (w\<lparr>bw_offset := bw_offset w + n\<rparr>) = Some ([Sent_blob (btoa c)], w1)"
      by (simp add: bw_onload_chunk c_def w1_def)
    have ack: "bw_onack impl n a w1 = ([On_ack a, On_progress (int (bw_offset w))]
        @ fst (bw_read_next impl n w1), snd (bw_read_next impl n w1))"
      using Cons.prems(2) by (simp add: bw_onack_def w1_def split: prod.splits)
    from Cons.IH [of w1 "[On_ack a, On_progress (int (bw_offset w))]"] Cons.prems(1,2)
    obtain cs where cs: "bw_session impl n as (bw_onack impl n a w1) = (map btoa cs, True)"
      "concat cs = drop (bw_offset w + n) (bw_blob w)"
      unfolding ack by (auto simp: w1_def algebra_simps)
    have "c @ drop (bw_offset w + n) (bw_blob w) = drop (bw_offset w) (bw_blob w)"
      by (metis add.commute append_take_drop_id c_def drop_drop)
    with cs rn rc load show ?thesis by (intro exI [of _ "c # cs"]) simp
  qed
qed

text \<open>
  A blob writer sends the whole blob, in order and complete, whichever meaning the browser
  gives to the second argument of \<^verbatim>\<open>Blob.slice\<close>: if every chunk is acknowledged without
  error, the contents of the blobs sent are the blob and the completion handler runs.
\<close>

theorem blob_transfer_complete:
  assumes "0 < n" and "impl = slice_end \<or> impl = slice_length"
    and "bytes_wf b" and "length b \<le> n * length acks" and "\<forall>a \<in> set acks. \<not> is_error a"
  shows "\<exists>blobs parts. bw_session impl n acks (bw_start impl n b) = (blobs, True)
    \<and> map reader_onblob blobs = map Some parts \<and> concat parts = b"
proof -
  let ?w = "\<lparr>bw_blob = b, bw_offset = 0, bw_resend = False\<rparr>"
  from bw_session_accepted [OF assms(1,2), of ?w acks "[]"] assms(4,5) obtain cs where
    cs: "bw_session impl n acks (bw_start impl n b) = (map btoa cs, True)" "concat cs = b"
    by (auto simp: bw_start_def)
  then have "\<forall>c \<in> set cs. bytes_wf c" using assms(3) bytes_wf_concat by blast
  then have "map reader_onblob (map btoa cs) = map Some cs" by (simp add: reader_onblob_def atob_btoa)
  with cs show ?thesis by blast
qed

theorem blob_transfer_complete_witness:
  "\<exists>blobs parts. bw_session slice_length 2 (replicate 3 (named_status SUCCESS None))
      (bw_start slice_length 2 [1, 2, 3, 4, 5]) = (blobs, True)
    \<and> map reader_onblob blobs = map Some parts \<and> concat parts = [1, 2, 3, 4, 5]"
  by (rule blob_transfer_complete) (auto simp: bytes_wf_def)

text \<open>
  An acknowledgement that carries an error status ends the transfer: nothing more is read or
  sent, only the acknowledgement handler is called, and the offset stays where it was.
\<close>

lemma blob_transfer_stops_on_error: "is_error st \<Longrightarrow> bw_onack impl n st w = ([On_ack st], w)"
  by (simp add: bw_onack_def)

end
