(* ===== verification/Guac_Transfer.thy ===== *)
theory Guac_Transfer
  imports Guac_Prelude "HOL-Library.Word"
begin

section \<open>Guacamole.Client.DefaultTransferFunction: the sixteen raster operations\<close>

text \<open>
  A transfer function combines a source pixel with a destination pixel in place. The channels
  are bytes of a canvas, so \<^verbatim>\<open>0xFF & ~x\<close> is the complement of an \<^typ>\<open>8 word\<close>.
  \<open>transfer_function\<close> is the table, \<open>None\<close> where it has no entry.
\<close>

unbundle bit_operations_syntax

record pixel =
  red :: "8 word"
  green :: "8 word"
  blue :: "8 word"
  alpha :: "8 word"

definition on_channels :: "(8 word \<Rightarrow> 8 word \<Rightarrow> 8 word) \<Rightarrow> pixel \<Rightarrow> pixel \<Rightarrow> pixel" where
  "on_channels f src dst =
     dst\<lparr>red := f (red src) (red dst), green := f (green src) (green dst), blue := f (blue src) (blue dst)\<rparr>"

definition transfer_function :: "int \<Rightarrow> (pixel \<Rightarrow> pixel \<Rightarrow> pixel) option" where
  "transfer_function k =
     (if k = 0x0 then Some (on_channels (\<lambda>s d. 0x00))
      else if k = 0xF then Some (on_channels (\<lambda>s d. 0xFF))
      else if k = 0x3 then Some (\<lambda>src dst. (on_channels (\<lambda>s d. s) src dst)\<lparr>alpha := alpha src\<rparr>)
      else if k = 0x5 then Some (\<lambda>src dst. dst)
      else if k = 0xC then Some (\<lambda>src dst. (on_channels (\<lambda>s d. NOT s) src dst)\<lparr>alpha := alpha src\<rparr>)
      else if k = 0xA then Some (on_channels (\<lambda>s d. NOT d))
      else if k = 0x1 then Some (on_channels (\<lambda>s d. s AND d))
      else if k = 0xE then Some (on_channels (\<lambda>s d. NOT (s AND d)))
      else if k = 0x7 then Some (on_channels (\<lambda>s d. s OR d))
      else if k = 0x8 then Some (on_channels (\<lambda>s d. NOT (s OR d)))
      else if k = 0x6 then Some (on_channels (\<lambda>s d. s XOR d))
      else if k = 0x9 then Some (on_channels (\<lambda>s d. NOT (s XOR d)))
      else if k = 0x4 then Some (on_channels (\<lambda>s d. NOT s AND d))
      else if k = 0xD then Some (on_channels (\<lambda>s d. NOT s OR d))
      else if k = 0x2 then Some (on_channels (\<lambda>s d. s AND NOT d))
      else if k = 0xB then Some (on_channels (\<lambda>s d. s OR NOT d))
      else None)"

text \<open>
  The number of a raster operation is its truth table: bit \<open>3 - 2 s - d\<close> of the number is the
  result for source bit \<open>s\<close> and destination bit \<open>d\<close>.
\<close>

definition truth_table :: "int \<Rightarrow> bool \<Rightarrow> bool \<Rightarrow> bool" where
  "truth_table k s d = bit k (3 - 2 * of_bool s - of_bool d)"

definition implements :: "int \<Rightarrow> (pixel \<Rightarrow> pixel \<Rightarrow> pixel) \<Rightarrow> bool" where
  "implements k f \<longleftrightarrow>
     (\<forall>src dst n. n < 8 \<longrightarrow>
        bit (red (f src dst)) n = truth_table k (bit (red src) n) (bit (red dst) n) \<and>
        bit (green (f src dst)) n = truth_table k (bit (green src) n) (bit (green dst) n) \<and>
        bit (blue (f src dst)) n = truth_table k (bit (blue src) n) (bit (blue dst) n))"

lemma implements_on_channels:
  assumes "\<And>s d n. n < 8 \<Longrightarrow> bit (f s d) n = truth_table k (bit s n) (bit d n)"
  shows "implements k (on_channels f)"
  using assms by (simp add: implements_def on_channels_def)

lemma implements_alpha:
  "implements k f \<Longrightarrow> implements k (\<lambda>src dst. (f src dst)\<lparr>alpha := g src dst\<rparr>)"
  by (simp add: implements_def)

lemma truth_table_simps:
  "truth_table k True True = bit k 0" "truth_table k True False = bit k 1"
  "truth_table k False True = bit k 2" "truth_table k False False = bit k 3"
  by (simp_all add: truth_table_def eval_nat_numeral)

lemma bit_255: "n < 8 \<Longrightarrow> bit (0xFF :: 8 word) n"
proof -
  have "(0xFF :: 8 word) = - 1" by simp
  then show "n < 8 \<Longrightarrow> ?thesis" by (simp only: bit_minus_1_iff) simp
qed

lemma implements_dst: "implements 5 (\<lambda>src dst. dst)"
proof -
  have "bit d n = truth_table 5 (bit s n) (bit d n)" for s d :: "8 word" and n
    by (cases "bit s n"; cases "bit d n") (simp_all add: truth_table_simps bit_numeral_rec)
  then show ?thesis by (simp add: implements_def)
qed

lemma channel_functions:
  assumes "n < 8"
  shows "bit (0 :: 8 word) n = truth_table 0 (bit s n) (bit d n)"
    "bit (0xFF :: 8 word) n = truth_table 15 (bit s n) (bit d n)"
    "bit s n = truth_table 3 (bit s n) (bit (d :: 8 word) n)"
    "bit (NOT s :: 8 word) n = truth_table 12 (bit s n) (bit (d :: 8 word) n)"
    "bit (NOT d :: 8 word) n = truth_table 10 (bit s n) (bit d n)"
    "bit (s AND d :: 8 word) n = truth_table 1 (bit s n) (bit d n)"
    "bit (NOT (s AND d) :: 8 word) n = truth_table 14 (bit s n) (bit d n)"
    "bit (s OR d :: 8 word) n = truth_table 7 (bit s n) (bit d n)"
    "bit (NOT (s OR d) :: 8 word) n = truth_table 8 (bit s n) (bit d n)"
    "bit (s XOR d :: 8 word) n = truth_table 6 (bit s n) (bit d n)"
    "bit (NOT (s XOR d) :: 8 word) n = truth_table 9 (bit s n) (bit d n)"
    "bit (NOT s AND d :: 8 word) n = truth_table 4 (bit s n) (bit d n)"
    "bit (NOT s OR d :: 8 word) n = truth_table 13 (bit s n) (bit d n)"
    "bit (s AND NOT d :: 8 word) n = truth_table 2 (bit s n) (bit d n)"
    "bit (s OR NOT d :: 8 word) n = truth_table 11 (bit s n) (bit d n)"
  using assms bit_255 [OF assms]
  by (cases "bit s n"; cases "bit d n";
      simp add: truth_table_simps bit_numeral_rec bit_and_iff bit_or_iff bit_xor_iff bit_not_iff)+

lemma raster_operations:
  "implements 0 (on_channels (\<lambda>s d. 0))" "implements 15 (on_channels (\<lambda>s d. 0xFF))"
  "implements 3 (on_channels (\<lambda>s d. s))" "implements 12 (on_channels (\<lambda>s d. NOT s))"
  "implements 10 (on_channels (\<lambda>s d. NOT d))" "implements 1 (on_channels (\<lambda>s d. s AND d))"
  "implements 14 (on_channels (\<lambda>s d. NOT (s AND d)))" "implements 7 (on_channels (\<lambda>s d. s OR d))"
  "implements 8 (on_channels (\<lambda>s d. NOT (s OR d)))" "implements 6 (on_channels (\<lambda>s d. s XOR d))"
  "implements 9 (on_channels (\<lambda>s d. NOT (s XOR d)))" "implements 4 (on_channels (\<lambda>s d. NOT s AND d))"
  "implements 13 (on_channels (\<lambda>s d. NOT s OR d))" "implements 2 (on_channels (\<lambda>s d. s AND NOT d))"
  "implements 11 (on_channels (\<lambda>s d. s OR NOT d))"
  by (rule implements_on_channels, erule channel_functions)+

lemma transfer_function_Some:
  assumes "transfer_function k = Some f"
  shows "0 \<le> k \<and> k \<le> 15 \<and> implements k f"
  using assms raster_operations implements_dst implements_alpha
  unfolding transfer_function_def by (simp split: if_split_asm) (auto split: if_split_asm)

lemma transfer_function_None:
  assumes "transfer_function k = None"
  shows "k < 0 \<or> 15 < k"
  using assms unfolding transfer_function_def by (simp split: if_split_asm) presburger

text \<open>
  (C16) The table of transfer functions is complete and correct: it has an entry exactly for
  the numbers 0 to 15, and the entry for a number computes, on every bit of the three colour
  channels, the binary boolean function whose truth table that number is.
\<close>

theorem transfer_functions_are_truth_tables:
  "case transfer_function k of
     None \<Rightarrow> k < 0 \<or> 15 < k
   | Some f \<Rightarrow> 0 \<le> k \<and> k \<le> 15 \<and> implements k f"
  using transfer_function_Some [of k] transfer_function_None [of k] by (simp split: option.split)

end
