(* ===== verification/Guac_Object.thy ===== *)
theory Guac_Object
  imports Guac_Client
begin

section \<open>Guacamole.Object, InputStream and OutputStream\<close>

text \<open>
  A filesystem object asks for its streams by name and keeps, for each name, a queue of the
  callbacks that wait for a body (callbacks are numbered). The queues are a map from names;
  a name that is also a property of \<^verbatim>\<open>Object.prototype\<close> is outside the model. The stream
  objects only pass calls on to the client.
\<close>

record guac_object =
  obj_index :: int
  body_callbacks :: "jsstring \<rightharpoonup> nat list"

definition new_object :: "int \<Rightarrow> guac_object" where
  "new_object i = \<lparr>obj_index = i, body_callbacks = Map.empty\<rparr>"

definition ROOT_STREAM :: jsstring where
  "ROOT_STREAM = js ''/''"

definition STREAM_INDEX_MIMETYPE :: jsstring where
  "STREAM_INDEX_MIMETYPE = js ''application/vnd.glyptodon.guacamole.stream-index+json''"

definition dequeue_body_callback :: "jsstring \<Rightarrow> guac_object \<Rightarrow> nat option \<times> guac_object" where
  "dequeue_body_callback name ob =
     (case body_callbacks ob name of
        None \<Rightarrow> (None, ob)
      | Some [] \<Rightarrow> (None, ob\<lparr>body_callbacks := (body_callbacks ob)(name := None)\<rparr>)
      | Some (f # fs) \<Rightarrow>
          (Some f, ob\<lparr>body_callbacks := (body_callbacks ob)(name := (if fs = [] then None else Some fs))\<rparr>))"

definition enqueue_body_callback :: "jsstring \<Rightarrow> nat \<Rightarrow> guac_object \<Rightarrow> guac_object" where
  "enqueue_body_callback name f ob =
     (let fs = (case body_callbacks ob name of None \<Rightarrow> [] | Some fs \<Rightarrow> fs)
      in ob\<lparr>body_callbacks := (body_callbacks ob)(name \<mapsto> fs @ [f])\<rparr>)"

text \<open>The default \<^verbatim>\<open>onbody\<close>: the callback that is called, if any.\<close>

definition default_body_handler :: "jsstring \<Rightarrow> guac_object \<Rightarrow> nat option \<times> guac_object" where
  "default_body_handler name ob = dequeue_body_callback name ob"

definition request_input_stream ::
  "jsstring \<Rightarrow> nat option \<Rightarrow> guac_object \<Rightarrow> client \<Rightarrow> guac_object \<times> client" where
  "request_input_stream name f ob c =
     ((case f of None \<Rightarrow> ob | Some g \<Rightarrow> enqueue_body_callback name g ob),
      request_object_input_stream (obj_index ob) name c)"

definition object_create_output_stream ::
  "jsstring \<Rightarrow> jsstring \<Rightarrow> guac_object \<Rightarrow> client \<Rightarrow> (int \<times> nat) \<times> client" where
  "object_create_output_stream mimetype name ob c = create_object_output_stream (obj_index ob) mimetype name c"

subsection \<open>Stream objects\<close>

record input_stream = in_index :: jsnum
record output_stream = out_index :: int

definition input_stream_send_ack :: "input_stream \<Rightarrow> jsstring \<Rightarrow> int \<Rightarrow> client \<Rightarrow> client" where
  "input_stream_send_ack s msg k c = send_ack (in_index s) msg k c"

definition output_stream_send_blob :: "output_stream \<Rightarrow> jsstring \<Rightarrow> client \<Rightarrow> client" where
  "output_stream_send_blob s data c = send_client_blob (out_index s) data c"

definition output_stream_send_end :: "output_stream \<Rightarrow> client \<Rightarrow> client" where
  "output_stream_send_end s c = end_stream (out_index s) c"

subsection \<open>The queues\<close>

datatype object_event = Requested jsstring nat | Body_arrives jsstring

fun object_run :: "object_event list \<Rightarrow> guac_object \<Rightarrow> (jsstring \<times> nat) list \<times> guac_object" where
  "object_run [] ob = ([], ob)"
| "object_run (Requested name f # es) ob = object_run es (enqueue_body_callback name f ob)"
| "object_run (Body_arrives name # es) ob =
     (case default_body_handler name ob of
        (g, ob1) \<Rightarrow>
          (case object_run es ob1 of
             (calls, ob2) \<Rightarrow> ((case g of None \<Rightarrow> [] | Some f \<Rightarrow> [(name, f)]) @ calls, ob2)))"

fun requested_for :: "jsstring \<Rightarrow> object_event \<Rightarrow> nat list" where
  "requested_for n (Requested m f) = (if m = n then [f] else [])"
| "requested_for n (Body_arrives m) = []"

definition waiting :: "jsstring \<Rightarrow> guac_object \<Rightarrow> nat list" where
  "waiting n ob = (case body_callbacks ob n of None \<Rightarrow> [] | Some fs \<Rightarrow> fs)"

lemma waiting_enqueue [simp]:
  "waiting n (enqueue_body_callback m f ob) = (if n = m then waiting n ob @ [f] else waiting n ob)"
  by (simp add: waiting_def enqueue_body_callback_def Let_def split: option.split)

lemma waiting_dequeue:
  assumes "dequeue_body_callback m ob = (g, ob')"
  shows "waiting n ob = (if n = m then (case g of None \<Rightarrow> [] | Some f \<Rightarrow> [f]) @ waiting n ob' else waiting n ob')"
  using assms by (auto simp: waiting_def dequeue_body_callback_def split: option.splits list.splits if_splits)

text \<open>
  Callbacks are called in the order of the requests, one for each body: for every name,
  whatever requests and bodies (of this and of other names) arrive in between, the callbacks
  called so far followed by those still waiting are the callbacks that were waiting at the
  start followed by those requested since.
\<close>

theorem object_callbacks_in_order:
  assumes "object_run es ob = (calls, ob')"
  shows "map snd (filter (\<lambda>(m, f). m = n) calls) @ waiting n ob' =
    waiting n ob @ concat (map (requested_for n) es)"
  using assms
proof (induction es arbitrary: ob calls)
  case Nil
  then show ?case by simp
next
  case (Cons e es)
  show ?case
  proof (cases e)
    case (Requested m f)
    with Cons.prems Cons.IH [of "enqueue_body_callback m f ob" calls] show ?thesis by auto
  next
    case (Body_arrives m)
    obtain g ob1 where g: "dequeue_body_callback m ob = (g, ob1)" by fastforce
    obtain cs where "object_run es ob1 = (cs, ob')" "calls = (case g of None \<Rightarrow> [] | Some f \<Rightarrow> [(m, f)]) @ cs"
      using Cons.prems Body_arrives g by (auto simp: default_body_handler_def split: prod.splits)
    with Cons.IH [of ob1 cs] waiting_dequeue [OF g, of n] Body_arrives show ?thesis
      by (auto split: option.splits)
  qed
qed

theorem object_callbacks_in_order_witness:
  "map snd (filter (\<lambda>(m, f). m = js ''a'') [(js ''a'', 1)]) @ waiting (js ''a'')
       (snd (object_run [Requested (js ''a'') 1, Requested (js ''a'') 2, Body_arrives (js ''a''), Body_arrives (js ''b'')] (new_object 0)))
   = waiting (js ''a'') (new_object 0) @ concat (map (requested_for (js ''a''))
       [Requested (js ''a'') 1, Requested (js ''a'') 2, Body_arrives (js ''a''), Body_arrives (js ''b'')])"
proof (rule object_callbacks_in_order)
  let ?es = "[Requested (js ''a'') 1, Requested (js ''a'') 2, Body_arrives (js ''a''), Body_arrives (js ''b'')]"
  show "object_run ?es (new_object 0) = ([(js ''a'', 1)], snd (object_run ?es (new_object 0)))"
    by (simp add: new_object_def default_body_handler_def dequeue_body_callback_def enqueue_body_callback_def js_eval)
qed

end
