(* ===== verification/Guac_Keyboard.thy ===== *)
theory Guac_Keyboard
  imports Guac_Prelude
begin

section \<open>Guacamole.Keyboard: from browser key events to key presses\<close>

text \<open>
  The keyboard turns the browser's \<^verbatim>\<open>keydown\<close>, \<^verbatim>\<open>keypress\<close> and \<^verbatim>\<open>keyup\<close> events into presses and
  releases of X11 keysyms. A \<^verbatim>\<open>keydown\<close> whose character is not yet certain waits in the event
  log for the \<^verbatim>\<open>keypress\<close> that may follow it. The variables of the object are the record
  \<open>keyboard\<close>; the calls of \<^verbatim>\<open>onkeydown\<close> and \<^verbatim>\<open>onkeyup\<close> are appended to \<open>key_trace\<close>.

  \<open>config\<close> holds what is fixed: the quirks of the platform, which callbacks are set, what
  \<^verbatim>\<open>onkeydown\<close> answers (its truth value), and the case conversion of the language, which is used
  for the legacy property \<^verbatim>\<open>keyIdentifier\<close> alone. Keysyms are integers, \<open>None\<close> being \<^verbatim>\<open>null\<close>.
  The keys of the tables of pressed keys are non-negative integers, which JavaScript
  enumerates in ascending order, so these tables are ascending lists. The time stamps of the
  events are never read and are left out.
\<close>

subsection \<open>Data\<close>

type_synonym keysym = "int option"

record modifier_state =
  m_shift :: bool
  m_ctrl :: bool
  m_alt :: bool
  m_meta :: bool
  m_hyper :: bool

definition no_modifiers :: modifier_state where
  "no_modifiers = \<lparr>m_shift = False, m_ctrl = False, m_alt = False, m_meta = False, m_hyper = False\<rparr>"

text \<open>
  What the code reads of a browser event. \<open>os_states\<close> are the answers of \<^verbatim>\<open>getModifierState\<close>
  for \<^verbatim>\<open>OS\<close>, \<^verbatim>\<open>Super\<close>, \<^verbatim>\<open>Hyper\<close> and \<^verbatim>\<open>Win\<close>, empty if the method is missing; the locations are
  \<open>None\<close> if the property is missing.
\<close>

record dom_event =
  dom_id :: nat
  which :: int
  dom_key_code :: int
  key_identifier :: "jsstring option"
  dom_key :: "jsstring option"
  dom_location :: "int option"
  dom_key_location :: "int option"
  shift_key :: bool
  ctrl_key :: bool
  alt_key :: bool
  meta_key :: bool
  os_states :: "bool list"

definition from_keyboard_event :: "dom_event \<Rightarrow> modifier_state" where
  "from_keyboard_event e =
     \<lparr>m_shift = shift_key e, m_ctrl = ctrl_key e, m_alt = alt_key e, m_meta = meta_key e,
      m_hyper = list_ex (\<lambda>b. b) (os_states e)\<rparr>"

definition get_event_location :: "dom_event \<Rightarrow> int" where
  "get_event_location e =
     (case dom_location e of
        Some l \<Rightarrow> l
      | None \<Rightarrow> (case dom_key_location e of Some l \<Rightarrow> l | None \<Rightarrow> 0))"

datatype event_kind = Keydown | Keypress | Keyup

record key_event =
  kind :: event_kind
  key_code :: int
  event_keysym :: keysym
  modifiers :: modifier_state
  reliable :: bool
  keyup_reliable :: bool
  default_prevented :: bool

datatype key_call = Down int | Up int

record config =
  keyup_unreliable :: bool
  alt_is_typable_only :: bool
  caps_lock_keyup_unreliable :: bool
  onkeydown_set :: bool
  onkeyup_set :: bool
  onkeydown_result :: "int \<Rightarrow> bool"
  to_upper :: "jsstring \<Rightarrow> jsstring"
  to_lower :: "jsstring \<Rightarrow> jsstring"

record keyboard =
  event_log :: "key_event list"
  kb_modifiers :: modifier_state
  pressed :: "int list"
  implicitly_pressed :: "int list"
  last_keydown_result :: "int \<rightharpoonup> bool"
  recent_keysym :: "int \<Rightarrow> keysym"
  repeat_timeout :: "int option"
  repeat_interval :: "int option"
  marked :: "nat list"
  listens_input :: bool
  listens_composition :: bool
  key_trace :: "key_call list"

definition new_keyboard :: keyboard where
  "new_keyboard = \<lparr>event_log = [], kb_modifiers = no_modifiers, pressed = [], implicitly_pressed = [],
     last_keydown_result = Map.empty, recent_keysym = (\<lambda>c. None), repeat_timeout = None,
     repeat_interval = None, marked = [], listens_input = True, listens_composition = True, key_trace = []\<rparr>"

text \<open>The quirks of a platform, by its name.\<close>

fun lower_ascii :: "code_unit \<Rightarrow> code_unit" where
  "lower_ascii c = (if 65 \<le> c \<and> c \<le> 90 then c + 32 else c)"

fun starts_with :: "jsstring \<Rightarrow> jsstring \<Rightarrow> bool" where
  "starts_with [] s = True"
| "starts_with (x # xs) [] = False"
| "starts_with (x # xs) (y # ys) = (x = y \<and> starts_with xs ys)"

fun find_text :: "jsstring \<Rightarrow> jsstring \<Rightarrow> nat option" where
  "find_text p [] = (if p = [] then Some 0 else None)"
| "find_text p (c # s) = (if starts_with p (c # s) then Some 0 else map_option Suc (find_text p s))"

definition set_quirks :: "jsstring \<Rightarrow> config \<Rightarrow> config" where
  "set_quirks platform cf =
     (let p = map lower_ascii platform
      in if find_text (js ''ipad'') p \<noteq> None \<or> find_text (js ''iphone'') p \<noteq> None
            \<or> find_text (js ''ipod'') p \<noteq> None
         then cf\<lparr>keyup_unreliable := True\<rparr>
         else if starts_with (js ''mac'') p
         then cf\<lparr>alt_is_typable_only := True, caps_lock_keyup_unreliable := True\<rparr>
         else cf)"

subsection \<open>Keysyms\<close>

definition keycode_keysyms :: "(int \<times> int list) list" where
  "keycode_keysyms =
     [
      (8, [0xFF08]), (9, [0xFF09]), (12, [0xFF0B, 0xFF0B, 0xFF0B, 0xFFB5]), (13, [0xFF0D]),
      (16, [0xFFE1, 0xFFE1, 0xFFE2]), (17, [0xFFE3, 0xFFE3, 0xFFE4]),
      (18, [0xFFE9, 0xFFE9, 0xFE03]), (19, [0xFF13]), (20, [0xFFE5]), (27, [0xFF1B]),
      (32, [0x0020]), (33, [0xFF55, 0xFF55, 0xFF55, 0xFFB9]),
      (34, [0xFF56, 0xFF56, 0xFF56, 0xFFB3]), (35, [0xFF57, 0xFF57, 0xFF57, 0xFFB1]),
      (36, [0xFF50, 0xFF50, 0xFF50, 0xFFB7]), (37, [0xFF51, 0xFF51, 0xFF51, 0xFFB4]),
      (38, [0xFF52, 0xFF52, 0xFF52, 0xFFB8]), (39, [0xFF53, 0xFF53, 0xFF53, 0xFFB6]),
      (40, [0xFF54, 0xFF54, 0xFF54, 0xFFB2]), (45, [0xFF63, 0xFF63, 0xFF63, 0xFFB0]),
      (46, [0xFFFF, 0xFFFF, 0xFFFF, 0xFFAE]), (91, [0xFFE7]), (92, [0xFFE8]), (93, [0xFF67]),
      (96, [0xFFB0]), (97, [0xFFB1]), (98, [0xFFB2]), (99, [0xFFB3]), (100, [0xFFB4]),
      (101, [0xFFB5]), (102, [0xFFB6]), (103, [0xFFB7]), (104, [0xFFB8]), (105, [0xFFB9]),
      (106, [0xFFAA]), (107, [0xFFAB]), (109, [0xFFAD]), (110, [0xFFAE]), (111, [0xFFAF]),
      (112, [0xFFBE]), (113, [0xFFBF]), (114, [0xFFC0]), (115, [0xFFC1]), (116, [0xFFC2]),
      (117, [0xFFC3]), (118, [0xFFC4]), (119, [0xFFC5]), (120, [0xFFC6]), (121, [0xFFC7]),
      (122, [0xFFC8]), (123, [0xFFC9]), (144, [0xFF7F]), (145, [0xFF14]), (225, [0xFE03])
     ]"

definition keyidentifier_keysym :: "(jsstring \<times> int list option) list" where
  "keyidentifier_keysym =
     [
      (js ''Again'', Some [0xFF66]), (js ''AllCandidates'', Some [0xFF3D]),
      (js ''Alphanumeric'', Some [0xFF30]), (js ''Alt'', Some [0xFFE9, 0xFFE9, 0xFE03]),
      (js ''Attn'', Some [0xFD0E]), (js ''AltGraph'', Some [0xFE03]),
      (js ''ArrowDown'', Some [0xFF54]), (js ''ArrowLeft'', Some [0xFF51]),
      (js ''ArrowRight'', Some [0xFF53]), (js ''ArrowUp'', Some [0xFF52]),
      (js ''Backspace'', Some [0xFF08]), (js ''CapsLock'', Some [0xFFE5]),
      (js ''Cancel'', Some [0xFF69]), (js ''Clear'', Some [0xFF0B]),
      (js ''Convert'', Some [0xFF21]), (js ''Copy'', Some [0xFD15]), (js ''Crsel'', Some [0xFD1C]),
      (js ''CrSel'', Some [0xFD1C]), (js ''CodeInput'', Some [0xFF37]),
      (js ''Compose'', Some [0xFF20]), (js ''Control'', Some [0xFFE3, 0xFFE3, 0xFFE4]),
      (js ''ContextMenu'', Some [0xFF67]), (js ''Delete'', Some [0xFFFF]),
      (js ''Down'', Some [0xFF54]), (js ''End'', Some [0xFF57]), (js ''Enter'', Some [0xFF0D]),
      (js ''EraseEof'', Some [0xFD06]), (js ''Escape'', Some [0xFF1B]),
      (js ''Execute'', Some [0xFF62]), (js ''Exsel'', Some [0xFD1D]),
      (js ''ExSel'', Some [0xFD1D]), (js ''F1'', Some [0xFFBE]), (js ''F2'', Some [0xFFBF]),
      (js ''F3'', Some [0xFFC0]), (js ''F4'', Some [0xFFC1]), (js ''F5'', Some [0xFFC2]),
      (js ''F6'', Some [0xFFC3]), (js ''F7'', Some [0xFFC4]), (js ''F8'', Some [0xFFC5]),
      (js ''F9'', Some [0xFFC6]), (js ''F10'', Some [0xFFC7]), (js ''F11'', Some [0xFFC8]),
      (js ''F12'', Some [0xFFC9]), (js ''F13'', Some [0xFFCA]), (js ''F14'', Some [0xFFCB]),
      (js ''F15'', Some [0xFFCC]), (js ''F16'', Some [0xFFCD]), (js ''F17'', Some [0xFFCE]),
      (js ''F18'', Some [0xFFCF]), (js ''F19'', Some [0xFFD0]), (js ''F20'', Some [0xFFD1]),
      (js ''F21'', Some [0xFFD2]), (js ''F22'', Some [0xFFD3]), (js ''F23'', Some [0xFFD4]),
      (js ''F24'', Some [0xFFD5]), (js ''Find'', Some [0xFF68]),
      (js ''GroupFirst'', Some [0xFE0C]), (js ''GroupLast'', Some [0xFE0E]),
      (js ''GroupNext'', Some [0xFE08]), (js ''GroupPrevious'', Some [0xFE0A]),
      (js ''FullWidth'', None), (js ''HalfWidth'', None), (js ''HangulMode'', Some [0xFF31]),
      (js ''Hankaku'', Some [0xFF29]), (js ''HanjaMode'', Some [0xFF34]),
      (js ''Help'', Some [0xFF6A]), (js ''Hiragana'', Some [0xFF25]),
      (js ''HiraganaKatakana'', Some [0xFF27]), (js ''Home'', Some [0xFF50]),
      (js ''Hyper'', Some [0xFFED, 0xFFED, 0xFFEE]), (js ''Insert'', Some [0xFF63]),
      (js ''JapaneseHiragana'', Some [0xFF25]), (js ''JapaneseKatakana'', Some [0xFF26]),
      (js ''JapaneseRomaji'', Some [0xFF24]), (js ''JunjaMode'', Some [0xFF38]),
      (js ''KanaMode'', Some [0xFF2D]), (js ''KanjiMode'', Some [0xFF21]),
      (js ''Katakana'', Some [0xFF26]), (js ''Left'', Some [0xFF51]),
      (js ''Meta'', Some [0xFFE7, 0xFFE7, 0xFFE8]), (js ''ModeChange'', Some [0xFF7E]),
      (js ''NumLock'', Some [0xFF7F]), (js ''PageDown'', Some [0xFF56]),
      (js ''PageUp'', Some [0xFF55]), (js ''Pause'', Some [0xFF13]), (js ''Play'', Some [0xFD16]),
      (js ''PreviousCandidate'', Some [0xFF3E]), (js ''PrintScreen'', Some [0xFF61]),
      (js ''Redo'', Some [0xFF66]), (js ''Right'', Some [0xFF53]), (js ''RomanCharacters'', None),
      (js ''Scroll'', Some [0xFF14]), (js ''Select'', Some [0xFF60]),
      (js ''Separator'', Some [0xFFAC]), (js ''Shift'', Some [0xFFE1, 0xFFE1, 0xFFE2]),
      (js ''SingleCandidate'', Some [0xFF3C]), (js ''Super'', Some [0xFFEB, 0xFFEB, 0xFFEC]),
      (js ''Tab'', Some [0xFF09]), (js ''UIKeyInputDownArrow'', Some [0xFF54]),
      (js ''UIKeyInputEscape'', Some [0xFF1B]), (js ''UIKeyInputLeftArrow'', Some [0xFF51]),
      (js ''UIKeyInputRightArrow'', Some [0xFF53]), (js ''UIKeyInputUpArrow'', Some [0xFF52]),
      (js ''Up'', Some [0xFF52]), (js ''Undo'', Some [0xFF65]),
      (js ''Win'', Some [0xFFE7, 0xFFE7, 0xFFE8]), (js ''Zenkaku'', Some [0xFF28]),
      (js ''ZenkakuHankaku'', Some [0xFF2A])
     ]"

definition no_repeat :: "int list" where
  "no_repeat = [0xFE03, 0xFFE1, 0xFFE2, 0xFFE3, 0xFFE4, 0xFFE5, 0xFFE7, 0xFFE8, 0xFFE9, 0xFFEA, 0xFFEB, 0xFFEC]"

text \<open>\<^verbatim>\<open>null\<close> and 0 are false in a condition.\<close>

definition truthy :: "keysym \<Rightarrow> bool" where
  "truthy ks \<longleftrightarrow> ks \<noteq> None \<and> ks \<noteq> Some 0"

text \<open>\<^verbatim>\<open>keysyms[location] || keysyms[0]\<close>; no keysym of the tables is 0.\<close>

definition get_keysym :: "int list option \<Rightarrow> int \<Rightarrow> keysym" where
  "get_keysym keysyms loc =
     (case keysyms of
        None \<Rightarrow> None
      | Some ks \<Rightarrow>
          if 0 \<le> loc \<and> nat loc < length ks \<and> ks ! nat loc \<noteq> 0 then Some (ks ! nat loc) else Some (ks ! 0))"

definition is_printable :: "int \<Rightarrow> bool" where
  "is_printable k \<longleftrightarrow> (k \<ge> 0x00 \<and> k \<le> 0xFF) \<or> and k 0xFFFF0000 = 0x01000000"

definition is_control_character :: "int \<Rightarrow> bool" where
  "is_control_character c \<longleftrightarrow> c \<le> 0x1F \<or> (c \<ge> 0x7F \<and> c \<le> 0x9F)"

definition keysym_from_charcode :: "int \<Rightarrow> keysym" where
  "keysym_from_charcode c =
     (if is_control_character c then Some (or 0xFF00 c)
      else if c \<ge> 0x0000 \<and> c \<le> 0x00FF then Some c
      else if c \<ge> 0x0100 \<and> c \<le> 0x10FFFF then Some (or 0x01000000 c)
      else None)"

definition keysym_from_keycode :: "int \<Rightarrow> int \<Rightarrow> keysym" where
  "keysym_from_keycode c loc = get_keysym (map_of keycode_keysyms c) loc"

definition from_code :: "jsnum \<Rightarrow> code_unit" where
  "from_code n = (case n of None \<Rightarrow> 0 | Some i \<Rightarrow> nat (i mod 65536))"

definition keysym_from_key_identifier ::
  "config \<Rightarrow> jsstring option \<Rightarrow> int \<Rightarrow> bool option \<Rightarrow> keysym" where
  "keysym_from_key_identifier cf ident loc shifted =
     (case ident of
        None \<Rightarrow> None
      | Some s \<Rightarrow>
          if s = [] then None
          else
            (let typed =
               (case find_text (js ''U+'') s of
                  Some u \<Rightarrow> Some [from_code (parse_int_radix 16 (drop (u + 2) s))]
                | None \<Rightarrow> if length s = 1 \<and> loc \<noteq> 3 then Some s else None)
             in case typed of
                  None \<Rightarrow> get_keysym (Option.bind (map_of keyidentifier_keysym s) (\<lambda>x. x)) loc
                | Some t \<Rightarrow>
                    (let t1 = (case shifted of None \<Rightarrow> t | Some b \<Rightarrow> if b then to_upper cf t else to_lower cf t)
                     in keysym_from_charcode (int (t1 ! 0)))))"

definition key_identifier_sane :: "int \<Rightarrow> jsstring option \<Rightarrow> bool" where
  "key_identifier_sane c ident =
     (case ident of
        None \<Rightarrow> False
      | Some s \<Rightarrow>
          if s = [] then False
          else
            (case find_text (js ''U+'') s of
               None \<Rightarrow> True
             | Some u \<Rightarrow>
                 if parse_int_radix 16 (drop (u + 2) s) \<noteq> Some c then True
                 else (c \<ge> 65 \<and> c \<le> 90) \<or> (c \<ge> 48 \<and> c \<le> 57)))"

subsection \<open>Pressing and releasing\<close>

definition last_result :: "int \<Rightarrow> keyboard \<Rightarrow> bool" where
  "last_result k kb = (case last_keydown_result kb k of None \<Rightarrow> False | Some b \<Rightarrow> b)"

definition stop_repeat :: "keyboard \<Rightarrow> keyboard" where
  "stop_repeat kb = kb\<lparr>repeat_timeout := None, repeat_interval := None\<rparr>"

definition press :: "config \<Rightarrow> keysym \<Rightarrow> keyboard \<Rightarrow> keyboard \<times> bool" where
  "press cf ks kb =
     (case ks of
        None \<Rightarrow> (kb, False)
      | Some k \<Rightarrow>
          if k \<notin> set (pressed kb) then
            (let kb1 = kb\<lparr>pressed := insort k (pressed kb)\<rparr>
             in if onkeydown_set cf then
                  (let r = onkeydown_result cf k;
                       kb2 = stop_repeat (kb1\<lparr>key_trace := key_trace kb1 @ [Down k],
                               last_keydown_result := (last_keydown_result kb1)(k \<mapsto> r)\<rparr>);
                       kb3 = (if k \<notin> set no_repeat then kb2\<lparr>repeat_timeout := Some k\<rparr> else kb2)
                   in (kb3, r))
                else (kb1, last_result k kb1))
          else (kb, last_result k kb))"

definition release :: "config \<Rightarrow> int \<Rightarrow> keyboard \<Rightarrow> keyboard" where
  "release cf k kb =
     (if k \<in> set (pressed kb) then
        (let kb1 = stop_repeat (kb\<lparr>pressed := remove1 k (pressed kb),
                     implicitly_pressed := removeAll k (implicitly_pressed kb)\<rparr>)
         in if onkeyup_set cf then kb1\<lparr>key_trace := key_trace kb1 @ [Up k]\<rparr> else kb1)
      else kb)"

text \<open>The two timers of the key repeat: after the delay the repetition starts, each tick releases and presses.\<close>

definition on_repeat_timeout :: "keyboard \<Rightarrow> keyboard" where
  "on_repeat_timeout kb =
     (case repeat_timeout kb of
        None \<Rightarrow> kb
      | Some k \<Rightarrow> kb\<lparr>repeat_timeout := None, repeat_interval := Some k\<rparr>)"

definition on_repeat_interval :: "keyboard \<Rightarrow> keyboard" where
  "on_repeat_interval kb =
     (case repeat_interval kb of
        None \<Rightarrow> kb
      | Some k \<Rightarrow> kb\<lparr>key_trace := key_trace kb @ [Up k, Down k]\<rparr>)"

definition code_point_at :: "jsstring \<Rightarrow> nat \<Rightarrow> int" where
  "code_point_at s i =
     (let c = s ! i
      in if 0xD800 \<le> c \<and> c \<le> 0xDBFF \<and> i + 1 < length s \<and> 0xDC00 \<le> s ! (i + 1) \<and> s ! (i + 1) \<le> 0xDFFF
         then int ((c - 0xD800) * 0x400 + (s ! (i + 1) - 0xDC00) + 0x10000)
         else int c)"

definition release_opt :: "config \<Rightarrow> keysym \<Rightarrow> keyboard \<Rightarrow> keyboard" where
  "release_opt cf ks kb = (case ks of None \<Rightarrow> kb | Some k \<Rightarrow> release cf k kb)"

definition type_text :: "config \<Rightarrow> jsstring \<Rightarrow> keyboard \<Rightarrow> keyboard" where
  "type_text cf s kb =
     fold (\<lambda>i kb. (let ks = keysym_from_charcode (code_point_at s i)
                   in release_opt cf ks (fst (press cf ks kb)))) [0..<length s] kb"

definition reset :: "config \<Rightarrow> keyboard \<Rightarrow> keyboard" where
  "reset cf kb = (fold (release cf) (pressed kb) kb)\<lparr>event_log := []\<rparr>"

subsection \<open>Modifiers\<close>

definition update_modifier_state ::
  "config \<Rightarrow> (modifier_state \<Rightarrow> bool) \<Rightarrow> int list \<Rightarrow> key_event \<Rightarrow> keyboard \<Rightarrow> keyboard" where
  "update_modifier_state cf modifier keysyms ev kb =
     (let local_state = modifier (modifiers ev); remote_state = modifier (kb_modifiers kb)
      in if (case event_keysym ev of None \<Rightarrow> False | Some k \<Rightarrow> k \<in> set keysyms) then kb
         else if remote_state \<and> \<not> local_state then fold (release cf) keysyms kb
         else if \<not> remote_state \<and> local_state then
           (if list_ex (\<lambda>k. k \<in> set (pressed kb)) keysyms then kb
            else
              (let k = hd keysyms;
                   kb1 = (if truthy (event_keysym ev)
                          then kb\<lparr>implicitly_pressed := k # implicitly_pressed kb\<rparr> else kb)
               in fst (press cf (Some k) kb1)))
         else kb)"

definition sync_modifier_states :: "config \<Rightarrow> key_event \<Rightarrow> keyboard \<Rightarrow> keyboard" where
  "sync_modifier_states cf ev kb =
     (let kb1 = update_modifier_state cf m_alt [0xFFE9, 0xFFEA, 0xFE03] ev kb;
          kb2 = update_modifier_state cf m_shift [0xFFE1, 0xFFE2] ev kb1;
          kb3 = update_modifier_state cf m_ctrl [0xFFE3, 0xFFE4] ev kb2;
          kb4 = update_modifier_state cf m_meta [0xFFE7, 0xFFE8] ev kb3;
          kb5 = update_modifier_state cf m_hyper [0xFFEB, 0xFFEC] ev kb4
      in kb5\<lparr>kb_modifiers := modifiers ev\<rparr>)"

definition is_state_implicit :: "keyboard \<Rightarrow> bool" where
  "is_state_implicit kb = list_all (\<lambda>k. k \<in> set (implicitly_pressed kb)) (pressed kb)"

definition release_simulated_altgr :: "config \<Rightarrow> int \<Rightarrow> keyboard \<Rightarrow> keyboard" where
  "release_simulated_altgr cf k kb =
     (if \<not> m_ctrl (kb_modifiers kb) \<or> \<not> m_alt (kb_modifiers kb) then kb
      else if k \<ge> 0x0041 \<and> k \<le> 0x005A then kb
      else if k \<ge> 0x0061 \<and> k \<le> 0x007A then kb
      else if k \<le> 0xFF \<or> and k 0xFF000000 = 0x01000000
      then fold (release cf) [0xFFE3, 0xFFE4, 0xFFE9, 0xFFEA] kb
      else kb)"

subsection \<open>Events\<close>

definition base_key_code :: "dom_event \<Rightarrow> int" where
  "base_key_code e = (if which e \<noteq> 0 then which e else dom_key_code e)"

definition or_keysym :: "keysym \<Rightarrow> keysym \<Rightarrow> keysym" where
  "or_keysym a b = (if truthy a then a else b)"

definition keydown_event :: "config \<Rightarrow> dom_event \<Rightarrow> keyboard \<Rightarrow> key_event \<times> keyboard" where
  "keydown_event cf e kb =
     (let kc = base_key_code e; loc = get_event_location e; ms = from_keyboard_event e;
          ks = or_keysym (keysym_from_key_identifier cf (dom_key e) loc None) (keysym_from_keycode kc loc);
          rel = (truthy ks \<and> \<not> is_printable (the ks));
          ks1 = (if \<not> truthy ks \<and> key_identifier_sane kc (key_identifier e)
                 then keysym_from_key_identifier cf (key_identifier e) loc (Some (m_shift ms)) else ks);
          up = (if m_meta ms \<and> ks1 \<noteq> Some 0xFFE7 \<and> ks1 \<noteq> Some 0xFFE8 then False
                else if ks1 = Some 0xFFE5 \<and> caps_lock_keyup_unreliable cf then False
                else \<not> keyup_unreliable cf);
          prevent_alt = (\<not> m_ctrl ms \<and> \<not> alt_is_typable_only cf);
          prevent_ctrl = (\<not> m_alt ms);
          rel1 = (rel \<or> (prevent_ctrl \<and> m_ctrl ms) \<or> (prevent_alt \<and> m_alt ms) \<or> m_meta ms \<or> m_hyper ms)
      in (\<lparr>kind = Keydown, key_code = kc, event_keysym = ks1, modifiers = ms, reliable = rel1,
           keyup_reliable = up, default_prevented = False\<rparr>,
          kb\<lparr>recent_keysym := (recent_keysym kb)(kc := ks1)\<rparr>))"

definition keypress_event :: "dom_event \<Rightarrow> key_event" where
  "keypress_event e =
     \<lparr>kind = Keypress, key_code = base_key_code e, event_keysym = keysym_from_charcode (base_key_code e),
      modifiers = from_keyboard_event e, reliable = True, keyup_reliable = False, default_prevented = False\<rparr>"

definition keyup_event :: "config \<Rightarrow> dom_event \<Rightarrow> keyboard \<Rightarrow> key_event" where
  "keyup_event cf e kb =
     (let kc = base_key_code e; loc = get_event_location e;
          ks = or_keysym (keysym_from_keycode kc loc) (keysym_from_key_identifier cf (dom_key e) loc None);
          ks1 = (if ks = None \<or> the ks \<notin> set (pressed kb) then or_keysym (recent_keysym kb kc) ks else ks)
      in \<lparr>kind = Keyup, key_code = kc, event_keysym = ks1, modifiers = from_keyboard_event e,
          reliable = True, keyup_reliable = False, default_prevented = False\<rparr>)"

subsection \<open>Interpreting the event log\<close>

text \<open>
  The keysym of an accepted \<^verbatim>\<open>keydown\<close> and the number of events it takes from the log;
  \<open>Wait\<close> is no decision yet, \<open>Drop\<close> a \<^verbatim>\<open>keydown\<close> of Meta that is discarded.
\<close>

datatype decision = Wait | Drop | Accept keysym nat

definition decide_keydown :: "key_event \<Rightarrow> key_event list \<Rightarrow> decision" where
  "decide_keydown first rest =
     (let after_meta =
        (if reliable first then Accept (event_keysym first) 1
         else (case rest of
                 [] \<Rightarrow> Wait
               | second # _ \<Rightarrow>
                   if kind second = Keypress then Accept (event_keysym second) 2
                   else Accept (event_keysym first) 1))
      in if event_keysym first = Some 0xFFE7 \<or> event_keysym first = Some 0xFFE8 then
           (case rest of
              [] \<Rightarrow> Wait
            | second # _ \<Rightarrow>
                if event_keysym second \<noteq> event_keysym first then
                  (if \<not> m_meta (modifiers second) then Drop else after_meta)
                else if kind second = Keydown then Drop
                else after_meta)
         else after_meta)"

definition accept_keydown :: "config \<Rightarrow> key_event \<Rightarrow> keysym \<Rightarrow> keyboard \<Rightarrow> key_event \<times> keyboard" where
  "accept_keydown cf first ks kb =
     (let kb1 = sync_modifier_states cf first kb
      in if \<not> truthy ks then (first, kb1)
         else
           (let k = the ks;
                (kb2, r) = press cf ks (release_simulated_altgr cf k kb1);
                kb3 = kb2\<lparr>recent_keysym := (recent_keysym kb2)(key_code first := ks)\<rparr>;
                kb4 = (if \<not> keyup_reliable first then release cf k kb3 else kb3)
            in (first\<lparr>default_prevented := \<not> r\<rparr>, kb4)))"

definition interpret_event :: "config \<Rightarrow> keyboard \<Rightarrow> key_event option \<times> keyboard" where
  "interpret_event cf kb =
     (case event_log kb of
        [] \<Rightarrow> (None, kb)
      | first # rest \<Rightarrow>
          if kind first = Keydown then
            (case decide_keydown first rest of
               Wait \<Rightarrow> (None, kb)
             | Drop \<Rightarrow> (Some first, kb\<lparr>event_log := rest\<rparr>)
             | Accept ks n \<Rightarrow>
                 (case accept_keydown cf first ks (kb\<lparr>event_log := drop n (event_log kb)\<rparr>) of
                    (ev, kb1) \<Rightarrow> (Some ev, kb1)))
          else if kind first = Keyup \<and> \<not> keyup_unreliable cf then
            (if \<not> truthy (event_keysym first) then (Some first, reset cf kb)
             else
               (let kb1 = release cf (the (event_keysym first)) kb;
                    kb2 = kb1\<lparr>recent_keysym := (recent_keysym kb1)(key_code first := None)\<rparr>;
                    kb3 = sync_modifier_states cf first kb2
                in (Some (first\<lparr>default_prevented := True\<rparr>), kb3\<lparr>event_log := tl (event_log kb3)\<rparr>)))
          else (Some first, kb\<lparr>event_log := rest\<rparr>))"

text \<open>Every interpreted event leaves the log, so interpreting as much as possible ends.\<close>

lemma press_fields [simp]:
  "event_log (fst (press cf ks kb)) = event_log kb"
  "kb_modifiers (fst (press cf ks kb)) = kb_modifiers kb"
  by (simp_all add: press_def stop_repeat_def Let_def split: option.split)

lemma release_fields [simp]:
  "event_log (release cf k kb) = event_log kb" "kb_modifiers (release cf k kb) = kb_modifiers kb"
  by (simp_all add: release_def stop_repeat_def Let_def)

lemma fold_release_log [simp]: "event_log (fold (release cf) ks kb) = event_log kb"
  by (induction ks arbitrary: kb) simp_all

lemma update_modifier_state_log [simp]: "event_log (update_modifier_state cf m ks ev kb) = event_log kb"
  by (simp add: update_modifier_state_def Let_def)

lemma sync_modifier_states_log [simp]: "event_log (sync_modifier_states cf ev kb) = event_log kb"
  by (simp add: sync_modifier_states_def Let_def)

lemma release_simulated_altgr_log [simp]: "event_log (release_simulated_altgr cf k kb) = event_log kb"
  by (simp add: release_simulated_altgr_def)

lemma accept_keydown_log [simp]: "event_log (snd (accept_keydown cf first ks kb)) = event_log kb"
  by (simp add: accept_keydown_def Let_def case_prod_beta)

lemma decide_keydown_positive: "decide_keydown first rest = Accept ks n \<Longrightarrow> 0 < n"
  by (auto simp: decide_keydown_def Let_def split: if_splits list.splits)

lemma interpret_event_shorter:
  assumes "interpret_event cf kb = (Some ev, kb')"
  shows "length (event_log kb') < length (event_log kb)"
proof (cases "event_log kb")
  case Nil
  with assms show ?thesis by (simp add: interpret_event_def)
next
  case (Cons first rest)
  show ?thesis
  proof (cases "kind first = Keydown")
    case False
    with assms Cons show ?thesis
      by (auto simp: interpret_event_def reset_def Let_def split: if_splits)
  next
    case True
    with assms Cons show ?thesis
    proof (cases "decide_keydown first rest")
      case (Accept ks n)
      let ?kb = "kb\<lparr>event_log := drop n (event_log kb)\<rparr>"
      from assms Cons True Accept have "kb' = snd (accept_keydown cf first ks ?kb)"
        by (auto simp: interpret_event_def split: prod.splits)
      with decide_keydown_positive [OF Accept] Cons show ?thesis by simp
    qed (auto simp: interpret_event_def)
  qed
qed

function interpret_rest :: "config \<Rightarrow> key_event \<Rightarrow> keyboard \<Rightarrow> key_event \<times> keyboard" where
  "interpret_rest cf last_event kb =
     (case interpret_event cf kb of
        (None, kb1) \<Rightarrow> (last_event, kb1)
      | (Some ev, kb1) \<Rightarrow> interpret_rest cf ev kb1)"
  by pat_completeness auto
termination
  by (relation "measure (\<lambda>(cf, ev, kb). length (event_log kb))") (auto dest: interpret_event_shorter [OF sym])

declare interpret_rest.simps [simp del]

definition interpret_events :: "config \<Rightarrow> keyboard \<Rightarrow> bool \<times> keyboard" where
  "interpret_events cf kb =
     (case interpret_event cf kb of
        (None, kb1) \<Rightarrow> (False, kb1)
      | (Some ev, kb1) \<Rightarrow>
          (case interpret_rest cf ev kb1 of
             (last_event, kb2) \<Rightarrow>
               (default_prevented last_event, if is_state_implicit kb2 then reset cf kb2 else kb2)))"

subsection \<open>Listening\<close>

text \<open>Each listener gives whether it prevents the browser's default action.\<close>

definition mark_event :: "nat \<Rightarrow> keyboard \<Rightarrow> bool \<times> keyboard" where
  "mark_event n kb = (if n \<in> set (marked kb) then (False, kb) else (True, kb\<lparr>marked := n # marked kb\<rparr>))"

definition on_dom_keydown :: "config \<Rightarrow> dom_event \<Rightarrow> keyboard \<Rightarrow> bool \<times> keyboard" where
  "on_dom_keydown cf e kb =
     (if \<not> onkeydown_set cf then (False, kb)
      else (case mark_event (dom_id e) kb of
              (False, kb1) \<Rightarrow> (False, kb1)
            | (True, kb1) \<Rightarrow>
                (case keydown_event cf e kb1 of
                   (ev, kb2) \<Rightarrow>
                     if key_code ev = 229 then (False, kb2)
                     else interpret_events cf (kb2\<lparr>event_log := event_log kb2 @ [ev]\<rparr>))))"

definition on_dom_keypress :: "config \<Rightarrow> dom_event \<Rightarrow> keyboard \<Rightarrow> bool \<times> keyboard" where
  "on_dom_keypress cf e kb =
     (if \<not> onkeydown_set cf \<and> \<not> onkeyup_set cf then (False, kb)
      else (case mark_event (dom_id e) kb of
              (False, kb1) \<Rightarrow> (False, kb1)
            | (True, kb1) \<Rightarrow> interpret_events cf (kb1\<lparr>event_log := event_log kb1 @ [keypress_event e]\<rparr>)))"

definition on_dom_keyup :: "config \<Rightarrow> dom_event \<Rightarrow> keyboard \<Rightarrow> bool \<times> keyboard" where
  "on_dom_keyup cf e kb =
     (if \<not> onkeyup_set cf then (False, kb)
      else (case mark_event (dom_id e) kb of
              (False, kb1) \<Rightarrow> (False, kb1)
            | (True, kb1) \<Rightarrow>
                (True, snd (interpret_events cf (kb1\<lparr>event_log := event_log kb1 @ [keyup_event cf e kb1]\<rparr>)))))"

text \<open>
  Text that arrives without key events: whichever of the two events delivers text first
  removes the listener of the other.
\<close>

definition handle_input :: "config \<Rightarrow> nat \<Rightarrow> jsstring \<Rightarrow> bool \<Rightarrow> keyboard \<Rightarrow> keyboard" where
  "handle_input cf n data composing kb =
     (if \<not> listens_input kb \<or> \<not> onkeydown_set cf \<and> \<not> onkeyup_set cf then kb
      else (case mark_event n kb of
              (False, kb1) \<Rightarrow> kb1
            | (True, kb1) \<Rightarrow>
                if data \<noteq> [] \<and> \<not> composing
                then type_text cf data (kb1\<lparr>listens_composition := False\<rparr>) else kb1))"

definition handle_composition :: "config \<Rightarrow> nat \<Rightarrow> jsstring \<Rightarrow> keyboard \<Rightarrow> keyboard" where
  "handle_composition cf n data kb =
     (if \<not> listens_composition kb \<or> \<not> onkeydown_set cf \<and> \<not> onkeyup_set cf then kb
      else (case mark_event n kb of
              (False, kb1) \<Rightarrow> kb1
            | (True, kb1) \<Rightarrow>
                if data \<noteq> [] then type_text cf data (kb1\<lparr>listens_input := False\<rparr>) else kb1))"

subsection \<open>What the application sees of one key\<close>

text \<open>
  \<open>key_run k b t\<close> follows key \<open>k\<close> through the calls \<open>t\<close>, starting held (\<open>b\<close>) or not: whether it
  is held at the end, or \<open>None\<close> if it was ever pressed while held or released while not held.
\<close>

fun key_run :: "int \<Rightarrow> bool \<Rightarrow> key_call list \<Rightarrow> bool option" where
  "key_run k b [] = Some b"
| "key_run k b (Down j # t) = (if j \<noteq> k then key_run k b t else if b then None else key_run k True t)"
| "key_run k b (Up j # t) = (if j \<noteq> k then key_run k b t else if b then key_run k False t else None)"

lemma key_run_append: "key_run k b (t @ u) = Option.bind (key_run k b t) (\<lambda>b'. key_run k b' u)"
  by (induction k b t rule: key_run.induct) auto

named_theorems key_inv_intros \<open>operations that keep the invariant of the keyboard\<close>

definition key_inv :: "keyboard \<Rightarrow> bool" where
  "key_inv kb \<longleftrightarrow>
     sorted (pressed kb) \<and> distinct (pressed kb) \<and>
     (\<forall>k. key_run k False (key_trace kb) = Some (k \<in> set (pressed kb))) \<and>
     (\<forall>k. repeat_timeout kb = Some k \<or> repeat_interval kb = Some k \<longrightarrow> k \<in> set (pressed kb))"

definition handlers_set :: "config \<Rightarrow> bool" where
  "handlers_set cf \<longleftrightarrow> onkeydown_set cf \<and> onkeyup_set cf"

lemma new_keyboard_inv: "key_inv new_keyboard"
  by (simp add: key_inv_def new_keyboard_def)

lemma key_inv_frame [key_inv_intros]:
  "key_inv kb \<Longrightarrow> key_inv (kb\<lparr>event_log := x1\<rparr>)" "key_inv kb \<Longrightarrow> key_inv (kb\<lparr>kb_modifiers := x2\<rparr>)"
  "key_inv kb \<Longrightarrow> key_inv (kb\<lparr>implicitly_pressed := x3\<rparr>)" "key_inv kb \<Longrightarrow> key_inv (kb\<lparr>recent_keysym := x4\<rparr>)"
  "key_inv kb \<Longrightarrow> key_inv (kb\<lparr>marked := x5\<rparr>)" "key_inv kb \<Longrightarrow> key_inv (kb\<lparr>listens_input := x6\<rparr>)"
  "key_inv kb \<Longrightarrow> key_inv (kb\<lparr>listens_composition := x7\<rparr>)"
  by (simp_all add: key_inv_def)

lemma press_inv [key_inv_intros]: "handlers_set cf \<Longrightarrow> key_inv kb \<Longrightarrow> key_inv (fst (press cf ks kb))"
  by (auto simp: key_inv_def press_def handlers_set_def stop_repeat_def Let_def sorted_insort set_insort_key
      distinct_insort key_run_append split: option.split)

lemma release_inv [key_inv_intros]: "handlers_set cf \<Longrightarrow> key_inv kb \<Longrightarrow> key_inv (release cf k kb)"
  by (auto simp: key_inv_def release_def handlers_set_def stop_repeat_def Let_def sorted_remove1 key_run_append)

lemma fold_release_inv [key_inv_intros]: "handlers_set cf \<Longrightarrow> key_inv kb \<Longrightarrow> key_inv (fold (release cf) ks kb)"
  by (induction ks arbitrary: kb) (simp_all add: key_inv_intros)

lemma repeat_inv [key_inv_intros]:
  "key_inv kb \<Longrightarrow> key_inv (on_repeat_timeout kb)" "key_inv kb \<Longrightarrow> key_inv (on_repeat_interval kb)"
  by (auto simp: key_inv_def on_repeat_timeout_def on_repeat_interval_def key_run_append split: option.splits)

lemma reset_inv [key_inv_intros]: "handlers_set cf \<Longrightarrow> key_inv kb \<Longrightarrow> key_inv (reset cf kb)"
  by (simp add: reset_def key_inv_intros)

lemma type_text_inv [key_inv_intros]:
  assumes "handlers_set cf" and "key_inv kb"
  shows "key_inv (type_text cf s kb)"
proof -
  have "key_inv (fold (\<lambda>i kb. (let ks = keysym_from_charcode (code_point_at s i)
      in release_opt cf ks (fst (press cf ks kb)))) is kb)" for "is"
    using assms by (induction "is" arbitrary: kb)
      (simp_all add: Let_def release_opt_def key_inv_intros split: option.split)
  then show ?thesis by (simp add: type_text_def)
qed

lemma update_modifier_state_inv [key_inv_intros]:
  "handlers_set cf \<Longrightarrow> key_inv kb \<Longrightarrow> key_inv (update_modifier_state cf m ks ev kb)"
  by (simp add: update_modifier_state_def Let_def key_inv_intros)

lemma sync_modifier_states_inv [key_inv_intros]:
  "handlers_set cf \<Longrightarrow> key_inv kb \<Longrightarrow> key_inv (sync_modifier_states cf ev kb)"
  by (simp add: sync_modifier_states_def Let_def key_inv_intros)

lemma altgr_inv [key_inv_intros]:
  "handlers_set cf \<Longrightarrow> key_inv kb \<Longrightarrow> key_inv (release_simulated_altgr cf k kb)"
  by (simp add: release_simulated_altgr_def key_inv_intros)

lemma accept_keydown_inv [key_inv_intros]:
  "handlers_set cf \<Longrightarrow> key_inv kb \<Longrightarrow> key_inv (snd (accept_keydown cf first ks kb))"
  by (simp add: accept_keydown_def Let_def case_prod_beta key_inv_intros)

lemma interpret_event_inv [key_inv_intros]:
  assumes "handlers_set cf" and "key_inv kb"
  shows "key_inv (snd (interpret_event cf kb))"
  using assms
  by (auto simp: interpret_event_def Let_def case_prod_beta
      split: list.split decision.split intro!: key_inv_intros)

lemma interpret_rest_inv:
  "handlers_set cf \<Longrightarrow> key_inv kb \<Longrightarrow> key_inv (snd (interpret_rest cf ev kb))"
proof (induction cf ev kb rule: interpret_rest.induct)
  case (1 cf ev kb)
  obtain r kb1 where i: "interpret_event cf kb = (r, kb1)" by fastforce
  then have "key_inv kb1" using interpret_event_inv [OF "1.prems"] by simp
  with 1 i show ?case by (cases r) (simp_all add: interpret_rest.simps [of cf ev kb])
qed

lemma interpret_events_inv [key_inv_intros]:
  assumes "handlers_set cf" and "key_inv kb"
  shows "key_inv (snd (interpret_events cf kb))"
proof -
  obtain r kb1 where i: "interpret_event cf kb = (r, kb1)" by fastforce
  then have "key_inv kb1" using interpret_event_inv [OF assms] by simp
  with i assms(1) show ?thesis
    by (cases r) (simp_all add: interpret_events_def case_prod_beta key_inv_intros interpret_rest_inv)
qed

lemma mark_event_inv [key_inv_intros]: "key_inv kb \<Longrightarrow> key_inv (snd (mark_event n kb))"
  by (simp add: mark_event_def key_inv_intros)

lemma keydown_event_inv [key_inv_intros]: "key_inv kb \<Longrightarrow> key_inv (snd (keydown_event cf e kb))"
  by (simp add: keydown_event_def Let_def key_inv_intros)

lemma listeners_inv [key_inv_intros]:
  assumes "handlers_set cf" and "key_inv kb"
  shows "key_inv (snd (on_dom_keydown cf e kb))" "key_inv (snd (on_dom_keypress cf e kb))"
    "key_inv (snd (on_dom_keyup cf e kb))" "key_inv (handle_input cf n data composing kb)"
    "key_inv (handle_composition cf n data kb)"
proof -
  note mark = mark_event_inv [OF assms(2)]
  show "key_inv (snd (on_dom_keydown cf e kb))"
    using assms mark [of "dom_id e"] keydown_event_inv [OF mark, of cf e "dom_id e"]
    by (auto simp: on_dom_keydown_def case_prod_beta split: bool.split intro!: key_inv_intros)
  show "key_inv (snd (on_dom_keypress cf e kb))" "key_inv (snd (on_dom_keyup cf e kb))"
    using assms mark [of "dom_id e"]
    by (auto simp: on_dom_keypress_def on_dom_keyup_def case_prod_beta split: bool.split intro!: key_inv_intros)
  show "key_inv (handle_input cf n data composing kb)" "key_inv (handle_composition cf n data kb)"
    using assms mark [of n]
    by (auto simp: handle_input_def handle_composition_def case_prod_beta split: bool.split intro!: key_inv_intros)
qed

subsection \<open>Reachable states\<close>

text \<open>The keyboard's steps: browser events in any order, its timers, and calls of its methods.\<close>

inductive key_step :: "config \<Rightarrow> keyboard \<Rightarrow> keyboard \<Rightarrow> bool" for cf where
  step_keydown: "key_step cf kb (snd (on_dom_keydown cf e kb))"
| step_keypress: "key_step cf kb (snd (on_dom_keypress cf e kb))"
| step_keyup: "key_step cf kb (snd (on_dom_keyup cf e kb))"
| step_input: "key_step cf kb (handle_input cf n data composing kb)"
| step_composition: "key_step cf kb (handle_composition cf n data kb)"
| step_repeat_timeout: "key_step cf kb (on_repeat_timeout kb)"
| step_repeat_interval: "key_step cf kb (on_repeat_interval kb)"
| step_press: "key_step cf kb (fst (press cf ks kb))"
| step_release: "key_step cf kb (release cf k kb)"
| step_type: "key_step cf kb (type_text cf s kb)"
| step_reset: "key_step cf kb (reset cf kb)"

inductive key_reachable :: "config \<Rightarrow> keyboard \<Rightarrow> bool" for cf where
  key_new: "key_reachable cf new_keyboard"
| key_next: "key_reachable cf kb \<Longrightarrow> key_step cf kb kb' \<Longrightarrow> key_reachable cf kb'"

lemma key_step_inv: "key_step cf kb kb' \<Longrightarrow> handlers_set cf \<Longrightarrow> key_inv kb \<Longrightarrow> key_inv kb'"
  by (induction rule: key_step.induct) (simp_all add: key_inv_intros)

lemma key_reachable_inv: "key_reachable cf kb \<Longrightarrow> handlers_set cf \<Longrightarrow> key_inv kb"
  by (induction rule: key_reachable.induct) (simp_all add: new_keyboard_inv key_step_inv)

lemma release_pressed: "distinct (pressed kb) \<Longrightarrow> set (pressed (release cf k kb)) = set (pressed kb) - {k}"
  by (auto simp: release_def stop_repeat_def Let_def)

lemma release_distinct: "distinct (pressed kb) \<Longrightarrow> distinct (pressed (release cf k kb))"
  by (simp add: release_def stop_repeat_def Let_def)

lemma fold_release_pressed:
  "distinct (pressed kb) \<Longrightarrow> set (pressed (fold (release cf) ks kb)) = set (pressed kb) - set ks"
  by (induction ks arbitrary: kb) (auto simp: release_pressed release_distinct)

lemma reset_pressed: "distinct (pressed kb) \<Longrightarrow> pressed (reset cf kb) = []"
  using fold_release_pressed [of kb cf "pressed kb"] by (simp add: reset_def)

subsection \<open>Properties of the keyboard\<close>

definition plain_config :: config where
  "plain_config = \<lparr>keyup_unreliable = False, alt_is_typable_only = False, caps_lock_keyup_unreliable = False,
     onkeydown_set = True, onkeyup_set = True, onkeydown_result = (\<lambda>k. False),
     to_upper = (\<lambda>s. s), to_lower = (\<lambda>s. s)\<rparr>"

definition example_event :: dom_event where
  "example_event = \<lparr>dom_id = 0, which = 0, dom_key_code = 0, key_identifier = None, dom_key = None,
     dom_location = Some 0, dom_key_location = None, shift_key = False, ctrl_key = False,
     alt_key = False, meta_key = False, os_states = []\<rparr>"

lemma plain_config_handlers: "handlers_set plain_config"
  by (simp add: handlers_set_def plain_config_def)

text \<open>
  (C21) The remote side never sees an impossible key event: whatever browser events, repeats,
  typed texts and resets happen in whatever order, the calls for each key are strictly
  alternating presses and releases, beginning with a press, and the keyboard's table of
  pressed keys holds exactly the keys whose last call was a press. After a reset, no key is
  held.
\<close>

theorem key_calls_alternate:
  assumes "key_reachable cf kb" and "handlers_set cf"
  shows "key_run k False (key_trace kb) = Some (k \<in> set (pressed kb))
    \<and> key_run k False (key_trace (reset cf kb)) = Some False
    \<and> pressed (reset cf kb) = []"
proof -
  have inv: "key_inv kb" using assms by (rule key_reachable_inv)
  then have e: "pressed (reset cf kb) = []" by (simp add: reset_pressed key_inv_def)
  have "key_inv (reset cf kb)" using assms(2) inv by (rule reset_inv)
  with inv e show ?thesis by (simp add: key_inv_def)
qed

theorem key_calls_alternate_witness:
  "let kb = snd (on_dom_keydown plain_config (example_event\<lparr>which := 13\<rparr>) new_keyboard)
   in key_run 0xFF0D False (key_trace kb) = Some (0xFF0D \<in> set (pressed kb))
      \<and> key_run 0xFF0D False (key_trace (reset plain_config kb)) = Some False
      \<and> pressed (reset plain_config kb) = []"
  unfolding Let_def
  by (rule key_calls_alternate [OF key_next [OF key_new step_keydown] plain_config_handlers])

lemma or_low_int:
  fixes x c :: int
  assumes "0 \<le> c" and "c < 2 ^ n"
  shows "or (x * 2 ^ n) c = x * 2 ^ n + c"
proof -
  have "and (push_bit n x) (take_bit n c) = 0"
    by (rule bit_eqI) (auto simp: bit_simps)
  then have "and (push_bit n x) c = 0" using assms by (simp add: take_bit_int_eq_self)
  then have "push_bit n x + c = or (push_bit n x) c" by (rule disjunctive_add_eq_or)
  then show ?thesis by (simp add: push_bit_eq_mult)
qed

lemma keysym_bits:
  "0 \<le> c \<Longrightarrow> c < 256 \<Longrightarrow> or 0xFF00 c = 0xFF00 + (c :: int)"
  "0 \<le> c \<Longrightarrow> c < 0x1000000 \<Longrightarrow> or 0x01000000 c = 0x01000000 + (c :: int)"
  using or_low_int [of c 8 "0xFF"] or_low_int [of c 24 1] by simp_all

lemma keysym_from_charcode_value:
  assumes "0 \<le> c" and "c \<le> 0x10FFFF"
  shows "keysym_from_charcode c =
    Some (if c \<le> 0x1F \<or> (0x7F \<le> c \<and> c \<le> 0x9F) then 0xFF00 + c else if c \<le> 0xFF then c else 0x01000000 + c)"
  using assms by (simp add: keysym_from_charcode_def is_control_character_def keysym_bits)

text \<open>
  Every Unicode code point has a keysym, the keysyms stay within the range of X11
  keysyms for Unicode, and different code points have different keysyms: the remote side can
  tell every character from every other.
\<close>

theorem charcode_keysyms_injective:
  assumes "0 \<le> c" and "c \<le> 0x10FFFF" and "0 \<le> d" and "d \<le> 0x10FFFF"
  shows "(\<exists>k. keysym_from_charcode c = Some k \<and> 0 < k \<and> k \<le> 0x0110FFFF)
    \<and> (keysym_from_charcode c = keysym_from_charcode d \<longleftrightarrow> c = d)"
  using assms by (auto simp: keysym_from_charcode_value split: if_splits)

theorem charcode_keysyms_injective_witness:
  "(\<exists>k. keysym_from_charcode 0x20AC = Some k \<and> 0 < k \<and> k \<le> 0x0110FFFF)
   \<and> (keysym_from_charcode 0x20AC = keysym_from_charcode 0xE9 \<longleftrightarrow> (0x20AC :: int) = 0xE9)"
  by (rule charcode_keysyms_injective) simp_all

definition bmp_character :: "code_unit \<Rightarrow> bool" where
  "bmp_character c \<longleftrightarrow> c < 0xD800 \<or> 0xDFFF < c \<and> c < 0x10000"

lemma keysym_from_bmp_character: "bmp_character c \<Longrightarrow> \<exists>k. keysym_from_charcode (int c) = Some k"
  by (auto simp: keysym_from_charcode_value bmp_character_def)

lemma press_release_idle:
  assumes "pressed kb = []" and "handlers_set cf"
  shows "key_trace (release cf k (fst (press cf (Some k) kb))) = key_trace kb @ [Down k, Up k]
    \<and> pressed (release cf k (fst (press cf (Some k) kb))) = []"
  using assms by (simp add: press_def release_def handlers_set_def stop_repeat_def Let_def)

lemma type_positions:
  assumes "pressed kb = []" and "handlers_set cf"
    and "\<forall>i \<in> set is. \<exists>k. keysym_from_charcode (code_point_at s i) = Some k"
  shows "key_trace (fold (\<lambda>i kb. (let ks = keysym_from_charcode (code_point_at s i)
        in release_opt cf ks (fst (press cf ks kb)))) is kb) =
      key_trace kb @ concat (map (\<lambda>i. (let k = the (keysym_from_charcode (code_point_at s i)) in [Down k, Up k])) is)"
  using assms
proof (induction "is" arbitrary: kb)
  case (Cons i ins)
  then obtain k where k: "keysym_from_charcode (code_point_at s i) = Some k" by auto
  note pr = press_release_idle [OF Cons.prems(1,2), of k]
  from Cons.IH [of "release cf k (fst (press cf (Some k) kb))"] Cons.prems pr k show ?case
    by (simp add: Let_def release_opt_def)
qed simp

lemma map_nth_upt: "map (\<lambda>i. f (s ! i)) [0..<length s] = map f s"
  by (metis map_map map_nth comp_def map_cong)



text \<open>
  A character outside the Basic Multilingual Plane is typed twice over: its first code unit
  gives the right keysym, but the loop then visits its second code unit as well and presses a
  key for that half of a surrogate pair alone.
\<close>

theorem typed_astral_character_adds_a_key:
  assumes "handlers_set cf" and "pressed kb = []"
    and "0xD800 \<le> hi" and "hi \<le> 0xDBFF" and "0xDC00 \<le> lo" and "lo \<le> 0xDFFF"
  shows "let c = (int hi - 0xD800) * 0x400 + (int lo - 0xDC00) + 0x10000
    in key_trace (type_text cf [hi, lo] kb) = key_trace kb @
      [Down (0x01000000 + c), Up (0x01000000 + c), Down (0x01000000 + int lo), Up (0x01000000 + int lo)]"
proof -
  let ?c = "(int hi - 0xD800) * 0x400 + (int lo - 0xDC00) + 0x10000"
  have cp: "code_point_at [hi, lo] 0 = ?c" "code_point_at [hi, lo] (Suc 0) = int lo"
    using assms(3-6) by (simp_all add: code_point_at_def Let_def)
  have ks: "keysym_from_charcode ?c = Some (0x01000000 + ?c)"
    "keysym_from_charcode (int lo) = Some (0x01000000 + int lo)"
    using assms(3-6) by (simp_all add: keysym_from_charcode_value)
  have "[0..<length [hi, lo]] = [0, Suc 0]" by simp
  with type_positions [OF assms(2,1), of "[0, Suc 0]" "[hi, lo]"] cp ks show ?thesis
    by (simp add: type_text_def Let_def del: upt_Suc)
qed

theorem typed_astral_character_adds_a_key_witness:
  "let c = (int 0xD83D - 0xD800) * 0x400 + (int 0xDE00 - 0xDC00) + 0x10000
   in key_trace (type_text plain_config [0xD83D, 0xDE00] new_keyboard) = key_trace new_keyboard @
     [Down (0x01000000 + c), Up (0x01000000 + c), Down (0x01000000 + int 0xDE00), Up (0x01000000 + int 0xDE00)]"
  by (rule typed_astral_character_adds_a_key [OF plain_config_handlers]) (simp_all add: new_keyboard_def)

subsection \<open>A key without a keysym\<close>

lemma release_not_pressed: "k \<notin> set (pressed kb) \<Longrightarrow> release cf k kb = kb"
  by (simp add: release_def)

lemma fold_release_idle: "pressed kb = [] \<Longrightarrow> fold (release cf) ks kb = kb"
  by (induction ks) (simp_all add: release_not_pressed)

lemma update_modifier_idle:
  "pressed kb = [] \<Longrightarrow> \<not> m (modifiers ev) \<Longrightarrow> update_modifier_state cf m ks ev kb = kb"
  by (auto simp: update_modifier_state_def Let_def fold_release_idle)

lemma sync_modifiers_idle:
  "pressed kb = [] \<Longrightarrow> modifiers ev = no_modifiers \<Longrightarrow>
   sync_modifier_states cf ev kb = kb\<lparr>kb_modifiers := no_modifiers\<rparr>"
  by (simp add: sync_modifier_states_def update_modifier_idle no_modifiers_def Let_def)

lemma reset_idle:
  "pressed kb = [] \<Longrightarrow> reset cf kb = kb\<lparr>event_log := []\<rparr>"
  by (simp add: reset_def)

lemma unknown_keydown_drops_log:
  assumes "pressed kb = []" and "event_log kb = [dead, down]"
    and "kind dead = Keydown" and "\<not> reliable dead" and "event_keysym dead = None"
    and "modifiers dead = no_modifiers"
    and "kind down = Keydown" and "\<not> reliable down"
    and "event_keysym down \<noteq> Some 0xFFE7" and "event_keysym down \<noteq> Some 0xFFE8"
  shows "interpret_events cf kb = (default_prevented dead, kb\<lparr>event_log := [], kb_modifiers := no_modifiers\<rparr>)"
proof -
  let ?kb = "kb\<lparr>event_log := [down], kb_modifiers := no_modifiers\<rparr>"
  have "interpret_event cf kb = (Some dead, ?kb)"
    using assms by (simp add: interpret_event_def decide_keydown_def accept_keydown_def sync_modifiers_idle truthy_def)
  moreover have "interpret_event cf ?kb = (None, ?kb)"
    using assms by (simp add: interpret_event_def decide_keydown_def)
  ultimately show ?thesis
    using assms(1) by (simp add: interpret_events_def interpret_rest.simps is_state_implicit_def reset_idle)
qed

lemma lone_keypress_dumped:
  assumes "pressed kb = []" and "event_log kb = [pr]" and "kind pr = Keypress"
  shows "interpret_events cf kb = (default_prevented pr, kb\<lparr>event_log := []\<rparr>)"
  using assms by (simp add: interpret_events_def interpret_rest.simps interpret_event_def
    is_state_implicit_def reset_idle)

text \<open>
  A character typed while a key without a keysym (a dead key, say) is still held is lost.
  The first key's \<^verbatim>\<open>keydown\<close> waits for a \<^verbatim>\<open>keypress\<close>; the \<^verbatim>\<open>keydown\<close> of the second key settles it,
  and because no key is pressed the keyboard resets itself, which discards the second
  \<^verbatim>\<open>keydown\<close> too. The \<^verbatim>\<open>keypress\<close> with the character then stands alone and is dumped: the
  application sees no key at all.
\<close>

theorem rollover_after_dead_key_loses_character:
  assumes "pressed kb = []" and "event_log kb = [dead]"
    and "kind dead = Keydown" and "\<not> reliable dead" and "event_keysym dead = None"
    and "modifiers dead = no_modifiers"
    and "kind down = Keydown" and "\<not> reliable down"
    and "event_keysym down \<noteq> Some 0xFFE7" and "event_keysym down \<noteq> Some 0xFFE8"
    and "kind pr = Keypress"
  shows "let kb1 = snd (interpret_events cf (kb\<lparr>event_log := event_log kb @ [down]\<rparr>));
             kb2 = snd (interpret_events cf (kb1\<lparr>event_log := event_log kb1 @ [pr]\<rparr>))
    in key_trace kb2 = key_trace kb \<and> pressed kb2 = [] \<and> event_log kb2 = []"
  using assms
    unknown_keydown_drops_log [of "kb\<lparr>event_log := event_log kb @ [down]\<rparr>" dead down cf]
    lone_keypress_dumped [of "kb\<lparr>kb_modifiers := no_modifiers, event_log := [pr]\<rparr>" pr cf]
  by (simp add: Let_def)

definition dead_keydown :: key_event where
  "dead_keydown = fst (keydown_event plain_config
     (example_event\<lparr>which := 222, dom_key := Some [0x44, 0x65, 0x61, 0x64]\<rparr>) new_keyboard)"

definition letter_keydown :: key_event where
  "letter_keydown = fst (keydown_event plain_config (example_event\<lparr>which := 69, dom_key := Some [0xE9]\<rparr>) new_keyboard)"

lemma example_keydowns:
  "kind dead_keydown = Keydown" "\<not> reliable dead_keydown" "event_keysym dead_keydown = None"
  "modifiers dead_keydown = no_modifiers"
  "kind letter_keydown = Keydown" "\<not> reliable letter_keydown" "event_keysym letter_keydown = Some 0xE9"
  by code_simp+

theorem rollover_after_dead_key_loses_character_witness:
  "let kb = new_keyboard\<lparr>event_log := [dead_keydown]\<rparr>;
       kb1 = snd (interpret_events plain_config (kb\<lparr>event_log := event_log kb @ [letter_keydown]\<rparr>));
       kb2 = snd (interpret_events plain_config
               (kb1\<lparr>event_log := event_log kb1 @ [keypress_event (example_event\<lparr>which := 0xE9\<rparr>)]\<rparr>))
   in key_trace kb2 = key_trace kb \<and> pressed kb2 = [] \<and> event_log kb2 = []"
  using rollover_after_dead_key_loses_character [of "new_keyboard\<lparr>event_log := [dead_keydown]\<rparr>" dead_keydown
      letter_keydown "keypress_event (example_event\<lparr>which := 0xE9\<rparr>)" plain_config]
  by (simp add: example_keydowns new_keyboard_def keypress_event_def)

end
