(* ===== verification/Guac_Layer.thy ===== *)
theory Guac_Layer
  imports Guac_Client Guac_Transfer
begin

text \<open>
  \<^verbatim>\<open>Guacamole.Layer\<close>: an off-screen canvas with an optional automatic size, the drawing state of
  its 2D context with the stack of saved states, and the current path.

  The canvas of the browser is modelled by what the code depends on: its dimensions, the
  attributes of the context, the saved attributes and the path. Setting a dimension of a
  canvas resets the context, as HTML prescribes. The pixels are represented by the list
  \<open>painted\<close> of the painting calls, each with the attributes and the path it was made with;
  \<open>Old_data w h\<close> there stands for the earlier contents cut to \<open>w\<close> by \<open>h\<close>. Every operation
  also says whether it threw an exception. Coordinates are numbers of the protocol, where
  \<open>None\<close> is \<^verbatim>\<open>NaN\<close>; canvases whose reading the browser forbids for security are not
  considered.
\<close>

subsection \<open>Numbers\<close>

definition num_add :: "jsnum \<Rightarrow> jsnum \<Rightarrow> jsnum" where
  "num_add a b = (case a of None \<Rightarrow> None | Some x \<Rightarrow> (case b of None \<Rightarrow> None | Some y \<Rightarrow> Some (x + y)))"

definition num_gt :: "jsnum \<Rightarrow> int \<Rightarrow> bool" where
  "num_gt a b = (case a of None \<Rightarrow> False | Some x \<Rightarrow> x > b)"

definition num_ge :: "jsnum \<Rightarrow> int \<Rightarrow> bool" where
  "num_ge a b = (case a of None \<Rightarrow> False | Some x \<Rightarrow> x \<ge> b)"

definition or_zero :: "jsnum \<Rightarrow> int" where
  "or_zero a = (case a of None \<Rightarrow> 0 | Some x \<Rightarrow> x)"

subsection \<open>State\<close>

datatype path_op =
  P_move jsnum jsnum
| P_line jsnum jsnum
| P_arc jsnum jsnum jsnum js_float js_float bool
| P_curve jsnum jsnum jsnum jsnum jsnum jsnum
| P_close
| P_rect jsnum jsnum jsnum jsnum

datatype style = Black | Rgba jsnum jsnum jsnum jsnum | Pattern layer

datatype matrix_op = M_set int int int int int int | M_mul js_float js_float js_float js_float js_float js_float

record ctx_state =
  composite :: jsstring
  cap :: js_opt
  join :: js_opt
  line_width :: jsnum
  stroke_style :: style
  fill_style :: style
  miter_limit :: js_float
  matrix :: "matrix_op list"
  clips :: "path_op list list"

definition initial_ctx :: ctx_state where
  "initial_ctx = \<lparr>composite = js ''source-over'', cap = Some (js ''butt''), join = Some (js ''miter''),
     line_width = Some 1, stroke_style = Black, fill_style = Black, miter_limit = Some (js ''10''),
     matrix = [], clips = []\<rparr>"

datatype paint =
  Draw_image jsnum jsnum nat
| Put_data layer jsnum jsnum jsnum jsnum jsnum jsnum
| Transfer_data layer jsnum jsnum jsnum jsnum jsnum jsnum jsnum
| Draw_canvas layer jsnum jsnum jsnum jsnum jsnum jsnum
| Stroke
| Fill
| Old_data int int

record layer_state =
  width :: int
  height :: int
  autosize :: bool
  canvas_width :: int
  canvas_height :: int
  is_empty :: bool
  path_closed :: bool
  stack_size :: nat
  ctx :: ctx_state
  saved :: "ctx_state list"
  path :: "path_op list"
  painted :: "(paint \<times> ctx_state \<times> path_op list) list"

type_synonym layer_call = "layer_state \<Rightarrow> layer_state \<times> bool"

subsection \<open>The context\<close>

definition save :: "layer_state \<Rightarrow> layer_state" where
  "save l = l\<lparr>saved := ctx l # saved l\<rparr>"

definition restore :: "layer_state \<Rightarrow> layer_state" where
  "restore l = (case saved l of [] \<Rightarrow> l | s # ss \<Rightarrow> l\<lparr>ctx := s, saved := ss\<rparr>)"

definition do_paint :: "paint \<Rightarrow> layer_state \<Rightarrow> layer_state" where
  "do_paint p l = l\<lparr>painted := painted l @ [(p, ctx l, path l)]\<rparr>"

text \<open>
  A canvas dimension is an unsigned 32-bit attribute limited to 31 bits, with a default.
\<close>

definition canvas_dimension :: "int \<Rightarrow> int \<Rightarrow> int" where
  "canvas_dimension dflt n = (let u = n mod 2 ^ 32 in if u \<le> 2147483647 then u else dflt)"

definition set_canvas_size :: "int \<Rightarrow> int \<Rightarrow> layer_state \<Rightarrow> layer_state" where
  "set_canvas_size w h l =
     l\<lparr>canvas_width := canvas_dimension 300 w, canvas_height := canvas_dimension 150 h,
       ctx := initial_ctx, saved := [], path := [], painted := []\<rparr>"

subsection \<open>Resizing\<close>

definition CANVAS_SIZE_FACTOR :: int where
  "CANVAS_SIZE_FACTOR = 64"

definition round_up :: "int \<Rightarrow> int" where
  "round_up n = - ((- n) div CANVAS_SIZE_FACTOR) * CANVAS_SIZE_FACTOR"

fun unwind :: "nat \<Rightarrow> layer_state \<Rightarrow> layer_state" where
  "unwind 0 l = l"
| "unwind (Suc n) l = unwind n ((restore l)\<lparr>stack_size := n\<rparr>)"

definition layer_reset :: "layer_state \<Rightarrow> layer_state" where
  "layer_reset l = (save (restore (unwind (stack_size l) l)))\<lparr>path := [], path_closed := False\<rparr>"

definition internal_resize :: "jsnum \<Rightarrow> jsnum \<Rightarrow> layer_call" where
  "internal_resize new_width new_height l =
     (let nw = or_zero new_width; nh = or_zero new_height; cw = round_up nw; ch = round_up nh
      in if canvas_width l \<noteq> cw \<or> canvas_height l \<noteq> ch then
           (let old_data = (if \<not> is_empty l \<and> canvas_width l \<noteq> 0 \<and> canvas_height l \<noteq> 0
                            then Some (canvas_dimension 300 (min (width l) nw),
                                       canvas_dimension 150 (min (height l) nh))
                            else None);
                old_composite = composite (ctx l);
                l1 = set_canvas_size cw ch l
            in case old_data of
                 Some (ow, oh) \<Rightarrow>
                   if ow = 0 \<or> oh = 0 then (l1, True)
                   else
                     (let l2 = do_paint (Old_data ow oh) l1;
                          l3 = l2\<lparr>ctx := (ctx l2)\<lparr>composite := old_composite\<rparr>\<rparr>
                      in ((save (l3\<lparr>stack_size := 0\<rparr>))\<lparr>width := nw, height := nh\<rparr>, False))
               | None \<Rightarrow>
                   (let l3 = l1\<lparr>ctx := (ctx l1)\<lparr>composite := old_composite\<rparr>\<rparr>
                    in ((save (l3\<lparr>stack_size := 0\<rparr>))\<lparr>width := nw, height := nh\<rparr>, False)))
         else ((layer_reset l)\<lparr>width := nw, height := nh\<rparr>, False))"

definition layer_resize :: "jsnum \<Rightarrow> jsnum \<Rightarrow> layer_call" where
  "layer_resize new_width new_height l =
     (if new_width \<noteq> Some (width l) \<or> new_height \<noteq> Some (height l)
      then internal_resize new_width new_height l else (l, False))"

definition fit_rect :: "jsnum \<Rightarrow> jsnum \<Rightarrow> jsnum \<Rightarrow> jsnum \<Rightarrow> layer_call" where
  "fit_rect x y w h l =
     (let op_bound_x = num_add w x; op_bound_y = num_add h y
      in layer_resize
           (if num_gt op_bound_x (width l) then op_bound_x else Some (width l))
           (if num_gt op_bound_y (height l) then op_bound_y else Some (height l)) l)"

text \<open>A fresh canvas is 300 by 150 pixels.\<close>

definition new_layer :: "int \<Rightarrow> int \<Rightarrow> layer_state" where
  "new_layer w h =
     fst (internal_resize (Some w) (Some h)
       (save \<lparr>width = w, height = h, autosize = False, canvas_width = 300, canvas_height = 150,
         is_empty = True, path_closed = True, stack_size = 0, ctx = initial_ctx, saved = [],
         path = [], painted = []\<rparr>))"

definition new_buffer :: layer_state where
  "new_buffer = (new_layer 0 0)\<lparr>autosize := True\<rparr>"

text \<open>Most operations first make room in a layer that sizes itself.\<close>

definition fitted :: "jsnum \<Rightarrow> jsnum \<Rightarrow> jsnum \<Rightarrow> jsnum \<Rightarrow> layer_call \<Rightarrow> layer_call" where
  "fitted x y w h k l =
     (if autosize l then (case fit_rect x y w h l of (l1, True) \<Rightarrow> (l1, True) | (l1, False) \<Rightarrow> k l1)
      else k l)"

subsection \<open>Images\<close>

text \<open>An image is known by a number and its dimensions.\<close>

definition draw_image :: "jsnum \<Rightarrow> jsnum \<Rightarrow> nat \<Rightarrow> int \<Rightarrow> int \<Rightarrow> layer_call" where
  "draw_image x y img iw ih =
     fitted x y (Some iw) (Some ih) (\<lambda>l. ((do_paint (Draw_image x y img) l)\<lparr>is_empty := False\<rparr>, False))"

text \<open>
  The rectangle of a source canvas that \<^verbatim>\<open>transfer\<close>, \<^verbatim>\<open>put\<close> and \<^verbatim>\<open>copy\<close> use; \<open>None\<close> if there is
  nothing to draw.
\<close>

definition clip_source :: "int \<times> int \<Rightarrow> jsnum \<Rightarrow> jsnum \<Rightarrow> jsnum \<Rightarrow> jsnum \<Rightarrow> (jsnum \<times> jsnum) option" where
  "clip_source dims srcx srcy srcw srch =
     (let cw = fst dims; ch = snd dims
      in if num_ge srcx cw \<or> num_ge srcy ch then None
         else
           (let sw = (if num_gt (num_add srcx srcw) cw then Some (cw - or_zero srcx) else srcw);
                sh = (if num_gt (num_add srcy srch) ch then Some (ch - or_zero srcy) else srch)
            in if sw = Some 0 \<or> sh = Some 0 then None else Some (sw, sh)))"

text \<open>\<^verbatim>\<open>getImageData\<close> takes \<^verbatim>\<open>NaN\<close> for zero and throws for an empty rectangle.\<close>

definition layer_put ::
  "layer \<Rightarrow> int \<times> int \<Rightarrow> jsnum \<Rightarrow> jsnum \<Rightarrow> jsnum \<Rightarrow> jsnum \<Rightarrow> jsnum \<Rightarrow> jsnum \<Rightarrow> layer_call" where
  "layer_put src dims srcx srcy srcw srch x y l =
     (case clip_source dims srcx srcy srcw srch of
        None \<Rightarrow> (l, False)
      | Some (sw, sh) \<Rightarrow>
          fitted x y sw sh (\<lambda>l.
            if sw = None \<or> sh = None then (l, True)
            else ((do_paint (Put_data src srcx srcy sw sh x y) l)\<lparr>is_empty := False\<rparr>, False)) l)"

definition layer_transfer ::
  "layer \<Rightarrow> int \<times> int \<Rightarrow> jsnum \<Rightarrow> jsnum \<Rightarrow> jsnum \<Rightarrow> jsnum \<Rightarrow> jsnum \<Rightarrow> jsnum \<Rightarrow> jsnum \<Rightarrow> layer_call" where
  "layer_transfer src dims srcx srcy srcw srch x y function_index l =
     (case clip_source dims srcx srcy srcw srch of
        None \<Rightarrow> (l, False)
      | Some (sw, sh) \<Rightarrow>
          fitted x y sw sh (\<lambda>l.
            if sw = None \<or> sh = None
               \<or> or_zero sw * or_zero sh > 0 \<and> Option.bind function_index transfer_function = None
            then (l, True)
            else ((do_paint (Transfer_data src srcx srcy sw sh x y function_index) l)\<lparr>is_empty := False\<rparr>, False)) l)"

definition layer_copy ::
  "layer \<Rightarrow> int \<times> int \<Rightarrow> jsnum \<Rightarrow> jsnum \<Rightarrow> jsnum \<Rightarrow> jsnum \<Rightarrow> jsnum \<Rightarrow> jsnum \<Rightarrow> layer_call" where
  "layer_copy src dims srcx srcy srcw srch x y l =
     (case clip_source dims srcx srcy srcw srch of
        None \<Rightarrow> (l, False)
      | Some (sw, sh) \<Rightarrow>
          fitted x y sw sh (\<lambda>l.
            ((do_paint (Draw_canvas src srcx srcy sw sh x y) l)\<lparr>is_empty := False\<rparr>, False)) l)"

text \<open>The loop of \<^verbatim>\<open>transfer\<close> over the bytes of both images, four to a pixel.\<close>

fun transfer_bytes :: "(pixel \<Rightarrow> pixel \<Rightarrow> pixel) \<Rightarrow> 8 word list \<Rightarrow> 8 word list \<Rightarrow> 8 word list" where
  "transfer_bytes f (r # g # b # a # src) (r' # g' # b' # a' # dst) =
     (let p = f \<lparr>red = r, green = g, blue = b, alpha = a\<rparr> \<lparr>red = r', green = g', blue = b', alpha = a'\<rparr>
      in red p # green p # blue p # alpha p # transfer_bytes f src dst)"
| "transfer_bytes f src dst = dst"

subsection \<open>Paths\<close>

definition begin_path :: "layer_state \<Rightarrow> layer_state" where
  "begin_path l = (if path_closed l then l\<lparr>path := [], path_closed := False\<rparr> else l)"

definition add_path :: "path_op \<Rightarrow> layer_call" where
  "add_path p l = (l\<lparr>path := path l @ [p]\<rparr>, False)"

definition move_to :: "jsnum \<Rightarrow> jsnum \<Rightarrow> layer_call" where
  "move_to x y l = fitted x y (Some 0) (Some 0) (add_path (P_move x y)) (begin_path l)"

definition line_to :: "jsnum \<Rightarrow> jsnum \<Rightarrow> layer_call" where
  "line_to x y l = fitted x y (Some 0) (Some 0) (add_path (P_line x y)) (begin_path l)"

definition arc :: "jsnum \<Rightarrow> jsnum \<Rightarrow> jsnum \<Rightarrow> js_float \<Rightarrow> js_float \<Rightarrow> bool \<Rightarrow> layer_call" where
  "arc x y r sa ea neg l = fitted x y (Some 0) (Some 0) (add_path (P_arc x y r sa ea neg)) (begin_path l)"

definition curve_to :: "jsnum \<Rightarrow> jsnum \<Rightarrow> jsnum \<Rightarrow> jsnum \<Rightarrow> jsnum \<Rightarrow> jsnum \<Rightarrow> layer_call" where
  "curve_to ax ay bx by' x y l = fitted x y (Some 0) (Some 0) (add_path (P_curve ax ay bx by' x y)) (begin_path l)"

definition rect :: "jsnum \<Rightarrow> jsnum \<Rightarrow> jsnum \<Rightarrow> jsnum \<Rightarrow> layer_call" where
  "rect x y w h l = fitted x y w h (add_path (P_rect x y w h)) (begin_path l)"

definition close_path :: layer_call where
  "close_path l = (l\<lparr>path := path l @ [P_close], path_closed := True\<rparr>, False)"

definition clip :: layer_call where
  "clip l = (l\<lparr>ctx := (ctx l)\<lparr>clips := clips (ctx l) @ [path l]\<rparr>, path_closed := True\<rparr>, False)"

text \<open>Attributes keep their value when an invalid one is assigned.\<close>

definition set_line :: "js_opt \<Rightarrow> js_opt \<Rightarrow> jsnum \<Rightarrow> ctx_state \<Rightarrow> ctx_state" where
  "set_line cp jn w c =
     c\<lparr>cap := (if cp = None then cap c else cp), join := (if jn = None then join c else jn),
       line_width := (if num_gt w 0 then w else line_width c)\<rparr>"

definition stroke_color :: "js_opt \<Rightarrow> js_opt \<Rightarrow> jsnum \<Rightarrow> jsnum \<Rightarrow> jsnum \<Rightarrow> jsnum \<Rightarrow> jsnum \<Rightarrow> layer_call" where
  "stroke_color cp jn w r g b a l =
     (let l1 = l\<lparr>ctx := (set_line cp jn w (ctx l))\<lparr>stroke_style := Rgba r g b a\<rparr>\<rparr>
      in ((do_paint Stroke l1)\<lparr>is_empty := False, path_closed := True\<rparr>, False))"

definition fill_color :: "jsnum \<Rightarrow> jsnum \<Rightarrow> jsnum \<Rightarrow> jsnum \<Rightarrow> layer_call" where
  "fill_color r g b a l =
     (let l1 = l\<lparr>ctx := (ctx l)\<lparr>fill_style := Rgba r g b a\<rparr>\<rparr>
      in ((do_paint Fill l1)\<lparr>is_empty := False, path_closed := True\<rparr>, False))"

text \<open>
  \<^verbatim>\<open>createPattern\<close> throws for a canvas without pixels; with no source layer at all, looking up
  its canvas throws. \<open>src\<close> carries the dimensions of the canvas.
\<close>

definition stroke_layer :: "js_opt \<Rightarrow> js_opt \<Rightarrow> jsnum \<Rightarrow> (layer \<times> int \<times> int) option \<Rightarrow> layer_call" where
  "stroke_layer cp jn w src l =
     (let l1 = l\<lparr>ctx := set_line cp jn w (ctx l)\<rparr>
      in case src of
           None \<Rightarrow> (l1, True)
         | Some (s, sw, sh) \<Rightarrow>
             if sw = 0 \<or> sh = 0 then (l1, True)
             else
               (let l2 = l1\<lparr>ctx := (ctx l1)\<lparr>stroke_style := Pattern s\<rparr>\<rparr>
                in ((do_paint Stroke l2)\<lparr>is_empty := False, path_closed := True\<rparr>, False)))"

definition fill_layer :: "layer \<Rightarrow> int \<times> int \<Rightarrow> layer_call" where
  "fill_layer s dims l =
     (if fst dims = 0 \<or> snd dims = 0 then (l, True)
      else
        (let l1 = l\<lparr>ctx := (ctx l)\<lparr>fill_style := Pattern s\<rparr>\<rparr>
         in ((do_paint Fill l1)\<lparr>is_empty := False, path_closed := True\<rparr>, False)))"

subsection \<open>State of the context\<close>

definition push :: layer_call where
  "push l = ((save l)\<lparr>stack_size := stack_size l + 1\<rparr>, False)"

definition pop :: layer_call where
  "pop l = (if stack_size l > 0 then ((restore l)\<lparr>stack_size := stack_size l - 1\<rparr>, False) else (l, False))"

definition reset_layer :: layer_call where
  "reset_layer l = (layer_reset l, False)"

definition set_transform :: "int \<Rightarrow> int \<Rightarrow> int \<Rightarrow> int \<Rightarrow> int \<Rightarrow> int \<Rightarrow> layer_call" where
  "set_transform a b c d e f l = (l\<lparr>ctx := (ctx l)\<lparr>matrix := [M_set a b c d e f]\<rparr>\<rparr>, False)"

definition transform :: "js_float \<Rightarrow> js_float \<Rightarrow> js_float \<Rightarrow> js_float \<Rightarrow> js_float \<Rightarrow> js_float \<Rightarrow> layer_call" where
  "transform a b c d e f l = (l\<lparr>ctx := (ctx l)\<lparr>matrix := matrix (ctx l) @ [M_mul a b c d e f]\<rparr>\<rparr>, False)"

definition composite_operation :: "(int \<times> string) list" where
  "composite_operation =
     [(0x1, ''destination-in''), (0x2, ''destination-out''), (0x4, ''source-in''), (0x6, ''source-atop''),
      (0x8, ''source-out''), (0x9, ''destination-atop''), (0xA, ''xor''), (0xB, ''destination-over''),
      (0xC, ''copy''), (0xE, ''source-over''), (0xF, ''lighter'')]"

definition set_channel_mask :: "jsnum \<Rightarrow> layer_call" where
  "set_channel_mask m l =
     (case Option.bind m (map_of composite_operation) of
        None \<Rightarrow> (l, False)
      | Some s \<Rightarrow> (l\<lparr>ctx := (ctx l)\<lparr>composite := js s\<rparr>\<rparr>, False))"

definition set_miter_limit :: "js_float \<Rightarrow> layer_call" where
  "set_miter_limit limit l = (l\<lparr>ctx := (ctx l)\<lparr>miter_limit := limit\<rparr>\<rparr>, False)"

subsection \<open>Dimensions\<close>

definition max_dimension :: int where
  "max_dimension = 2147483584"

definition sized :: "layer_state \<Rightarrow> bool" where
  "sized l \<longleftrightarrow> 0 \<le> width l \<and> width l \<le> max_dimension \<and> 0 \<le> height l \<and> height l \<le> max_dimension
     \<and> canvas_width l = round_up (width l) \<and> canvas_height l = round_up (height l)"

definition balanced :: "layer_state \<Rightarrow> bool" where
  "balanced l \<longleftrightarrow> length (saved l) = Suc (stack_size l)"

lemma round_up_bounds: "n \<le> round_up n" "round_up n < n + 64" "64 dvd round_up n"
proof -
  have "- n = 64 * (- n div 64) + (- n) mod 64" by simp
  moreover have "0 \<le> (- n) mod 64" "(- n) mod 64 < 64" by simp_all
  ultimately show "n \<le> round_up n" "round_up n < n + 64"
    by (simp_all add: round_up_def CANVAS_SIZE_FACTOR_def)
  show "64 dvd round_up n" by (simp add: round_up_def CANVAS_SIZE_FACTOR_def)
qed

lemma round_up_range:
  assumes "0 \<le> n" and "n \<le> max_dimension"
  shows "0 \<le> round_up n" and "round_up n \<le> max_dimension"
proof -
  show "0 \<le> round_up n" using assms(1) round_up_bounds(1) [of n] by simp
  obtain k where k: "round_up n = 64 * k" using round_up_bounds(3) [of n] by auto
  with round_up_bounds(2) [of n] assms(2) show "round_up n \<le> max_dimension"
    by (simp add: max_dimension_def)
qed

lemma canvas_dimension_id: "0 \<le> n \<Longrightarrow> n \<le> max_dimension \<Longrightarrow> canvas_dimension dflt n = n"
  by (simp add: canvas_dimension_def max_dimension_def Let_def)

lemma round_up_zero [simp]: "round_up 0 = 0"
  by (simp add: round_up_def)

lemma round_up_positive: "0 < n \<Longrightarrow> 0 < round_up n"
  using round_up_bounds(1) [of n] by simp

subsection \<open>The stack of saved states\<close>

lemma unwind_fields [simp]:
  "width (unwind n l) = width l" "height (unwind n l) = height l" "autosize (unwind n l) = autosize l"
  "canvas_width (unwind n l) = canvas_width l" "canvas_height (unwind n l) = canvas_height l"
  "painted (unwind n l) = painted l" "is_empty (unwind n l) = is_empty l" "path (unwind n l) = path l"
  by (induction n l rule: unwind.induct) (simp_all add: restore_def split: list.splits)

lemma unwind_saved: "saved (unwind n l) = drop n (saved l)"
  by (induction n l rule: unwind.induct) (simp_all add: restore_def split: list.splits)

lemma unwind_stack: "stack_size (unwind (stack_size l) l) = 0"
proof -
  have "stack_size (unwind n l) = (if n = 0 then stack_size l else 0)" for n
    by (induction n l rule: unwind.induct) (simp_all split: if_splits)
  then show ?thesis by simp
qed

lemma layer_reset_fields [simp]:
  "width (layer_reset l) = width l" "height (layer_reset l) = height l"
  "autosize (layer_reset l) = autosize l" "canvas_width (layer_reset l) = canvas_width l"
  "canvas_height (layer_reset l) = canvas_height l" "painted (layer_reset l) = painted l"
  "is_empty (layer_reset l) = is_empty l" "path (layer_reset l) = []" "path_closed (layer_reset l) = False"
  by (simp_all add: layer_reset_def save_def restore_def split: list.splits)

lemma layer_reset_balanced:
  assumes "balanced l"
  shows "ctx (layer_reset l) = last (saved l)" "saved (layer_reset l) = [last (saved l)]"
    "stack_size (layer_reset l) = 0"
proof -
  from assms obtain ss s where s: "saved l = ss @ [s]" "length ss = stack_size l"
    by (metis balanced_def length_Suc_conv_rev)
  then have "saved (unwind (stack_size l) l) = [s]" by (simp add: unwind_saved)
  then show "ctx (layer_reset l) = last (saved l)" "saved (layer_reset l) = [last (saved l)]"
    "stack_size (layer_reset l) = 0"
    using s by (simp_all add: layer_reset_def restore_def save_def unwind_stack)
qed

subsection \<open>Resizing keeps the layer in order\<close>

named_theorems balanced_intros \<open>calls that return keep the stack of saved states balanced\<close>

lemma internal_resize_balanced [balanced_intros]:
  "balanced l \<Longrightarrow> internal_resize w h l = (l', False) \<Longrightarrow> balanced l'"
  by (auto simp: internal_resize_def Let_def balanced_def save_def set_canvas_size_def do_paint_def
      layer_reset_balanced [unfolded balanced_def] split: if_splits option.splits)

lemma internal_resize_sized:
  assumes "0 \<le> w" and "w \<le> max_dimension" and "0 \<le> h" and "h \<le> max_dimension"
    and "internal_resize (Some w) (Some h) l = (l', False)"
  shows "sized l'" "width l' = w" "height l' = h"
  using assms round_up_range [OF assms(1,2)] round_up_range [OF assms(3,4)]
  by (auto simp: internal_resize_def Let_def sized_def save_def set_canvas_size_def do_paint_def or_zero_def
      canvas_dimension_id split: if_splits)

lemma internal_resize_autosize:
  "internal_resize w h l = (l', t) \<Longrightarrow> autosize l' = autosize l"
  by (auto simp: internal_resize_def Let_def save_def set_canvas_size_def do_paint_def split: if_splits option.splits)

lemma layer_resize_sized:
  assumes "sized l" and "0 \<le> w" and "w \<le> max_dimension" and "0 \<le> h" and "h \<le> max_dimension"
    and "layer_resize (Some w) (Some h) l = (l', False)"
  shows "sized l' \<and> width l' = w \<and> height l' = h"
proof (cases "w = width l \<and> h = height l")
  case True
  with assms(1,6) show ?thesis by (simp add: layer_resize_def)
next
  case False
  with assms(6) have "internal_resize (Some w) (Some h) l = (l', False)"
    by (simp add: layer_resize_def split: if_splits)
  from internal_resize_sized [OF assms(2-5) this] show ?thesis by simp
qed

lemma layer_resize_balanced [balanced_intros]:
  "balanced l \<Longrightarrow> layer_resize w h l = (l', False) \<Longrightarrow> balanced l'"
  by (auto simp: layer_resize_def split: if_splits intro: balanced_intros)

lemma growing_returns:
  assumes "sized l" and "width l \<le> w" and "w \<le> max_dimension" and "height l \<le> h" and "h \<le> max_dimension"
  shows "\<not> snd (layer_resize (Some w) (Some h) l)"
proof -
  have "canvas_dimension dflt (width l) = width l" "canvas_dimension dflt (height l) = height l" for dflt
    using assms(1) by (simp_all add: sized_def canvas_dimension_id)
  then show ?thesis
    using assms round_up_positive
    by (auto simp: layer_resize_def internal_resize_def Let_def or_zero_def min_absorb1 sized_def split: option.splits)
qed

lemma fit_rect_eq:
  "fit_rect (Some x) (Some y) (Some w) (Some h) l =
     layer_resize (Some (max (w + x) (width l))) (Some (max (h + y) (height l))) l"
  by (simp add: fit_rect_def num_add_def num_gt_def max_def not_less)

lemma fit_rect_balanced [balanced_intros]:
  "balanced l \<Longrightarrow> fit_rect x y w h l = (l', False) \<Longrightarrow> balanced l'"
  by (auto simp: fit_rect_def Let_def intro: balanced_intros)

lemma fitted_balanced [balanced_intros]:
  assumes "balanced l" and "fitted x y w h k l = (l', False)"
    and "\<And>l l'. balanced l \<Longrightarrow> k l = (l', False) \<Longrightarrow> balanced l'"
  shows "balanced l'"
  using assms by (auto simp: fitted_def split: if_splits prod.splits bool.splits intro: balanced_intros)


lemma new_layer_sized: "0 \<le> w \<Longrightarrow> w \<le> max_dimension \<Longrightarrow> 0 \<le> h \<Longrightarrow> h \<le> max_dimension \<Longrightarrow> sized (new_layer w h)"
  using round_up_range [of w] round_up_range [of h]
  by (simp add: new_layer_def internal_resize_def Let_def sized_def save_def set_canvas_size_def or_zero_def
      canvas_dimension_id)

lemma new_layer_balanced: "balanced (new_layer w h)"
  by (simp add: new_layer_def internal_resize_def Let_def balanced_def save_def set_canvas_size_def
      layer_reset_def restore_def)

lemma new_buffer_ok: "sized new_buffer" "balanced new_buffer"
  using new_layer_sized [of 0 0] new_layer_balanced [of 0 0]
  by (simp_all add: new_buffer_def sized_def balanced_def max_dimension_def)


subsection \<open>Every call keeps the stack balanced\<close>

lemma balanced_cong: "saved l' = saved l \<Longrightarrow> stack_size l' = stack_size l \<Longrightarrow> balanced l' \<longleftrightarrow> balanced l"
  by (simp add: balanced_def)

lemma context_calls_balanced [balanced_intros]:
  "balanced l \<Longrightarrow> push l = (l', False) \<Longrightarrow> balanced l'"
  "balanced l \<Longrightarrow> pop l = (l', False) \<Longrightarrow> balanced l'"
  "balanced l \<Longrightarrow> reset_layer l = (l', False) \<Longrightarrow> balanced l'"
  "balanced l \<Longrightarrow> set_transform a b c d e f l = (l', False) \<Longrightarrow> balanced l'"
  "balanced l \<Longrightarrow> transform ta tb tc td te tf l = (l', False) \<Longrightarrow> balanced l'"
  "balanced l \<Longrightarrow> set_channel_mask m l = (l', False) \<Longrightarrow> balanced l'"
  "balanced l \<Longrightarrow> set_miter_limit v l = (l', False) \<Longrightarrow> balanced l'"
  by (auto simp: push_def pop_def reset_layer_def set_transform_def transform_def set_channel_mask_def
      set_miter_limit_def balanced_def save_def restore_def layer_reset_balanced [unfolded balanced_def]
      split: list.splits if_splits option.splits)

lemma add_path_balanced [balanced_intros]: "balanced l \<Longrightarrow> add_path p l = (l', False) \<Longrightarrow> balanced l'"
  by (auto simp: add_path_def balanced_def)

lemma begin_path_balanced [simp]: "balanced (begin_path l) = balanced l"
  by (simp add: begin_path_def balanced_def)

lemma path_calls_balanced [balanced_intros]:
  "balanced l \<Longrightarrow> move_to x y l = (l', False) \<Longrightarrow> balanced l'"
  "balanced l \<Longrightarrow> line_to x y l = (l', False) \<Longrightarrow> balanced l'"
  "balanced l \<Longrightarrow> arc x y r sa ea neg l = (l', False) \<Longrightarrow> balanced l'"
  "balanced l \<Longrightarrow> curve_to ax ay bx by' x y l = (l', False) \<Longrightarrow> balanced l'"
  "balanced l \<Longrightarrow> rect x y w h l = (l', False) \<Longrightarrow> balanced l'"
  unfolding move_to_def line_to_def arc_def curve_to_def rect_def
  by (rule fitted_balanced [OF _ _ add_path_balanced]; simp)+

lemma paint_calls_balanced [balanced_intros]:
  "balanced l \<Longrightarrow> close_path l = (l', False) \<Longrightarrow> balanced l'"
  "balanced l \<Longrightarrow> clip l = (l', False) \<Longrightarrow> balanced l'"
  "balanced l \<Longrightarrow> stroke_color cp jn lw r g b a l = (l', False) \<Longrightarrow> balanced l'"
  "balanced l \<Longrightarrow> fill_color r g b a l = (l', False) \<Longrightarrow> balanced l'"
  "balanced l \<Longrightarrow> stroke_layer cp jn lw src l = (l', False) \<Longrightarrow> balanced l'"
  "balanced l \<Longrightarrow> fill_layer s dims l = (l', False) \<Longrightarrow> balanced l'"
  by (auto simp: close_path_def clip_def stroke_color_def fill_color_def stroke_layer_def fill_layer_def
      balanced_def do_paint_def Let_def split: option.splits if_splits)

lemma image_calls_balanced [balanced_intros]:
  "balanced l \<Longrightarrow> draw_image x y img iw ih l = (l', False) \<Longrightarrow> balanced l'"
  "balanced l \<Longrightarrow> layer_put src dims srcx srcy srcw srch x y l = (l', False) \<Longrightarrow> balanced l'"
  "balanced l \<Longrightarrow> layer_transfer src dims srcx srcy srcw srch x y fi l = (l', False) \<Longrightarrow> balanced l'"
  "balanced l \<Longrightarrow> layer_copy src dims srcx srcy srcw srch x y l = (l', False) \<Longrightarrow> balanced l'"
  by (auto simp: draw_image_def layer_put_def layer_transfer_def layer_copy_def balanced_def do_paint_def
      split: option.splits if_splits elim!: fitted_balanced [unfolded balanced_def, rotated])

subsection \<open>What growing loses\<close>

lemma resize_clears_path:
  "(w, h) \<noteq> (width l, height l) \<Longrightarrow> path (fst (layer_resize (Some w) (Some h) l)) = []"
  by (auto simp: layer_resize_def internal_resize_def Let_def set_canvas_size_def save_def do_paint_def
      split: option.splits)

lemma begin_path_fields [simp]:
  "width (begin_path l) = width l" "height (begin_path l) = height l" "autosize (begin_path l) = autosize l"
  "canvas_width (begin_path l) = canvas_width l" "canvas_height (begin_path l) = canvas_height l"
  "sized (begin_path l) = sized l"
  by (simp_all add: begin_path_def sized_def)

text \<open>
  A path on a layer that sizes itself is cut when the layer has to grow: a line to a point
  outside the layer resizes it, which clears the path drawn so far, and only the last segment
  is left. (The line is then not drawn at all, because a segment that opens a path has no
  start.)
\<close>

theorem growing_layer_cuts_path:
  assumes "sized l" and "autosize l" and "width l < x \<or> height l < y"
    and "x \<le> max_dimension" and "y \<le> max_dimension"
  shows "\<not> snd (line_to (Some x) (Some y) l) \<and> path (fst (line_to (Some x) (Some y) l)) = [P_line (Some x) (Some y)]"
proof -
  let ?l = "begin_path l" and ?w = "max x (width l)" and ?h = "max y (height l)"
  obtain l' t where r: "layer_resize (Some ?w) (Some ?h) ?l = (l', t)" by (meson surj_pair)
  have "\<not> t" using growing_returns [of ?l ?w ?h] assms r by (simp add: sized_def)
  moreover have "path l' = []"
    using resize_clears_path [of ?w ?h ?l] assms(3) r by auto
  ultimately show ?thesis
    using r assms(2) by (simp add: line_to_def fitted_def fit_rect_eq add_path_def)
qed

text \<open>A buffer of 10 by 10 pixels with a path that has been started.\<close>

definition small_buffer :: layer_state where
  "small_buffer = fst (move_to (Some 10) (Some 10) new_buffer)"

lemma small_buffer_simps:
  "sized small_buffer" "balanced small_buffer" "autosize small_buffer" "width small_buffer = 10" "height small_buffer = 10"
  "canvas_width small_buffer = 64" "canvas_height small_buffer = 64"
  "path small_buffer = [P_move (Some 10) (Some 10)]" "composite (last (saved small_buffer)) = js ''source-over''"
  by code_simp+

theorem growing_layer_cuts_path_witness:
  "path small_buffer = [P_move (Some 10) (Some 10)]
   \<and> \<not> snd (line_to (Some 70) (Some 5) small_buffer)
   \<and> path (fst (line_to (Some 70) (Some 5) small_buffer)) = [P_line (Some 70) (Some 5)]"
  using growing_layer_cuts_path [of small_buffer 70 5] by (simp add: small_buffer_simps max_dimension_def)

lemma set_channel_mask_fields [simp]:
  "width (fst (set_channel_mask m l)) = width l" "height (fst (set_channel_mask m l)) = height l"
  "canvas_width (fst (set_channel_mask m l)) = canvas_width l"
  "canvas_height (fst (set_channel_mask m l)) = canvas_height l"
  "autosize (fst (set_channel_mask m l)) = autosize l" "saved (fst (set_channel_mask m l)) = saved l"
  "stack_size (fst (set_channel_mask m l)) = stack_size l" "painted (fst (set_channel_mask m l)) = painted l"
  by (simp_all add: set_channel_mask_def split: option.splits)

lemma same_canvas_resize_resets:
  assumes "balanced l" and "(w, h) \<noteq> (width l, height l)"
    and "round_up w = canvas_width l" and "round_up h = canvas_height l"
  shows "layer_resize (Some w) (Some h) l = ((layer_reset l)\<lparr>width := w, height := h\<rparr>, False)"
  using assms by (auto simp: layer_resize_def internal_resize_def or_zero_def Let_def)

text \<open>
  A channel mask does not survive the growth of a buffer within its canvas. The client sets
  the mask of a buffer and then copies to it; if the copy makes the buffer grow while its
  canvas, rounded up, stays the same, the buffer is reset first and the copy is composed as the
  buffer's base state says, whatever mask was asked for.
\<close>

theorem growing_layer_loses_channel_mask:
  assumes "balanced l" and "autosize l"
    and "clip_source dims srcx srcy srcw srch = Some (Some sw, Some sh)"
    and "width l < sw + x \<or> height l < sh + y"
    and "round_up (max (sw + x) (width l)) = canvas_width l"
    and "round_up (max (sh + y) (height l)) = canvas_height l"
  shows "painted (fst (layer_copy src dims srcx srcy srcw srch (Some x) (Some y) (fst (set_channel_mask m l))))
    = painted l @ [(Draw_canvas src srcx srcy (Some sw) (Some sh) (Some x) (Some y), last (saved l), [])]"
proof -
  let ?l = "fst (set_channel_mask m l)"
  have b: "balanced ?l" using assms(1) by (simp add: balanced_def)
  have "layer_resize (Some (max (sw + x) (width ?l))) (Some (max (sh + y) (height ?l))) ?l =
      ((layer_reset ?l)\<lparr>width := max (sw + x) (width l), height := max (sh + y) (height l)\<rparr>, False)"
    using same_canvas_resize_resets [OF b] assms(4-6) by auto
  then show ?thesis
    using assms(2,3) layer_reset_balanced(1) [OF b]
    by (simp add: layer_copy_def fitted_def fit_rect_eq do_paint_def)
qed

theorem growing_layer_loses_channel_mask_witness:
  "painted (fst (layer_copy Default_layer (800, 600) (Some 0) (Some 0) (Some 20) (Some 5) (Some 0) (Some 0)
      (fst (set_channel_mask (Some 0xC) small_buffer))))
    = painted small_buffer @ [(Draw_canvas Default_layer (Some 0) (Some 0) (Some 20) (Some 5) (Some 0) (Some 0),
        last (saved small_buffer), [])]
   \<and> composite (last (saved small_buffer)) = js ''source-over''
   \<and> composite (ctx (fst (set_channel_mask (Some 0xC) small_buffer))) = js ''copy''"
proof (intro conjI)
  show "painted (fst (layer_copy Default_layer (800, 600) (Some 0) (Some 0) (Some 20) (Some 5) (Some 0) (Some 0)
      (fst (set_channel_mask (Some 0xC) small_buffer))))
    = painted small_buffer @ [(Draw_canvas Default_layer (Some 0) (Some 0) (Some 20) (Some 5) (Some 0) (Some 0),
        last (saved small_buffer), [])]"
    by (rule growing_layer_loses_channel_mask)
      (simp_all add: small_buffer_simps clip_source_def num_ge_def num_gt_def num_add_def or_zero_def
        round_up_def CANVAS_SIZE_FACTOR_def)
qed (simp_all add: small_buffer_simps set_channel_mask_def composite_operation_def)

subsection \<open>Transferring pixels\<close>

definition pixel_bytes :: "pixel \<Rightarrow> 8 word list" where
  "pixel_bytes p = [red p, green p, blue p, alpha p]"

lemma transfer_bytes_pixelwise:
  assumes "length ps = length qs"
  shows "transfer_bytes f (concat (map pixel_bytes ps)) (concat (map pixel_bytes qs)) =
    concat (map pixel_bytes (map2 f ps qs))"
  using assms
proof (induction ps qs rule: list_induct2)
  case (Cons p ps q qs)
  then show ?case by (cases p; cases q) (simp add: pixel_bytes_def Let_def)
qed simp

end
