(* ===== verification/Guac_Visible.thy ===== *)
theory Guac_Visible
  imports Complex_Main Guac_Layer
begin

text \<open>
  \<^verbatim>\<open>Guacamole.Display.VisibleLayer\<close>: the tree of the layers on the page with their positions,
  opacity and distortion, and \<^verbatim>\<open>Display.flatten\<close>, which draws that tree.

  The children of a layer are listed in the order of their elements in the page, which is the
  order in which they were attached. Attaching a layer below itself makes the browser throw;
  the code has changed the tree by then, while the page keeps its old shape, and the pages that
  follow such an exception are not represented. A depth that is \<^verbatim>\<open>NaN\<close> is sorted as zero.
\<close>

subsection \<open>The tree\<close>

record visible_layer =
  opacity :: jsnum
  pos_x :: jsnum
  pos_y :: jsnum
  pos_z :: jsnum
  layer_matrix :: "js_float list"
  parent :: "layer option"
  children :: "layer list"

type_synonym tree = "layer \<Rightarrow> visible_layer"

definition new_visible_layer :: visible_layer where
  "new_visible_layer = \<lparr>opacity = Some 0xFF, pos_x = Some 0, pos_y = Some 0, pos_z = Some 0,
     layer_matrix = map Some [js ''1'', js ''0'', js ''0'', js ''1'', js ''0'', js ''0''], parent = None, children = []\<rparr>"

definition translate :: "layer \<Rightarrow> jsnum \<Rightarrow> jsnum \<Rightarrow> tree \<Rightarrow> tree" where
  "translate l nx ny t = t(l := (t l)\<lparr>pos_x := nx, pos_y := ny\<rparr>)"

definition remove_child :: "layer \<Rightarrow> layer \<Rightarrow> tree \<Rightarrow> tree" where
  "remove_child p l t = t(p := (t p)\<lparr>children := removeAll l (children (t p))\<rparr>)"

definition detach :: "layer \<Rightarrow> tree \<Rightarrow> tree" where
  "detach l t = (case parent (t l) of None \<Rightarrow> t | Some p \<Rightarrow> remove_child p l t)"

definition attach :: "layer \<Rightarrow> layer \<Rightarrow> tree \<Rightarrow> tree" where
  "attach l p t =
     (let t1 = t(l := (t l)\<lparr>parent := Some p\<rparr>)
      in t1(p := (t1 p)\<lparr>children := children (t1 p) @ [l]\<rparr>))"

text \<open>Whether \<open>l\<close> is \<open>p\<close> or one of the layers above it, within \<open>n\<close> steps.\<close>

fun is_above :: "nat \<Rightarrow> tree \<Rightarrow> layer \<Rightarrow> layer \<Rightarrow> bool" where
  "is_above 0 t l p = (l = p)"
| "is_above (Suc n) t l p = (l = p \<or> (case parent (t p) of None \<Rightarrow> False | Some q \<Rightarrow> is_above n t l q))"

text \<open>
  \<open>depth\<close> bounds the height of the tree; the result says whether the browser refused to attach
  the element.
\<close>

definition move :: "nat \<Rightarrow> layer \<Rightarrow> layer \<Rightarrow> jsnum \<Rightarrow> jsnum \<Rightarrow> jsnum \<Rightarrow> tree \<Rightarrow> tree \<times> bool" where
  "move depth l p nx ny nz t =
     (let t1 = (if parent (t l) \<noteq> Some p then attach l p (detach l t) else t)
      in if parent (t l) \<noteq> Some p \<and> is_above depth t l p then (t1, True)
         else (let t2 = translate l nx ny t1 in (t2(l := (t2 l)\<lparr>pos_z := nz\<rparr>), False)))"

definition shade :: "layer \<Rightarrow> jsnum \<Rightarrow> tree \<Rightarrow> tree" where
  "shade l a t = t(l := (t l)\<lparr>opacity := a\<rparr>)"

definition dispose :: "layer \<Rightarrow> tree \<Rightarrow> tree" where
  "dispose l t =
     (case parent (t l) of
        None \<Rightarrow> t
      | Some p \<Rightarrow> (let t1 = remove_child p l t in t1(l := (t1 l)\<lparr>parent := None\<rparr>)))"

definition distort :: "layer \<Rightarrow> js_float list \<Rightarrow> tree \<Rightarrow> tree" where
  "distort l m t = t(l := (t l)\<lparr>layer_matrix := m\<rparr>)"

text \<open>
  \<^verbatim>\<open>Display.createLayer\<close> makes a layer below the default layer; in the tree, a layer that has not
  been created yet is in the state of a new one.
\<close>

definition create_visible :: "nat \<Rightarrow> layer \<Rightarrow> tree \<Rightarrow> tree" where
  "create_visible depth l t =
     fst (move depth l Default_layer (Some 0) (Some 0) (Some 0) t)"

subsection \<open>Flattening\<close>

definition get_children :: "tree \<Rightarrow> layer \<Rightarrow> layer list" where
  "get_children t l = sort_key (\<lambda>c. or_zero (pos_z (t c))) (children (t l))"

text \<open>
  What \<^verbatim>\<open>draw_layer\<close> draws: the layers with their position and opacity, in order. \<open>dims\<close> gives the
  size of a layer; \<open>n\<close> bounds the depth, and \<open>None\<close> is a recursion deeper than that.
\<close>

fun draw_layer ::
  "nat \<Rightarrow> (layer \<Rightarrow> int \<times> int) \<Rightarrow> tree \<Rightarrow> rat \<Rightarrow> layer \<Rightarrow> int \<Rightarrow> int \<Rightarrow> (layer \<times> int \<times> int \<times> rat) list option" where
  "draw_layer 0 dims t ga l dx dy = None"
| "draw_layer (Suc n) dims t ga l dx dy =
     (if fst (dims l) > 0 \<and> snd (dims l) > 0 then
        (let ga1 = ga * (of_int (or_zero (opacity (t l))) / 255);
             drawn = map (\<lambda>c. draw_layer n dims t ga1 c (dx + or_zero (pos_x (t c))) (dy + or_zero (pos_y (t c))))
                       (get_children t l)
         in if None \<in> set drawn then None else Some ((l, dx, dy, ga1) # concat (map the drawn)))
      else Some [])"

definition flatten :: "nat \<Rightarrow> (layer \<Rightarrow> int \<times> int) \<Rightarrow> tree \<Rightarrow> (layer \<times> int \<times> int \<times> rat) list option" where
  "flatten n dims t = draw_layer n dims t 1 Default_layer 0 0"

subsection \<open>Parents and children agree\<close>

definition tree_ok :: "tree \<Rightarrow> bool" where
  "tree_ok t \<longleftrightarrow> (\<forall>p l. l \<in> set (children (t p)) \<longleftrightarrow> parent (t l) = Some p) \<and> (\<forall>p. distinct (children (t p)))"

lemma tree_ok_new: "tree_ok (\<lambda>l. new_visible_layer)"
  by (simp add: tree_ok_def new_visible_layer_def)

lemma tree_ok_cong:
  "(\<And>l. parent (t' l) = parent (t l)) \<Longrightarrow> (\<And>l. children (t' l) = children (t l)) \<Longrightarrow> tree_ok t' \<longleftrightarrow> tree_ok t"
  by (simp add: tree_ok_def)

lemma detach_children:
  "tree_ok t \<Longrightarrow> set (children (detach l t p)) = set (children (t p)) - {l} \<and> distinct (children (detach l t p))"
  by (auto simp: detach_def remove_child_def tree_ok_def distinct_removeAll split: option.splits)

lemma detach_parent [simp]: "parent (detach l t c) = parent (t c)"
  by (simp add: detach_def remove_child_def split: option.splits)

lemma attach_fields [simp]:
  "parent (attach l p t c) = (if c = l then Some p else parent (t c))"
  "children (attach l p t q) = (if q = p then children (t p) @ [l] else children (t q))"
  by (simp_all add: attach_def Let_def)

lemma tree_ok_attach:
  assumes "tree_ok t"
  shows "tree_ok (attach l p (detach l t))"
proof -
  let ?t = "attach l p (detach l t)"
  have set: "set (children (detach l t q)) = set (children (t q)) - {l}"
    and dist: "distinct (children (detach l t q))" for q
    using detach_children [OF assms, of l q] by blast+
  have iff: "c \<in> set (children (t q)) \<longleftrightarrow> parent (t c) = Some q" for c q
    using assms by (simp add: tree_ok_def)
  have "c \<in> set (children (?t q)) \<longleftrightarrow> parent (?t c) = Some q" for c q
    by (cases "q = p"; cases "c = l") (simp_all add: set iff)
  moreover have "distinct (children (?t q))" for q
    by (cases "q = p") (simp_all add: set dist)
  ultimately show ?thesis unfolding tree_ok_def by blast
qed

lemma move_parent: "parent (fst (move depth l p nx ny nz t) c) = (if c = l then Some p else parent (t c))"
  by (simp add: move_def translate_def Let_def)

lemma tree_ok_move: "tree_ok t \<Longrightarrow> tree_ok (fst (move depth l p nx ny nz t))"
proof -
  assume ok: "tree_ok t"
  let ?t = "if parent (t l) \<noteq> Some p then attach l p (detach l t) else t"
  have "tree_ok ?t" using ok by (simp add: tree_ok_attach)
  moreover have "parent (fst (move depth l p nx ny nz t) c) = parent (?t c)"
    "children (fst (move depth l p nx ny nz t) c) = children (?t c)" for c
    by (simp_all add: move_def translate_def Let_def)
  ultimately show ?thesis using tree_ok_cong [of "fst (move depth l p nx ny nz t)" ?t] by blast
qed

lemma tree_ok_dispose: "tree_ok t \<Longrightarrow> tree_ok (dispose l t)"
  by (auto simp: tree_ok_def dispose_def remove_child_def Let_def distinct_removeAll split: option.splits)

lemma tree_ok_attributes:
  "tree_ok (translate l nx ny t) = tree_ok t" "tree_ok (shade l a t) = tree_ok t" "tree_ok (distort l m t) = tree_ok t"
  by (rule tree_ok_cong; simp add: translate_def shade_def distort_def)+

text \<open>The states a tree of layers can reach, exceptions included.\<close>

inductive tree_step :: "tree \<Rightarrow> tree \<Rightarrow> bool" where
  step_create: "tree_step t (create_visible depth l t)"
| step_move: "tree_step t (fst (move depth l p nx ny nz t))"
| step_translate: "tree_step t (translate l nx ny t)"
| step_shade: "tree_step t (shade l a t)"
| step_dispose: "tree_step t (dispose l t)"
| step_distort: "tree_step t (distort l m t)"

inductive tree_reachable :: "tree \<Rightarrow> bool" where
  tree_new: "tree_reachable (\<lambda>l. new_visible_layer)"
| tree_next: "tree_reachable t \<Longrightarrow> tree_step t t' \<Longrightarrow> tree_reachable t'"

lemma tree_step_ok: "tree_step t t' \<Longrightarrow> tree_ok t \<Longrightarrow> tree_ok t'"
  by (induction rule: tree_step.induct)
    (simp_all add: create_visible_def tree_ok_move tree_ok_dispose tree_ok_attributes)

lemma tree_reachable_ok: "tree_reachable t \<Longrightarrow> tree_ok t"
  by (induction rule: tree_reachable.induct) (auto simp: tree_ok_new intro: tree_step_ok)

subsection \<open>What flattening draws\<close>

text \<open>\<open>climb k t d\<close> is the layer \<open>k\<close> levels above \<open>d\<close>.\<close>

fun climb :: "nat \<Rightarrow> tree \<Rightarrow> layer \<Rightarrow> layer option" where
  "climb 0 t d = Some d"
| "climb (Suc k) t d = (case parent (t d) of None \<Rightarrow> None | Some p \<Rightarrow> climb k t p)"

lemma climb_add: "climb j t d = Some l \<Longrightarrow> climb (j + k) t d = climb k t l"
  by (induction j t d rule: climb.induct) (auto split: option.splits)

lemma climb_child: "tree_ok t \<Longrightarrow> c \<in> set (children (t l)) \<Longrightarrow> climb (Suc k) t c = climb k t l"
  by (simp add: tree_ok_def)

lemma climb_root_unique:
  "parent (t r) = None \<Longrightarrow> climb j t d = Some r \<Longrightarrow> climb k t d = Some r \<Longrightarrow> j = k"
proof (induction j t d arbitrary: k rule: climb.induct)
  case (1 t d)
  then show ?case by (cases k) auto
next
  case (2 j t d)
  then show ?case by (cases k) (auto split: option.splits)
qed

lemma get_children_set: "set (get_children t l) = set (children (t l))"
  "distinct (children (t l)) \<Longrightarrow> distinct (get_children t l)"
  by (simp_all add: get_children_def)

abbreviation draw_child ::
  "nat \<Rightarrow> (layer \<Rightarrow> int \<times> int) \<Rightarrow> tree \<Rightarrow> rat \<Rightarrow> int \<Rightarrow> int \<Rightarrow> layer \<Rightarrow> (layer \<times> int \<times> int \<times> rat) list option" where
  "draw_child n dims t ga dx dy c \<equiv>
     draw_layer n dims t ga c (dx + or_zero (pos_x (t c))) (dy + or_zero (pos_y (t c)))"

lemma draw_layer_Some:
  assumes "draw_layer (Suc n) dims t ga l dx dy = Some ds" and "ds \<noteq> []"
  shows "\<exists>ga1. ds = (l, dx, dy, ga1) # concat (map (\<lambda>c. the (draw_child n dims t ga1 dx dy c)) (get_children t l))
    \<and> (\<forall>c \<in> set (children (t l)). draw_child n dims t ga1 dx dy c \<noteq> None)"
  using assms
  by (intro exI [of _ "ga * (of_int (or_zero (opacity (t l))) / 255)"])
    (force simp: Let_def get_children_set comp_def split: if_splits)

lemma drawn_below:
  assumes "tree_ok t" and "draw_layer n dims t ga l dx dy = Some ds" and "d \<in> fst ` set ds"
  shows "\<exists>k. climb k t d = Some l"
  using assms(2,3)
proof (induction n arbitrary: ga l dx dy ds)
  case (Suc n)
  from Suc.prems(2) have "ds \<noteq> []" by auto
  with draw_layer_Some [OF Suc.prems(1)] obtain ga1 where
    ds: "ds = (l, dx, dy, ga1) # concat (map (\<lambda>c. the (draw_child n dims t ga1 dx dy c)) (get_children t l))"
    and some: "\<forall>c \<in> set (children (t l)). draw_child n dims t ga1 dx dy c \<noteq> None" by blast
  show ?case
  proof (cases "d = l")
    case True
    then show ?thesis by (intro exI [of _ 0]) simp
  next
    case False
    with Suc.prems(2) ds obtain c where c: "c \<in> set (children (t l))"
      and d: "d \<in> fst ` set (the (draw_child n dims t ga1 dx dy c))"
      by (auto simp: get_children_set)
    from some c obtain cs where "draw_child n dims t ga1 dx dy c = Some cs" by blast
    with Suc.IH [OF this] d obtain k where "climb k t d = Some c" by auto
    then have "climb (k + 1) t d = Some l" using climb_add [of k t d c 1] climb_child [OF assms(1) c, of 0] by simp
    then show ?thesis by blast
  qed
qed simp

lemma siblings_apart:
  assumes "tree_ok t" and "parent (t r) = None" and "climb m t l = Some r"
    and "c1 \<in> set (children (t l))" and "c2 \<in> set (children (t l))"
    and "climb k1 t d = Some c1" and "climb k2 t d = Some c2"
  shows "c1 = c2"
proof -
  have "climb (k1 + Suc m) t d = Some r" "climb (k2 + Suc m) t d = Some r"
    using assms climb_add climb_child by metis+
  then have "k1 = k2" using climb_root_unique [of t r "k1 + Suc m" d "k2 + Suc m"] assms(2) by simp
  with assms(6,7) show ?thesis by simp
qed

lemma not_below_child:
  assumes "tree_ok t" and "parent (t r) = None" and "climb m t l = Some r" and "c \<in> set (children (t l))"
  shows "climb k t l \<noteq> Some c"
proof
  assume "climb k t l = Some c"
  then have "climb (k + Suc m) t l = Some r" using assms climb_add climb_child by metis
  with climb_root_unique [of t r m l "k + Suc m"] assms(2,3) show False by simp
qed

lemma distinct_concat_mapI:
  assumes "distinct xs" and "\<And>a. a \<in> set xs \<Longrightarrow> distinct (f a)"
    and "\<And>a b. a \<in> set xs \<Longrightarrow> b \<in> set xs \<Longrightarrow> a \<noteq> b \<Longrightarrow> set (f a) \<inter> set (f b) = {}"
  shows "distinct (concat (map f xs))"
  using assms by (induction xs) auto

lemma drawn_distinct:
  assumes "tree_ok t" and "parent (t r) = None" and "draw_layer n dims t ga l dx dy = Some ds"
    and "climb m t l = Some r"
  shows "distinct (map fst ds)"
  using assms(3,4)
proof (induction n arbitrary: ga l dx dy ds m)
  case (Suc n)
  show ?case
  proof (cases "ds = []")
    case False
    with draw_layer_Some [OF Suc.prems(1)] obtain ga1 where
      ds: "ds = (l, dx, dy, ga1) # concat (map (\<lambda>c. the (draw_child n dims t ga1 dx dy c)) (get_children t l))"
      and some: "\<forall>c \<in> set (children (t l)). draw_child n dims t ga1 dx dy c \<noteq> None" by blast
    let ?f = "\<lambda>c. map fst (the (draw_child n dims t ga1 dx dy c))"
    have below: "\<exists>k. climb k t d = Some c" if "c \<in> set (children (t l))" "d \<in> set (?f c)" for c d
      using that some drawn_below [OF assms(1), of n dims ga1 c] by fastforce
    have "distinct (concat (map ?f (get_children t l)))"
    proof (rule distinct_concat_mapI)
      show "distinct (get_children t l)" using assms(1) by (simp add: get_children_set tree_ok_def)
    next
      fix c assume c: "c \<in> set (get_children t l)"
      then have "climb (Suc m) t c = Some r" using climb_child [OF assms(1), of c l m] Suc.prems(2) by (simp add: get_children_set)
      with Suc.IH some c show "distinct (?f c)" by (fastforce simp: get_children_set)
    next
      fix a b assume ab: "a \<in> set (get_children t l)" "b \<in> set (get_children t l)" "a \<noteq> b"
      show "set (?f a) \<inter> set (?f b) = {}"
      proof (rule equals0I)
        fix d assume "d \<in> set (?f a) \<inter> set (?f b)"
        with ab below obtain k1 k2 where "climb k1 t d = Some a" "climb k2 t d = Some b"
          unfolding get_children_set by (meson IntD1 IntD2)
        with ab siblings_apart [OF assms(1,2) Suc.prems(2)] show False by (metis get_children_set(1))
      qed
    qed
    moreover have "l \<notin> set (?f c)" if "c \<in> set (children (t l))" for c
      using below [OF that] not_below_child [OF assms(1,2) Suc.prems(2) that] by blast
    then have "l \<notin> set (concat (map ?f (get_children t l)))" by (simp add: get_children_set)
    ultimately show ?thesis using ds by (simp add: map_concat comp_def)
  qed simp
qed simp

lemma draw_layer_returns:
  assumes "tree_ok t" and "\<forall>d. climb n t d \<noteq> Some l"
  shows "\<exists>ds. draw_layer n dims t ga l dx dy = Some ds"
  using assms(2)
proof (induction n arbitrary: ga l dx dy)
  case 0
  then have "climb 0 t l \<noteq> Some l" by blast
  then show ?case by simp
next
  case (Suc n)
  have "draw_child n dims t g dx dy c \<noteq> None" if c: "c \<in> set (children (t l))" for c g
  proof -
    have "climb n t d \<noteq> Some c" for d
      using Suc.prems climb_add [of n t d c 1] climb_child [OF assms(1) c, of 0] by auto
    with Suc.IH [of c g] show ?thesis by auto
  qed
  then have "None \<notin> set (map (draw_child n dims t g dx dy) (get_children t l))" for g
    by (auto simp: image_iff get_children_set) (metis option.distinct(1))
  from this [of "ga * (of_int (or_zero (opacity (t l))) / 255)"] show ?case by (simp add: Let_def del: set_map)
qed

text \<open>Whether every layer of a drawing comes after its parent, when \<open>S\<close> was drawn before.\<close>

fun after_parents :: "tree \<Rightarrow> layer set \<Rightarrow> (layer \<times> int \<times> int \<times> rat) list \<Rightarrow> bool" where
  "after_parents t S [] = True"
| "after_parents t S (d # ds) =
     ((case parent (t (fst d)) of None \<Rightarrow> False | Some p \<Rightarrow> p \<in> S) \<and> after_parents t (insert (fst d) S) ds)"

lemma after_parents_mono: "after_parents t S ds \<Longrightarrow> S \<subseteq> S' \<Longrightarrow> after_parents t S' ds"
proof (induction ds arbitrary: S S')
  case (Cons d ds)
  have "insert (fst d) S \<subseteq> insert (fst d) S'" using Cons.prems(2) by (rule insert_mono)
  moreover have "after_parents t (insert (fst d) S) ds" using Cons.prems(1) by simp
  ultimately have "after_parents t (insert (fst d) S') ds" using Cons.IH by blast
  with Cons.prems show ?case by (cases "parent (t (fst d))") (simp_all add: subsetD)
qed simp

lemma after_parents_append:
  "after_parents t S xs \<Longrightarrow> after_parents t S ys \<Longrightarrow> after_parents t S (xs @ ys)"
proof (induction xs arbitrary: S)
  case (Cons d xs)
  have "after_parents t (insert (fst d) S) ys" using Cons.prems(2) by (rule after_parents_mono) auto
  with Cons show ?case by auto
qed simp

lemma after_parents_concat:
  "(\<And>a. a \<in> set xs \<Longrightarrow> after_parents t S (f a)) \<Longrightarrow> after_parents t S (concat (map f xs))"
  by (induction xs) (simp_all add: after_parents_append)

lemma drawn_after_parents:
  assumes "tree_ok t" and "draw_layer n dims t ga l dx dy = Some ds" and "parent (t l) = Some p" and "p \<in> S"
  shows "after_parents t S ds"
  using assms(2-4)
proof (induction n arbitrary: ga l dx dy ds p S)
  case (Suc n)
  show ?case
  proof (cases "ds = []")
    case False
    with draw_layer_Some [OF Suc.prems(1)] obtain ga1 where
      ds: "ds = (l, dx, dy, ga1) # concat (map (\<lambda>c. the (draw_child n dims t ga1 dx dy c)) (get_children t l))"
      and some: "\<forall>c \<in> set (children (t l)). draw_child n dims t ga1 dx dy c \<noteq> None" by blast
    have "after_parents t (insert l S) (the (draw_child n dims t ga1 dx dy c))" if "c \<in> set (children (t l))" for c
      using that some assms(1) Suc.IH [of ga1 c _ _ _ l "insert l S"] by (fastforce simp: tree_ok_def)
    then have "after_parents t (insert l S) (tl ds)"
      unfolding ds list.sel by (intro after_parents_concat) (simp add: get_children_set)
    with Suc.prems(2,3) ds show ?thesis by simp
  qed simp
qed simp

text \<open>
  (C24) Flattening draws the tree of layers completely and in order: in every tree the operations
  can build in which the default layer is the root, if no layer is \<open>n\<close> levels below the root then
  a recursion of depth \<open>n\<close> returns, no layer is drawn twice, and each layer is drawn after its
  parent, the default layer first.
\<close>

theorem flatten_draws_tree_once:
  assumes "tree_reachable t" and "parent (t Default_layer) = None" and "\<forall>d. climb n t d \<noteq> Some Default_layer"
  shows "\<exists>ds. flatten n dims t = Some ds \<and> distinct (map fst ds)
    \<and> (ds = [] \<or> fst (hd ds) = Default_layer \<and> after_parents t {Default_layer} (tl ds))"
proof -
  have ok: "tree_ok t" using assms(1) by (rule tree_reachable_ok)
  obtain ds where ds: "draw_layer n dims t 1 Default_layer 0 0 = Some ds"
    using draw_layer_returns [OF ok assms(3)] by blast
  have "distinct (map fst ds)" using drawn_distinct [OF ok assms(2) ds, of 0] by simp
  moreover have "fst (hd ds) = Default_layer \<and> after_parents t {Default_layer} (tl ds)" if ne: "ds \<noteq> []"
  proof -
    obtain k where k: "n = Suc k" using assms(3) by (cases n) auto
    with draw_layer_Some [of k dims t 1 Default_layer 0 0] ds ne obtain ga1 where
      e: "ds = (Default_layer, 0, 0, ga1) # concat (map (\<lambda>c. the (draw_child k dims t ga1 0 0 c)) (get_children t Default_layer))"
      and some: "\<forall>c \<in> set (children (t Default_layer)). draw_child k dims t ga1 0 0 c \<noteq> None" by blast
    have "after_parents t {Default_layer} (the (draw_child k dims t ga1 0 0 c))"
      if "c \<in> set (children (t Default_layer))" for c
      using that some ok drawn_after_parents [OF ok, of k dims ga1 c _ _ _ Default_layer "{Default_layer}"]
      by (fastforce simp: tree_ok_def)
    then have "after_parents t {Default_layer} (tl ds)"
      unfolding e list.sel by (intro after_parents_concat) (simp add: get_children_set)
    with e show ?thesis by simp
  qed
  ultimately show ?thesis using ds by (auto simp: flatten_def)
qed

definition example_tree :: tree where
  "example_tree = fst (move 3 (Visible_layer 1) (Visible_layer 0) (Some 4) (Some 2) (Some 1)
     (create_visible 3 (Visible_layer 1) (create_visible 3 (Visible_layer 0) (\<lambda>l. new_visible_layer))))"

lemma example_tree_reachable: "tree_reachable example_tree"
  unfolding example_tree_def by (intro tree_next [OF _ step_move] tree_next [OF _ step_create] tree_new)

lemma example_tree_parent:
  "parent (example_tree l) =
     (if l = Visible_layer 0 then Some Default_layer else if l = Visible_layer 1 then Some (Visible_layer 0) else None)"
  by (simp add: example_tree_def create_visible_def move_parent new_visible_layer_def)

lemma example_tree_depth: "climb 3 example_tree d \<noteq> Some Default_layer"
  by (simp add: numeral_3_eq_3 example_tree_parent split: option.splits)

theorem flatten_draws_tree_once_witness:
  "\<exists>ds. flatten 3 (\<lambda>l. (100, 100)) example_tree = Some ds \<and> distinct (map fst ds)
    \<and> (ds = [] \<or> fst (hd ds) = Default_layer \<and> after_parents example_tree {Default_layer} (tl ds))"
  by (rule flatten_draws_tree_once)
    (simp_all add: example_tree_reachable example_tree_parent example_tree_depth)

end
