(* ===== verification/Guac_Display.thy ===== *)
theory Guac_Display
  imports Guac_Visible
begin

text \<open>
  \<^verbatim>\<open>Guacamole.Display\<close>: drawing operations are tasks, tasks are collected into frames, and frames
  are drawn in order once none of their tasks waits for an image.

  A task is an object shared between the list it stands in and the callback that unblocks it;
  it is therefore numbered, and the callback looks its number up. The layers are the store
  \<open>store\<close> of layer states, on which an executed task makes its call. The calls back into the
  application (\<^verbatim>\<open>onresize\<close>, \<^verbatim>\<open>oncursor\<close>, \<^verbatim>\<open>onstatistics\<close> and the callbacks of frames) are recorded in
  \<open>shown\<close>; they are taken not to call the display themselves. The sizes and positions of the
  elements of the page, which only mirror the numbers, are not represented.
\<close>

subsection \<open>State\<close>

text \<open>
  What a task does: a call on a layer, drawing an image that was decoded beforehand, drawing an
  image if it loaded (and giving back the URL of its blob), or starting a video. The dimensions
  of the image of a task are \<open>None\<close> until they are known.
\<close>

datatype action =
  Layer_op display_op
| Draw_decoded layer jsnum jsnum
| Draw_loaded layer jsnum jsnum "nat option"
| Play_video nat

record task =
  task_id :: nat
  blocked :: bool
  action :: "action option"
  loaded :: "(int \<times> int) option"

datatype callback = Sync_complete jsnum | Callback nat

record frame =
  callback :: "callback option"
  frame_tasks :: "task list"
  local_timestamp :: int
  remote_timestamp :: int
  logical_frames :: int

record statistic =
  stat_local :: int
  stat_remote :: int
  stat_time :: int
  stat_frames :: int

record statistics_report =
  processing_lag :: int
  desktop_fps :: "rat option"
  client_fps :: "rat option"
  server_fps :: "rat option"
  drop_rate :: "rat option"

datatype shown_event =
  Ran action
| Called callback
| Cursor_changed jsnum jsnum
| Display_resized jsnum jsnum
| Url_freed nat
| Stats statistics_report

record display =
  display_width :: jsnum
  display_height :: jsnum
  display_scale :: rat
  cursor_hotspot :: "jsnum \<times> jsnum"
  cursor_position :: "jsnum \<times> jsnum"
  cursor_layer_position :: "jsnum \<times> jsnum"
  cursor_shown :: bool
  cursor_layer :: layer_state
  store :: "layer \<Rightarrow> layer_state"
  tree :: tree
  layer_count :: nat
  statistic_window :: int
  tasks :: "task list"
  frames :: "frame list"
  in_progress_frame :: bool
  stats :: "statistic list"
  next_task :: nat
  shown :: "shown_event list"

text \<open>What the code asks of the browser.\<close>

record browser =
  request_animation_frame :: bool
  create_image_bitmap :: bool

text \<open>
  Layers other than the default layer come into being with \<^verbatim>\<open>createLayer\<close> and \<^verbatim>\<open>createBuffer\<close>; their
  entries in \<open>store\<close> and \<open>tree\<close> mean nothing before.
\<close>

definition new_display :: display where
  "new_display =
     \<lparr>display_width = Some 0, display_height = Some 0, display_scale = 1,
      cursor_hotspot = (Some 0, Some 0), cursor_position = (Some 0, Some 0),
      cursor_layer_position = (Some 0, Some 0), cursor_shown = True,
      cursor_layer = fst (set_channel_mask (Some 0xC) (new_layer 0 0)), store = (\<lambda>l. new_layer 0 0),
      tree = (\<lambda>l. new_visible_layer), layer_count = 1, statistic_window = 0, tasks = [], frames = [],
      in_progress_frame = False, stats = [], next_task = 0, shown = []\<rparr>"

definition show_event :: "shown_event \<Rightarrow> display \<Rightarrow> display" where
  "show_event ev d = d\<lparr>shown := shown d @ [ev]\<rparr>"

subsection \<open>Layers\<close>

definition create_layer :: "nat \<Rightarrow> display \<Rightarrow> display" where
  "create_layer n d =
     d\<lparr>store := (store d)(Visible_layer n := new_layer (or_zero (display_width d)) (or_zero (display_height d))),
       tree := create_visible (layer_count d) (Visible_layer n) (tree d), layer_count := layer_count d + 1\<rparr>"

definition create_buffer :: "nat \<Rightarrow> display \<Rightarrow> display" where
  "create_buffer n d = d\<lparr>store := (store d)(Buffer_layer n := new_buffer)\<rparr>"

definition on_layer :: "layer \<Rightarrow> layer_call \<Rightarrow> display \<Rightarrow> display \<times> bool" where
  "on_layer l f d = (case f (store d l) of (s, threw) \<Rightarrow> (d\<lparr>store := (store d)(l := s)\<rparr>, threw))"

definition canvas_of :: "layer \<Rightarrow> display \<Rightarrow> int \<times> int" where
  "canvas_of l d = (canvas_width (store d l), canvas_height (store d l))"

subsection \<open>The cursor\<close>

definition num_sub :: "jsnum \<Rightarrow> jsnum \<Rightarrow> jsnum" where
  "num_sub a b = (case a of None \<Rightarrow> None | Some m \<Rightarrow> (case b of None \<Rightarrow> None | Some n \<Rightarrow> Some (m - n)))"

definition move_cursor :: "jsnum \<Rightarrow> jsnum \<Rightarrow> display \<Rightarrow> display" where
  "move_cursor cx cy d =
     d\<lparr>cursor_layer_position := (num_sub cx (fst (cursor_hotspot d)), num_sub cy (snd (cursor_hotspot d))),
       cursor_position := (cx, cy)\<rparr>"

definition show_cursor :: "bool \<Rightarrow> display \<Rightarrow> display" where
  "show_cursor b d = d\<lparr>cursor_shown := b\<rparr>"

definition do_set_cursor ::
  "jsnum \<Rightarrow> jsnum \<Rightarrow> layer \<Rightarrow> jsnum \<Rightarrow> jsnum \<Rightarrow> jsnum \<Rightarrow> jsnum \<Rightarrow> display \<Rightarrow> display \<times> bool" where
  "do_set_cursor hx hy l srcx srcy srcw srch d =
     (let d1 = d\<lparr>cursor_hotspot := (hx, hy)\<rparr>
      in case layer_resize srcw srch (cursor_layer d1) of
           (c1, True) \<Rightarrow> (d1\<lparr>cursor_layer := c1\<rparr>, True)
         | (c1, False) \<Rightarrow>
             (case layer_copy l (canvas_of l d1) srcx srcy srcw srch (Some 0) (Some 0) c1 of
                (c2, True) \<Rightarrow> (d1\<lparr>cursor_layer := c2\<rparr>, True)
              | (c2, False) \<Rightarrow>
                  (show_event (Cursor_changed hx hy)
                     (move_cursor (fst (cursor_position d1)) (snd (cursor_position d1)) (d1\<lparr>cursor_layer := c2\<rparr>)),
                   False)))"

definition do_resize :: "layer \<Rightarrow> jsnum \<Rightarrow> jsnum \<Rightarrow> display \<Rightarrow> display \<times> bool" where
  "do_resize l w h d =
     (case on_layer l (layer_resize w h) d of
        (d1, True) \<Rightarrow> (d1, True)
      | (d1, False) \<Rightarrow>
          (if l = Default_layer
           then show_event (Display_resized w h) (d1\<lparr>display_width := w, display_height := h\<rparr>)
           else d1, False))"

subsection \<open>What a task does\<close>

text \<open>
  The bodies of the tasks, in the order of the source; each makes its call and says whether it
  threw.
\<close>

definition display_transfer :: "layer \<Rightarrow> jsnum \<Rightarrow> jsnum \<Rightarrow> jsnum \<Rightarrow> jsnum \<Rightarrow> layer \<Rightarrow> jsnum \<Rightarrow> jsnum \<Rightarrow> jsnum \<Rightarrow> display \<Rightarrow> display \<times> bool" where
  [simp]: "display_transfer s sx sy sw sh l px py fi d =
     on_layer l (layer_transfer s (canvas_of s d) sx sy sw sh px py fi) d"

definition display_put :: "layer \<Rightarrow> jsnum \<Rightarrow> jsnum \<Rightarrow> jsnum \<Rightarrow> jsnum \<Rightarrow> layer \<Rightarrow> jsnum \<Rightarrow> jsnum \<Rightarrow> display \<Rightarrow> display \<times> bool" where
  [simp]: "display_put s sx sy sw sh l px py d =
     on_layer l (layer_put s (canvas_of s d) sx sy sw sh px py) d"

definition display_copy :: "layer \<Rightarrow> jsnum \<Rightarrow> jsnum \<Rightarrow> jsnum \<Rightarrow> jsnum \<Rightarrow> layer \<Rightarrow> jsnum \<Rightarrow> jsnum \<Rightarrow> display \<Rightarrow> display \<times> bool" where
  [simp]: "display_copy s sx sy sw sh l px py d =
     on_layer l (layer_copy s (canvas_of s d) sx sy sw sh px py) d"

definition display_move_to :: "layer \<Rightarrow> jsnum \<Rightarrow> jsnum \<Rightarrow> display \<Rightarrow> display \<times> bool" where
  [simp]: "display_move_to l px py d =
     on_layer l (move_to px py) d"

definition display_line_to :: "layer \<Rightarrow> jsnum \<Rightarrow> jsnum \<Rightarrow> display \<Rightarrow> display \<times> bool" where
  [simp]: "display_line_to l px py d =
     on_layer l (line_to px py) d"

definition display_arc :: "layer \<Rightarrow> jsnum \<Rightarrow> jsnum \<Rightarrow> jsnum \<Rightarrow> js_float \<Rightarrow> js_float \<Rightarrow> bool \<Rightarrow> display \<Rightarrow> display \<times> bool" where
  [simp]: "display_arc l px py r sa ea neg d =
     on_layer l (arc px py r sa ea neg) d"

definition display_curve_to :: "layer \<Rightarrow> jsnum \<Rightarrow> jsnum \<Rightarrow> jsnum \<Rightarrow> jsnum \<Rightarrow> jsnum \<Rightarrow> jsnum \<Rightarrow> display \<Rightarrow> display \<times> bool" where
  [simp]: "display_curve_to l ax ay bx by' px py d =
     on_layer l (curve_to ax ay bx by' px py) d"

definition display_close :: "layer \<Rightarrow> display \<Rightarrow> display \<times> bool" where
  [simp]: "display_close l d =
     on_layer l close_path d"

definition display_rect :: "layer \<Rightarrow> jsnum \<Rightarrow> jsnum \<Rightarrow> jsnum \<Rightarrow> jsnum \<Rightarrow> display \<Rightarrow> display \<times> bool" where
  [simp]: "display_rect l px py w h d =
     on_layer l (rect px py w h) d"

definition display_clip :: "layer \<Rightarrow> display \<Rightarrow> display \<times> bool" where
  [simp]: "display_clip l d =
     on_layer l clip d"

definition display_stroke_color :: "layer \<Rightarrow> js_opt \<Rightarrow> js_opt \<Rightarrow> jsnum \<Rightarrow> jsnum \<Rightarrow> jsnum \<Rightarrow> jsnum \<Rightarrow> jsnum \<Rightarrow> display \<Rightarrow> display \<times> bool" where
  [simp]: "display_stroke_color l cp jn w r g b a d =
     on_layer l (stroke_color cp jn w r g b a) d"

definition display_fill_color :: "layer \<Rightarrow> jsnum \<Rightarrow> jsnum \<Rightarrow> jsnum \<Rightarrow> jsnum \<Rightarrow> display \<Rightarrow> display \<times> bool" where
  [simp]: "display_fill_color l r g b a d =
     on_layer l (fill_color r g b a) d"

definition display_stroke_layer ::
  "layer \<Rightarrow> js_opt \<Rightarrow> js_opt \<Rightarrow> jsnum \<Rightarrow> layer option \<Rightarrow> display \<Rightarrow> display \<times> bool" where
  [simp]: "display_stroke_layer l cp jn w src d =
     on_layer l (stroke_layer cp jn w (map_option (\<lambda>s. (s, canvas_of s d)) src)) d"

definition display_fill_layer :: "layer \<Rightarrow> layer \<Rightarrow> display \<Rightarrow> display \<times> bool" where
  [simp]: "display_fill_layer l s d =
     on_layer l (fill_layer s (canvas_of s d)) d"

definition display_push :: "layer \<Rightarrow> display \<Rightarrow> display \<times> bool" where
  [simp]: "display_push l d =
     on_layer l push d"

definition display_pop :: "layer \<Rightarrow> display \<Rightarrow> display \<times> bool" where
  [simp]: "display_pop l d =
     on_layer l pop d"

definition display_reset :: "layer \<Rightarrow> display \<Rightarrow> display \<times> bool" where
  [simp]: "display_reset l d =
     on_layer l reset_layer d"

definition display_set_transform :: "layer \<Rightarrow> int \<Rightarrow> int \<Rightarrow> int \<Rightarrow> int \<Rightarrow> int \<Rightarrow> int \<Rightarrow> display \<Rightarrow> display \<times> bool" where
  [simp]: "display_set_transform l a b c e f g d =
     on_layer l (set_transform a b c e f g) d"

definition display_transform :: "layer \<Rightarrow> js_float \<Rightarrow> js_float \<Rightarrow> js_float \<Rightarrow> js_float \<Rightarrow> js_float \<Rightarrow> js_float \<Rightarrow> display \<Rightarrow> display \<times> bool" where
  [simp]: "display_transform l a b c e f g d =
     on_layer l (transform a b c e f g) d"

definition display_set_channel_mask :: "layer \<Rightarrow> jsnum \<Rightarrow> display \<Rightarrow> display \<times> bool" where
  [simp]: "display_set_channel_mask l m d =
     on_layer l (set_channel_mask m) d"

definition display_set_miter_limit :: "layer \<Rightarrow> js_float \<Rightarrow> display \<Rightarrow> display \<times> bool" where
  [simp]: "display_set_miter_limit l v d =
     on_layer l (set_miter_limit v) d"

definition display_dispose :: "layer \<Rightarrow> display \<Rightarrow> display \<times> bool" where
  [simp]: "display_dispose l d =
     (d\<lparr>tree := dispose l (tree d)\<rparr>, False)"

definition display_distort :: "layer \<Rightarrow> js_float \<Rightarrow> js_float \<Rightarrow> js_float \<Rightarrow> js_float \<Rightarrow> js_float \<Rightarrow> js_float \<Rightarrow> display \<Rightarrow> display \<times> bool" where
  [simp]: "display_distort l a b c e f g d =
     (d\<lparr>tree := distort l [a, b, c, e, f, g] (tree d)\<rparr>, False)"

definition display_move :: "layer \<Rightarrow> layer \<Rightarrow> jsnum \<Rightarrow> jsnum \<Rightarrow> jsnum \<Rightarrow> display \<Rightarrow> display \<times> bool" where
  [simp]: "display_move l p px py pz d =
     (case move (layer_count d) l p px py pz (tree d) of (t, threw) \<Rightarrow> (d\<lparr>tree := t\<rparr>, threw))"

definition display_shade :: "layer \<Rightarrow> jsnum \<Rightarrow> display \<Rightarrow> display \<times> bool" where
  [simp]: "display_shade l a d =
     (d\<lparr>tree := shade l a (tree d)\<rparr>, False)"

text \<open>
  The task of each operation; the operations that are no tasks do nothing here. The handler of
  \<^verbatim>\<open>lstroke\<close> passes its two layers as the first two of the five parameters of \<^verbatim>\<open>strokeLayer\<close>: its
  source layer stands for the cap, which is invalid and ignored, and the rest is missing.
\<close>

fun exec_op :: "display_op \<Rightarrow> display \<Rightarrow> display \<times> bool" where
  "exec_op (D_arc l px py r sa ea neg) d = display_arc l px py r sa ea neg d"
| "exec_op (D_set_channel_mask l m) d = display_set_channel_mask l m d"
| "exec_op (D_fill_color l r g b a) d = display_fill_color l r g b a d"
| "exec_op (D_clip l) d = display_clip l d"
| "exec_op (D_close l) d = display_close l d"
| "exec_op (D_copy s sx sy sw sh l px py) d = display_copy s sx sy sw sh l px py d"
| "exec_op (D_stroke_color l cp jn w r g b a) d = display_stroke_color l cp jn w r g b a d"
| "exec_op (D_set_cursor hx hy l sx sy sw sh) d = do_set_cursor hx hy l sx sy sw sh d"
| "exec_op (D_curve_to l ax ay bx by' px py) d = display_curve_to l ax ay bx by' px py d"
| "exec_op (D_dispose l) d = display_dispose l d"
| "exec_op (D_distort l a b c e f g) d = display_distort l a b c e f g d"
| "exec_op (D_set_transform l a b c e f g) d = display_set_transform l a b c e f g d"
| "exec_op (D_fill_layer l s) d = display_fill_layer l s d"
| "exec_op (D_line_to l px py) d = display_line_to l px py d"
| "exec_op (D_stroke_layer l s) d = display_stroke_layer l None None None None d"
| "exec_op (D_move l p px py pz) d = display_move l p px py pz d"
| "exec_op (D_pop l) d = display_pop l d"
| "exec_op (D_push l) d = display_push l d"
| "exec_op (D_rect l px py w h) d = display_rect l px py w h d"
| "exec_op (D_reset l) d = display_reset l d"
| "exec_op (D_set_miter_limit l v) d = display_set_miter_limit l v d"
| "exec_op (D_shade l a) d = display_shade l a d"
| "exec_op (D_resize l w h) d = do_resize l w h d"
| "exec_op (D_move_to l px py) d = display_move_to l px py d"
| "exec_op (D_put s sx sy sw sh l px py) d = display_put s sx sy sw sh l px py d"
| "exec_op (D_transfer s sx sy sw sh l px py fi) d = display_transfer s sx sy sw sh l px py fi d"
| "exec_op (D_transform l a b c e f g) d = display_transform l a b c e f g d"
| "exec_op (D_draw_stream l px py s m) d = (d, False)"
| "exec_op (D_draw l px py u) d = (d, False)"
| "exec_op (D_show_cursor b) d = (d, False)"
| "exec_op (D_move_cursor px py) d = (d, False)"
| "exec_op (D_flush ts lf) d = (d, False)"

fun perform :: "nat \<Rightarrow> (int \<times> int) option \<Rightarrow> action \<Rightarrow> display \<Rightarrow> display \<times> bool" where
  "perform n img (Layer_op op) d = exec_op op d"
| "perform n img (Draw_decoded l px py) d =
     (case img of None \<Rightarrow> (d, True) | Some (w, h) \<Rightarrow> on_layer l (draw_image px py n w h) d)"
| "perform n img (Draw_loaded l px py url) d =
     (case (case img of
              None \<Rightarrow> (d, False)
            | Some (w, h) \<Rightarrow> if w \<noteq> 0 \<and> h \<noteq> 0 then on_layer l (draw_image px py n w h) d else (d, False)) of
        (d1, True) \<Rightarrow> (d1, True)
      | (d1, False) \<Rightarrow> ((case url of None \<Rightarrow> d1 | Some u \<Rightarrow> show_event (Url_freed u) d1), False))"
| "perform n img (Play_video v) d = (d, False)"

definition execute :: "task \<Rightarrow> display \<Rightarrow> display \<times> bool" where
  "execute t d =
     (case action t of
        None \<Rightarrow> (d, False)
      | Some a \<Rightarrow> perform (task_id t) (loaded t) a (show_event (Ran a) d))"

subsection \<open>Frames\<close>

definition is_ready :: "frame \<Rightarrow> bool" where
  "is_ready f = list_all (\<lambda>t. \<not> blocked t) (frame_tasks f)"

fun run_tasks :: "task list \<Rightarrow> display \<Rightarrow> display \<times> bool" where
  "run_tasks [] d = (d, False)"
| "run_tasks (t # ts) d = (case execute t d of (d1, True) \<Rightarrow> (d1, True) | (d1, False) \<Rightarrow> run_tasks ts d1)"

definition frame_flush :: "frame \<Rightarrow> display \<Rightarrow> display \<times> bool" where
  "frame_flush f d =
     (case run_tasks (frame_tasks f) d of
        (d1, True) \<Rightarrow> (d1, True)
      | (d1, False) \<Rightarrow> ((case callback f of None \<Rightarrow> d1 | Some c \<Rightarrow> show_event (Called c) d1), False))"

text \<open>Statistics over the frames of the last \<open>statistic_window\<close> milliseconds.\<close>

definition first_within :: "int \<Rightarrow> int \<Rightarrow> statistic list \<Rightarrow> nat" where
  "first_within now window ss = length (takeWhile (\<lambda>s. \<not> now - stat_time s \<le> window) ss)"

definition report :: "int \<Rightarrow> int \<Rightarrow> statistic list \<Rightarrow> statistics_report" where
  "report now lt ss =
     (let stat_duration = of_int (stat_time (last ss) - stat_time (hd ss)) / 1000;
          remote_duration = of_int (stat_remote (last ss) - stat_remote (hd ss)) / 1000;
          local_frames = of_nat (length ss);
          remote_frames = sum_list (map stat_frames ss);
          drops = sum_list (map (\<lambda>s. max 0 (stat_frames s - 1)) ss)
      in \<lparr>processing_lag = now - lt,
          desktop_fps = (if remote_duration \<noteq> 0 \<and> remote_frames \<noteq> 0
                         then Some (of_int remote_frames / remote_duration) else None),
          client_fps = (if stat_duration \<noteq> 0 then Some (local_frames / stat_duration) else None),
          server_fps = (if remote_duration \<noteq> 0 then Some (local_frames / remote_duration) else None),
          drop_rate = (if remote_duration \<noteq> 0 then Some (of_int drops / remote_duration) else None)\<rparr>)"

definition notify_flushed :: "int \<Rightarrow> int \<Rightarrow> int \<Rightarrow> int \<Rightarrow> display \<Rightarrow> display" where
  "notify_flushed now lt rt lf d =
     (if statistic_window d = 0 then d
      else
        (let ss = drop (first_within now (statistic_window d) (stats d) - 1) (stats d)
                  @ [\<lparr>stat_local = lt, stat_remote = rt, stat_time = now, stat_frames = lf\<rparr>]
         in show_event (Stats (report now lt ss)) (d\<lparr>stats := ss\<rparr>)))"

subsection \<open>Flushing\<close>

text \<open>The frames drawn before one is not ready, and whether drawing threw.\<close>

fun render_ready :: "frame list \<Rightarrow> display \<Rightarrow> frame list \<times> display \<times> bool" where
  "render_ready [] d = ([], d, False)"
| "render_ready (f # fs) d =
     (if \<not> is_ready f then ([], d, False)
      else
        (case frame_flush f d of
           (d1, True) \<Rightarrow> ([], d1, True)
         | (d1, False) \<Rightarrow> (case render_ready fs d1 of (rs, d2, threw) \<Rightarrow> (f # rs, d2, threw))))"

definition sync_flush :: "int \<Rightarrow> display \<Rightarrow> display \<times> bool" where
  "sync_flush now d =
     (case render_ready (frames d) d of
        (rs, d1, True) \<Rightarrow> (d1, True)
      | (rs, d1, False) \<Rightarrow>
          (let d2 = d1\<lparr>frames := drop (length rs) (frames d1)\<rparr>
           in (if rs \<noteq> []
               then notify_flushed now (local_timestamp (last rs)) (remote_timestamp (last rs))
                      (sum_list (map logical_frames rs)) d2
               else d2, False)))"

definition continue_flush :: "int \<Rightarrow> display \<Rightarrow> display \<times> bool" where
  "continue_flush now d =
     (let d0 = d\<lparr>in_progress_frame := False\<rparr>
      in case frames d0 of
           [] \<Rightarrow> (d0, False)
         | f # fs \<Rightarrow>
             if is_ready f then
               (case frame_flush f (d0\<lparr>frames := fs\<rparr>) of
                  (d1, True) \<Rightarrow> (d1, True)
                | (d1, False) \<Rightarrow>
                    (let d2 = notify_flushed now (local_timestamp f) (remote_timestamp f) (logical_frames f) d1
                     in (if frames d2 \<noteq> [] then d2\<lparr>in_progress_frame := True\<rparr> else d2, False)))
             else (d0\<lparr>in_progress_frame := True\<rparr>, False))"

definition async_flush :: "display \<Rightarrow> display" where
  "async_flush d = (if \<not> in_progress_frame d then d\<lparr>in_progress_frame := True\<rparr> else d)"

definition flush_frames :: "browser \<Rightarrow> bool \<Rightarrow> int \<Rightarrow> display \<Rightarrow> display \<times> bool" where
  "flush_frames br focus now d =
     (if request_animation_frame br \<and> focus then (async_flush d, False) else sync_flush now d)"

text \<open>The browser draws its next animation frame, if one was requested; the window loses the focus.\<close>

definition on_animation_frame :: "int \<Rightarrow> display \<Rightarrow> display \<times> bool" where
  "on_animation_frame now d = (if in_progress_frame d then continue_flush now d else (d, False))"

definition on_blur :: "bool \<Rightarrow> int \<Rightarrow> display \<Rightarrow> display \<times> bool" where
  "on_blur focus now d =
     (if in_progress_frame d \<and> \<not> focus then sync_flush now (d\<lparr>in_progress_frame := False\<rparr>) else (d, False))"

definition flush :: "browser \<Rightarrow> bool \<Rightarrow> int \<Rightarrow> callback option \<Rightarrow> jsnum \<Rightarrow> jsnum \<Rightarrow> display \<Rightarrow> display \<times> bool" where
  "flush br focus now cb timestamp lf d =
     (let f = \<lparr>callback = cb, frame_tasks = tasks d, local_timestamp = now,
               remote_timestamp = (if timestamp = None \<or> timestamp = Some 0 then now else the timestamp),
               logical_frames = or_zero lf\<rparr>
      in flush_frames br focus now (d\<lparr>frames := frames d @ [f], tasks := []\<rparr>))"

definition cancel :: "display \<Rightarrow> display" where
  "cancel d = d\<lparr>frames := [], tasks := []\<rparr>"

subsection \<open>Tasks\<close>

definition schedule_task :: "action \<Rightarrow> bool \<Rightarrow> (int \<times> int) option \<Rightarrow> display \<Rightarrow> display" where
  "schedule_task a b img d =
     d\<lparr>tasks := tasks d @ [\<lparr>task_id = next_task d, blocked = b, action = Some a, loaded = img\<rparr>],
       next_task := next_task d + 1\<rparr>"

definition all_tasks :: "display \<Rightarrow> task list" where
  "all_tasks d = concat (map frame_tasks (frames d)) @ tasks d"

definition mark_loaded :: "nat \<Rightarrow> (int \<times> int) option \<Rightarrow> task \<Rightarrow> task" where
  "mark_loaded n img t = (if task_id t = n then t\<lparr>blocked := False, loaded := img\<rparr> else t)"

text \<open>
  The image of task \<open>n\<close> has loaded with the given dimensions or failed to load; a cancelled
  task is no longer blocked and in no list.
\<close>

definition unblock :: "browser \<Rightarrow> bool \<Rightarrow> int \<Rightarrow> nat \<Rightarrow> (int \<times> int) option \<Rightarrow> display \<Rightarrow> display \<times> bool" where
  "unblock br focus now n img d =
     (if list_ex (\<lambda>t. task_id t = n \<and> blocked t) (all_tasks d)
      then flush_frames br focus now
             (d\<lparr>frames := map (\<lambda>f. f\<lparr>frame_tasks := map (mark_loaded n img) (frame_tasks f)\<rparr>) (frames d),
                tasks := map (mark_loaded n img) (tasks d)\<rparr>)
      else (d, False))"

text \<open>The promise of \<^verbatim>\<open>createImageBitmap\<close> has been settled; nothing handles its rejection.\<close>

definition on_bitmap :: "browser \<Rightarrow> bool \<Rightarrow> int \<Rightarrow> nat \<Rightarrow> (int \<times> int) option \<Rightarrow> display \<Rightarrow> display \<times> bool" where
  "on_bitmap br focus now n result d =
     (case result of None \<Rightarrow> (d, False) | Some dims \<Rightarrow> unblock br focus now n (Some dims) d)"

definition display_draw_image :: "layer \<Rightarrow> jsnum \<Rightarrow> jsnum \<Rightarrow> int \<times> int \<Rightarrow> display \<Rightarrow> display" where
  "display_draw_image l px py dims d = schedule_task (Draw_decoded l px py) False (Some dims) d"

text \<open>\<open>url\<close> numbers the object URL the browser makes for the blob.\<close>

definition draw_blob :: "browser \<Rightarrow> nat \<Rightarrow> layer \<Rightarrow> jsnum \<Rightarrow> jsnum \<Rightarrow> display \<Rightarrow> display" where
  "draw_blob br url l px py d =
     (if create_image_bitmap br then schedule_task (Draw_decoded l px py) True None d
      else schedule_task (Draw_loaded l px py (Some url)) True None d)"

definition draw :: "layer \<Rightarrow> jsnum \<Rightarrow> jsnum \<Rightarrow> display \<Rightarrow> display" where
  "draw l px py d = schedule_task (Draw_loaded l px py None) True None d"

text \<open>The stream given to \<^verbatim>\<open>drawStream\<close> has ended.\<close>

definition on_stream_end :: "browser \<Rightarrow> nat \<Rightarrow> layer \<Rightarrow> jsnum \<Rightarrow> jsnum \<Rightarrow> display \<Rightarrow> display" where
  "on_stream_end br url l px py d =
     (if create_image_bitmap br then draw_blob br url l px py d else draw l px py d)"

definition play :: "nat \<Rightarrow> display \<Rightarrow> display" where
  "play v d = schedule_task (Play_video v) False None d"

fun display_call :: "browser \<Rightarrow> bool \<Rightarrow> int \<Rightarrow> display_op \<Rightarrow> display \<Rightarrow> display \<times> bool" where
  "display_call br focus now (D_show_cursor b) d = (show_cursor b d, False)"
| "display_call br focus now (D_move_cursor px py) d = (move_cursor px py d, False)"
| "display_call br focus now (D_flush ts lf) d = flush br focus now (Some (Sync_complete ts)) ts lf d"
| "display_call br focus now (D_draw l px py url) d = (draw l px py d, False)"
| "display_call br focus now (D_draw_stream l px py s m) d = (d, False)"
| "display_call br focus now op d = (schedule_task (Layer_op op) False None d, False)"

definition scale :: "rat \<Rightarrow> display \<Rightarrow> display" where
  "scale s d = d\<lparr>display_scale := s\<rparr>"

subsection \<open>Runs of the display\<close>

text \<open>
  What can happen to a display: calls of its operations, images that load or fail to, animation
  frames and the loss of focus, each with whether the window has the focus and the time.
\<close>

datatype display_event =
  E_call display_op
| E_flush callback jsnum jsnum
| E_stream_end nat layer jsnum jsnum
| E_draw_image layer jsnum jsnum "int \<times> int"
| E_draw_blob nat layer jsnum jsnum
| E_play nat
| E_create_layer nat
| E_create_buffer nat
| E_image nat "(int \<times> int) option"
| E_bitmap nat "(int \<times> int) option"
| E_animation
| E_blur

type_synonym timed_event = "bool \<times> int \<times> display_event"

fun display_step :: "browser \<Rightarrow> timed_event \<Rightarrow> display \<Rightarrow> display \<times> bool" where
  "display_step br (focus, now, E_call op) d = display_call br focus now op d"
| "display_step br (focus, now, E_flush cb ts lf) d = flush br focus now (Some cb) ts lf d"
| "display_step br (focus, now, E_stream_end u l px py) d = (on_stream_end br u l px py d, False)"
| "display_step br (focus, now, E_draw_image l px py dims) d = (display_draw_image l px py dims d, False)"
| "display_step br (focus, now, E_draw_blob u l px py) d = (draw_blob br u l px py d, False)"
| "display_step br (focus, now, E_play v) d = (play v d, False)"
| "display_step br (focus, now, E_create_layer n) d = (create_layer n d, False)"
| "display_step br (focus, now, E_create_buffer n) d = (create_buffer n d, False)"
| "display_step br (focus, now, E_image n img) d = unblock br focus now n img d"
| "display_step br (focus, now, E_bitmap n r) d = on_bitmap br focus now n r d"
| "display_step br (focus, now, E_animation) d = on_animation_frame now d"
| "display_step br (focus, now, E_blur) d = on_blur focus now d"

text \<open>A run in which nothing throws, and a run in which an exception only ends its event.\<close>

fun calm_run :: "browser \<Rightarrow> timed_event list \<Rightarrow> display \<Rightarrow> display option" where
  "calm_run br [] d = Some d"
| "calm_run br (e # es) d = (case display_step br e d of (d1, True) \<Rightarrow> None | (d1, False) \<Rightarrow> calm_run br es d1)"

fun display_run :: "browser \<Rightarrow> timed_event list \<Rightarrow> display \<Rightarrow> display" where
  "display_run br [] d = d"
| "display_run br (e # es) d = display_run br es (fst (display_step br e d))"

datatype item = Action action | Frame_done callback

fun item_of :: "shown_event \<Rightarrow> item list" where
  "item_of (Ran a) = [Action a]"
| "item_of (Called c) = [Frame_done c]"
| "item_of _ = []"

definition drawn :: "display \<Rightarrow> item list" where
  "drawn d = concat (map item_of (shown d))"

definition task_items :: "task list \<Rightarrow> item list" where
  "task_items ts = concat (map (\<lambda>t. case action t of None \<Rightarrow> [] | Some a \<Rightarrow> [Action a]) ts)"

definition frame_items :: "frame \<Rightarrow> item list" where
  "frame_items f = task_items (frame_tasks f) @ (case callback f of None \<Rightarrow> [] | Some c \<Rightarrow> [Frame_done c])"

definition pending :: "display \<Rightarrow> item list" where
  "pending d = concat (map frame_items (frames d)) @ task_items (tasks d)"

fun submitted_call :: "display_op \<Rightarrow> item list" where
  "submitted_call (D_show_cursor b) = []"
| "submitted_call (D_move_cursor px py) = []"
| "submitted_call (D_flush ts lf) = [Frame_done (Sync_complete ts)]"
| "submitted_call (D_draw l px py url) = [Action (Draw_loaded l px py None)]"
| "submitted_call (D_draw_stream l px py s m) = []"
| "submitted_call op = [Action (Layer_op op)]"

definition submitted_blob :: "browser \<Rightarrow> nat option \<Rightarrow> layer \<Rightarrow> jsnum \<Rightarrow> jsnum \<Rightarrow> item list" where
  "submitted_blob br url l px py =
     [Action (if create_image_bitmap br then Draw_decoded l px py else Draw_loaded l px py url)]"

fun submitted :: "browser \<Rightarrow> timed_event \<Rightarrow> item list" where
  "submitted br (focus, now, E_call op) = submitted_call op"
| "submitted br (focus, now, E_flush cb ts lf) = [Frame_done cb]"
| "submitted br (focus, now, E_stream_end u l px py) = submitted_blob br None l px py"
| "submitted br (focus, now, E_draw_image l px py dims) = [Action (Draw_decoded l px py)]"
| "submitted br (focus, now, E_draw_blob u l px py) = submitted_blob br (Some u) l px py"
| "submitted br (focus, now, E_play v) = [Action (Play_video v)]"
| "submitted br (focus, now, E_create_layer n) = []"
| "submitted br (focus, now, E_create_buffer n) = []"
| "submitted br (focus, now, E_image n img) = []"
| "submitted br (focus, now, E_bitmap n r) = []"
| "submitted br (focus, now, E_animation) = []"
| "submitted br (focus, now, E_blur) = []"

subsection \<open>Drawing leaves the queues alone\<close>

text \<open>The part of a display that its tasks do not touch.\<close>

definition queues :: "display \<Rightarrow> frame list \<times> task list \<times> bool \<times> nat" where
  "queues d = (frames d, tasks d, in_progress_frame d, next_task d)"

lemma drawn_show [simp]: "drawn (show_event ev d) = drawn d @ item_of ev"
  by (simp add: drawn_def show_event_def)

lemma queues_show [simp]: "queues (show_event ev d) = queues d"
  by (simp add: queues_def show_event_def)

lemma queues_updates [simp]:
  "queues (d\<lparr>store := st\<rparr>) = queues d" "queues (d\<lparr>tree := t\<rparr>) = queues d"
  "queues (d\<lparr>cursor_layer := c\<rparr>) = queues d" "queues (d\<lparr>cursor_hotspot := hs\<rparr>) = queues d"
  "queues (d\<lparr>cursor_hotspot := hs, cursor_layer := c\<rparr>) = queues d"
  "queues (d\<lparr>display_width := w, display_height := h\<rparr>) = queues d" "queues (d\<lparr>stats := ss\<rparr>) = queues d"
  by (simp_all add: queues_def)

lemma drawn_updates [simp]:
  "drawn (d\<lparr>store := st\<rparr>) = drawn d" "drawn (d\<lparr>tree := t\<rparr>) = drawn d"
  "drawn (d\<lparr>cursor_layer := c\<rparr>) = drawn d" "drawn (d\<lparr>cursor_hotspot := hs\<rparr>) = drawn d"
  "drawn (d\<lparr>cursor_hotspot := hs, cursor_layer := c\<rparr>) = drawn d"
  "drawn (d\<lparr>display_width := w, display_height := h\<rparr>) = drawn d" "drawn (d\<lparr>stats := ss\<rparr>) = drawn d"
  "drawn (d\<lparr>frames := fs\<rparr>) = drawn d" "drawn (d\<lparr>in_progress_frame := b\<rparr>) = drawn d"
  "drawn (d\<lparr>frames := fs, tasks := ts\<rparr>) = drawn d" "drawn (d\<lparr>tasks := ts, next_task := n\<rparr>) = drawn d"
  "drawn (d\<lparr>in_progress_frame := b, frames := fs\<rparr>) = drawn d"
  by (simp_all add: drawn_def)

lemma on_layer_frame [simp]:
  "queues (fst (on_layer l f d)) = queues d" "drawn (fst (on_layer l f d)) = drawn d"
  by (simp_all add: on_layer_def split: prod.splits)

lemma move_cursor_frame [simp]: "queues (move_cursor cx cy d) = queues d" "drawn (move_cursor cx cy d) = drawn d"
  by (simp_all add: move_cursor_def queues_def drawn_def)

lemma do_set_cursor_frame [simp]:
  "queues (fst (do_set_cursor hx hy l sx sy sw sh d)) = queues d"
  "drawn (fst (do_set_cursor hx hy l sx sy sw sh d)) = drawn d"
  by (simp_all add: do_set_cursor_def Let_def split: prod.splits bool.splits)

lemma do_resize_frame [simp]:
  "queues (fst (do_resize l w h d)) = queues d" "drawn (fst (do_resize l w h d)) = drawn d"
proof -
  obtain d1 t where "on_layer l (layer_resize w h) d = (d1, t)" by (meson surj_pair)
  with on_layer_frame [of l "layer_resize w h" d]
  show "queues (fst (do_resize l w h d)) = queues d" "drawn (fst (do_resize l w h d)) = drawn d"
    by (simp_all add: do_resize_def split: bool.splits)
qed

lemma exec_op_frame [simp]: "queues (fst (exec_op op d)) = queues d" "drawn (fst (exec_op op d)) = drawn d"
  by (cases op; simp split: prod.splits)+

lemma perform_frame:
  "queues (fst (perform n img a d)) = queues d \<and> drawn (fst (perform n img a d)) = drawn d"
proof (cases a)
  case (Draw_loaded l px py url)
  let ?r = "case img of None \<Rightarrow> (d, False)
    | Some (w, h) \<Rightarrow> if w \<noteq> 0 \<and> h \<noteq> 0 then on_layer l (draw_image px py n w h) d else (d, False)"
  have "queues (fst ?r) = queues d" "drawn (fst ?r) = drawn d"
    by (simp_all split: option.splits prod.splits)
  then show ?thesis
    unfolding Draw_loaded perform.simps by (cases ?r) (simp split: bool.splits option.splits)
qed (simp_all split: option.splits)

lemma execute_frame:
  assumes "execute t d = (d1, b)"
  shows "queues d1 = queues d" "drawn d1 = drawn d @ task_items [t]"
proof -
  have "queues d1 = queues d \<and> drawn d1 = drawn d @ task_items [t]"
  proof (cases "action t")
    case (Some a)
    with assms perform_frame [of "task_id t" "loaded t" a "show_event (Ran a) d"] show ?thesis
      by (simp add: execute_def task_items_def)
  qed (use assms in \<open>simp add: execute_def task_items_def\<close>)
  then show "queues d1 = queues d" "drawn d1 = drawn d @ task_items [t]" by blast+
qed

lemma task_items_Cons: "task_items (t # ts) = task_items [t] @ task_items ts"
  by (simp add: task_items_def)

lemma task_items_append: "task_items (ts @ us) = task_items ts @ task_items us"
  by (simp add: task_items_def)

lemma run_tasks_queues: "run_tasks ts d = (d1, b) \<Longrightarrow> queues d1 = queues d"
proof (induction ts d rule: run_tasks.induct)
  case (2 t ts d)
  then show ?case by (auto dest: execute_frame(1) split: prod.splits bool.splits)
qed simp

lemma run_tasks_drawn: "run_tasks ts d = (d1, False) \<Longrightarrow> drawn d1 = drawn d @ task_items ts"
proof (induction ts d rule: run_tasks.induct)
  case (1 d)
  then show ?case by (simp add: task_items_def)
next
  case (2 t ts d)
  then obtain d2 where d2: "execute t d = (d2, False)" "run_tasks ts d2 = (d1, False)"
    by (auto split: prod.splits bool.splits)
  with "2.IH" [OF d2(1) [symmetric] refl] execute_frame(2) [OF d2(1)] show ?case by (simp add: task_items_Cons [of t ts])
qed

lemma frame_flush_queues: "frame_flush f d = (d1, b) \<Longrightarrow> queues d1 = queues d"
  by (auto simp: frame_flush_def dest: run_tasks_queues split: prod.splits bool.splits option.splits)

lemma frame_flush_drawn: "frame_flush f d = (d1, False) \<Longrightarrow> drawn d1 = drawn d @ frame_items f"
  by (auto simp: frame_flush_def frame_items_def dest: run_tasks_drawn split: prod.splits bool.splits option.splits)

lemma render_ready_queues: "render_ready fs d = (rs, d1, b) \<Longrightarrow> queues d1 = queues d"
proof (induction fs d arbitrary: rs rule: render_ready.induct)
  case (2 f fs d)
  then show ?case
    by (auto dest: frame_flush_queues split: if_splits prod.splits bool.splits)
qed simp

lemma render_ready_drawn:
  "render_ready fs d = (rs, d1, False) \<Longrightarrow>
   drawn d1 = drawn d @ concat (map frame_items rs) \<and> (\<exists>us. fs = rs @ us \<and> (us = [] \<or> \<not> is_ready (hd us)))"
proof (induction fs d arbitrary: rs d1 rule: render_ready.induct)
  case (2 f fs d)
  show ?case
  proof (cases "is_ready f")
    case True
    with "2.prems" obtain d2 rs' where *: "frame_flush f d = (d2, False)" "render_ready fs d2 = (rs', d1, False)" "rs = f # rs'"
      by (auto split: prod.splits bool.splits)
    from "2.IH" [OF _ *(1) [symmetric] refl *(2)] True * frame_flush_drawn [OF *(1)] show ?thesis by auto
  qed (use "2.prems" in auto)
qed simp

subsection \<open>Everything is drawn once, in order\<close>

lemma notify_frame [simp]:
  "queues (notify_flushed now lt rt lf d) = queues d" "drawn (notify_flushed now lt rt lf d) = drawn d"
  by (simp_all add: notify_flushed_def Let_def)

lemma queues_fields:
  "queues d = queues d' \<Longrightarrow>
   frames d = frames d' \<and> tasks d = tasks d' \<and> in_progress_frame d = in_progress_frame d' \<and> next_task d = next_task d'"
  by (simp add: queues_def)

lemmas notify_fields [simp] = queues_fields [OF notify_frame(1)]

definition done_and_pending :: "display \<Rightarrow> item list" where
  "done_and_pending d = drawn d @ pending d"

lemma sync_flush_order:
  assumes "sync_flush now d = (d1, False)"
  shows "done_and_pending d1 = done_and_pending d" "frames d1 = [] \<or> \<not> is_ready (hd (frames d1))"
proof -
  obtain rs d2 where r: "render_ready (frames d) d = (rs, d2, False)"
    and d1: "queues d1 = queues (d2\<lparr>frames := drop (length rs) (frames d2)\<rparr>)" "drawn d1 = drawn d2"
    using assms by (auto simp: sync_flush_def Let_def split: prod.splits bool.splits if_splits)
  from render_ready_drawn [OF r] obtain us where dr: "drawn d2 = drawn d @ concat (map frame_items rs)"
    and us: "frames d = rs @ us" "us = [] \<or> \<not> is_ready (hd us)" by blast
  have q: "frames d2 = frames d" "tasks d2 = tasks d" using queues_fields [OF render_ready_queues [OF r]] by auto
  have f: "frames d1 = us" "tasks d1 = tasks d" using queues_fields [OF d1(1)] us(1) q by auto
  show "done_and_pending d1 = done_and_pending d" using dr d1(2) f us(1) by (simp add: done_and_pending_def pending_def)
  show "frames d1 = [] \<or> \<not> is_ready (hd (frames d1))" using f us(2) by simp
qed

lemma continue_flush_order:
  assumes "continue_flush now d = (d1, False)"
  shows "done_and_pending d1 = done_and_pending d \<and> (frames d1 = [] \<or> in_progress_frame d1)
    \<and> frames d1 = (if frames d \<noteq> [] \<and> is_ready (hd (frames d)) then tl (frames d) else frames d)"
proof (cases "frames d")
  case Nil
  with assms show ?thesis by (auto simp: continue_flush_def done_and_pending_def pending_def)
next
  case (Cons f fs)
  show ?thesis
  proof (cases "is_ready f")
    case False
    with Cons assms show ?thesis by (auto simp: continue_flush_def Let_def done_and_pending_def pending_def drawn_def)
  next
    case True
    let ?d = "d\<lparr>in_progress_frame := False, frames := fs\<rparr>"
    from True Cons assms obtain d2 where fl: "frame_flush f ?d = (d2, False)"
      and d1: "queues d1 = queues (if fs \<noteq> [] then d2\<lparr>in_progress_frame := True\<rparr> else d2)" "drawn d1 = drawn d2"
      using queues_fields [OF frame_flush_queues]
      by (fastforce simp: continue_flush_def Let_def queues_def split: prod.splits bool.splits if_splits)
    have q: "frames d2 = fs" "tasks d2 = tasks d" using queues_fields [OF frame_flush_queues [OF fl]] by auto
    with queues_fields [OF d1(1)] have "frames d1 = fs" "tasks d1 = tasks d" "fs = [] \<or> in_progress_frame d1" by auto
    with frame_flush_drawn [OF fl] d1(2) Cons True show ?thesis
      by (simp add: done_and_pending_def pending_def)
  qed
qed

text \<open>A frame at the head of the queue waits for an image, or an animation frame will draw it.\<close>

definition not_stalled :: "display \<Rightarrow> bool" where
  "not_stalled d \<longleftrightarrow> frames d = [] \<or> \<not> is_ready (hd (frames d)) \<or> in_progress_frame d"

lemma flush_frames_order:
  assumes "flush_frames br focus now d = (d1, False)"
  shows "done_and_pending d1 = done_and_pending d" "not_stalled d1"
proof -
  have "done_and_pending d1 = done_and_pending d \<and> not_stalled d1"
  proof (cases "request_animation_frame br \<and> focus")
    case True
    with assms show ?thesis
      by (auto simp: flush_frames_def async_flush_def done_and_pending_def pending_def not_stalled_def)
  next
    case False
    with assms have "sync_flush now d = (d1, False)" by (auto simp: flush_frames_def)
    with sync_flush_order [OF this] show ?thesis by (auto simp: not_stalled_def)
  qed
  then show "done_and_pending d1 = done_and_pending d" "not_stalled d1" by blast+
qed

lemma schedule_task_order:
  "done_and_pending (schedule_task a b img d) = done_and_pending d @ [Action a]"
  "not_stalled (schedule_task a b img d) = not_stalled d"
  by (simp_all add: schedule_task_def done_and_pending_def pending_def task_items_def not_stalled_def)

lemma mark_loaded_items [simp]: "task_items (map (mark_loaded n img) ts) = task_items ts"
  by (simp add: task_items_def mark_loaded_def comp_def if_distrib [where f = action] cong: map_cong if_cong)

lemma mark_loaded_frame [simp]:
  "frame_items (f\<lparr>frame_tasks := map (mark_loaded n img) (frame_tasks f)\<rparr>) = frame_items f"
  by (simp add: frame_items_def)

lemma unblock_order:
  assumes "unblock br focus now n img d = (d1, False)" and "not_stalled d"
  shows "done_and_pending d1 = done_and_pending d" "not_stalled d1"
proof -
  let ?d = "d\<lparr>frames := map (\<lambda>f. f\<lparr>frame_tasks := map (mark_loaded n img) (frame_tasks f)\<rparr>) (frames d),
    tasks := map (mark_loaded n img) (tasks d)\<rparr>"
  have "done_and_pending ?d = done_and_pending d"
    by (simp add: done_and_pending_def pending_def comp_def)
  then show "done_and_pending d1 = done_and_pending d" "not_stalled d1"
    using assms flush_frames_order [of br focus now ?d d1] by (auto simp: unblock_def split: if_splits)
qed

lemma flush_order:
  assumes "flush br focus now cb ts lf d = (d1, False)"
  shows "done_and_pending d1 = done_and_pending d @ (case cb of None \<Rightarrow> [] | Some c \<Rightarrow> [Frame_done c])" "not_stalled d1"
  using flush_frames_order [OF assms [unfolded flush_def Let_def]]
  by (simp_all add: done_and_pending_def pending_def frame_items_def task_items_def)

lemma on_animation_order:
  assumes "on_animation_frame now d = (d1, False)" and "not_stalled d"
  shows "done_and_pending d1 = done_and_pending d" "not_stalled d1"
  using assms continue_flush_order [of now d d1]
  by (auto simp: on_animation_frame_def not_stalled_def split: if_splits)

lemma on_blur_order:
  assumes "on_blur focus now d = (d1, False)" and "not_stalled d"
  shows "done_and_pending d1 = done_and_pending d" "not_stalled d1"
  using assms sync_flush_order [of now "d\<lparr>in_progress_frame := False\<rparr>" d1]
  by (auto simp: on_blur_def not_stalled_def done_and_pending_def pending_def split: if_splits)

lemma cursor_order:
  "done_and_pending (show_cursor b d) = done_and_pending d" "not_stalled (show_cursor b d) = not_stalled d"
  "done_and_pending (move_cursor cx cy d) = done_and_pending d" "not_stalled (move_cursor cx cy d) = not_stalled d"
  by (simp_all add: show_cursor_def move_cursor_def done_and_pending_def pending_def drawn_def not_stalled_def)

lemma create_frame [simp]:
  "queues (create_layer n d) = queues d" "drawn (create_layer n d) = drawn d"
  "queues (create_buffer n d) = queues d" "drawn (create_buffer n d) = drawn d"
  by (simp_all add: create_layer_def create_buffer_def queues_def drawn_def)

lemmas create_fields [simp] = queues_fields [OF create_frame(1)] queues_fields [OF create_frame(3)]

lemma create_order:
  "done_and_pending (create_layer n d) = done_and_pending d" "not_stalled (create_layer n d) = not_stalled d"
  "done_and_pending (create_buffer n d) = done_and_pending d" "not_stalled (create_buffer n d) = not_stalled d"
  by (simp_all add: done_and_pending_def pending_def not_stalled_def)

lemma display_call_order:
  assumes "display_call br focus now op d = (d1, False)" and "not_stalled d"
  shows "done_and_pending d1 = done_and_pending d @ submitted_call op \<and> not_stalled d1"
  using assms
  by (cases op) (auto simp: schedule_task_order cursor_order draw_def dest: flush_order)

lemma display_step_order:
  assumes "display_step br e d = (d1, False)" and "not_stalled d"
  shows "done_and_pending d1 = done_and_pending d @ submitted br e \<and> not_stalled d1"
proof -
  obtain focus now ev where e: "e = (focus, now, ev)" by (metis prod_cases3)
  show ?thesis
  proof (cases ev)
    case (E_call op)
    with assms e display_call_order show ?thesis by simp
  next
    case (E_bitmap n r)
    with assms e show ?thesis
      by (cases r) (auto simp: on_bitmap_def dest: unblock_order)
  qed (use assms e in \<open>auto simp: schedule_task_order create_order on_stream_end_def draw_blob_def draw_def display_draw_image_def
      play_def submitted_blob_def dest: flush_order unblock_order on_animation_order on_blur_order\<close>)
qed

lemma calm_run_order:
  "calm_run br es d = Some d' \<Longrightarrow> not_stalled d \<Longrightarrow>
   done_and_pending d' = done_and_pending d @ concat (map (submitted br) es) \<and> not_stalled d'"
proof (induction br es d rule: calm_run.induct)
  case (2 br e es d)
  then obtain d1 where d1: "display_step br e d = (d1, False)" "calm_run br es d1 = Some d'"
    by (auto split: prod.splits bool.splits)
  from display_step_order [OF d1(1) "2.prems"(2)] "2.IH" [OF d1(1) [symmetric] refl d1(2)] show ?case by simp
qed simp

lemma new_display_order: "not_stalled new_display" "done_and_pending new_display = []"
  by (simp_all add: not_stalled_def new_display_def done_and_pending_def drawn_def pending_def task_items_def)

text \<open>
  (C25) The display draws what it is asked to draw exactly once and in the order it was asked: at
  every moment of a run without exceptions, whatever the order in which images load, animation
  frames come and the window loses the focus, the drawing done so far followed by the drawing
  still queued is precisely the sequence of operations and frame ends submitted.
\<close>

theorem display_draws_in_order:
  assumes "calm_run br es new_display = Some d"
  shows "drawn d @ pending d = concat (map (submitted br) es)"
  using calm_run_order [OF assms new_display_order(1)] new_display_order(2) by (simp add: done_and_pending_def)

definition plain_browser :: browser where
  "plain_browser = \<lparr>request_animation_frame = True, create_image_bitmap = True\<rparr>"

definition example_run :: "timed_event list" where
  "example_run =
     [(True, 1, E_call (D_resize Default_layer (Some 10) (Some 10))),
      (True, 2, E_call (D_draw Default_layer (Some 0) (Some 0) (js ''x''))),
      (True, 3, E_call (D_flush (Some 7) None)),
      (True, 4, E_call (D_push Default_layer)),
      (True, 5, E_image 1 None),
      (True, 6, E_animation)]"

lemma example_run_ends:
  "case calm_run plain_browser example_run new_display of
     None \<Rightarrow> False
   | Some d \<Rightarrow> drawn d = [Action (Layer_op (D_resize Default_layer (Some 10) (Some 10))),
       Action (Draw_loaded Default_layer (Some 0) (Some 0) None), Frame_done (Sync_complete (Some 7))]
       \<and> pending d = [Action (Layer_op (D_push Default_layer))]"
  by code_simp

theorem display_draws_in_order_witness:
  "\<exists>d. calm_run plain_browser example_run new_display = Some d
     \<and> drawn d @ pending d = concat (map (submitted plain_browser) example_run)"
  using example_run_ends display_draws_in_order [of plain_browser example_run] by (auto split: option.splits)

lemma animation_draws_all:
  assumes "calm_run br (replicate (length (frames d)) (focus, now, E_animation)) d = Some d'"
    and "list_all is_ready (frames d)" and "not_stalled d"
  shows "frames d' = [] \<and> drawn d' = drawn d @ concat (map frame_items (frames d))"
  using assms
proof (induction "frames d" arbitrary: d)
  case Nil
  then show ?case by simp
next
  case (Cons f fs)
  note fr = Cons.hyps(2) [symmetric]
  from Cons.prems(1) obtain d1 where d1: "on_animation_frame now d = (d1, False)"
    and run: "calm_run br (replicate (length fs) (focus, now, E_animation)) d1 = Some d'"
    by (auto simp: fr split: prod.splits bool.splits)
  from Cons.prems(2,3) have rd: "is_ready f" "list_all is_ready fs" "in_progress_frame d" by (simp_all add: fr not_stalled_def)
  with d1 have "continue_flush now d = (d1, False)" by (simp add: on_animation_frame_def)
  from continue_flush_order [OF this] fr rd have f1: "frames d1 = fs" "done_and_pending d1 = done_and_pending d" by simp_all
  moreover have "not_stalled d1" using on_animation_order [OF d1 Cons.prems(3)] by simp
  moreover have "tasks d1 = tasks d"
    using \<open>continue_flush now d = (d1, False)\<close> fr rd queues_fields [OF frame_flush_queues]
    by (fastforce simp: continue_flush_def Let_def split: prod.splits bool.splits if_splits)
  ultimately show ?case using Cons.hyps(1) [of d1] run rd(2) fr
    by (simp add: done_and_pending_def pending_def)
qed

lemma calm_run_append:
  "calm_run br (es @ fs) d = (case calm_run br es d of None \<Rightarrow> None | Some d1 \<Rightarrow> calm_run br fs d1)"
  by (induction br es d rule: calm_run.induct) (auto split: prod.splits bool.splits)



subsection \<open>An image that cannot be decoded\<close>

definition awaits :: "nat \<Rightarrow> frame \<Rightarrow> bool" where
  "awaits n f = list_ex (\<lambda>t. task_id t = n \<and> blocked t) (frame_tasks f)"

fun unblocks :: "nat \<Rightarrow> timed_event \<Rightarrow> bool" where
  "unblocks n (focus, now, E_image m img) = (m = n)"
| "unblocks n (focus, now, E_bitmap m r) = (m = n \<and> r \<noteq> None)"
| "unblocks n _ = False"

lemma awaits_not_ready: "awaits n f \<Longrightarrow> \<not> is_ready f"
  by (auto simp: awaits_def is_ready_def list_ex_iff list_all_iff)

lemma awaits_mark: "m \<noteq> n \<Longrightarrow> awaits n (f\<lparr>frame_tasks := map (mark_loaded m img) (frame_tasks f)\<rparr>) = awaits n f"
  by (auto simp: awaits_def list_ex_iff mark_loaded_def)

text \<open>The first queued frame waits for the image of task \<open>n\<close>.\<close>

definition stuck :: "nat \<Rightarrow> display \<Rightarrow> bool" where
  "stuck n d \<longleftrightarrow> frames d \<noteq> [] \<and> awaits n (hd (frames d))"

lemma stuck_sync: "stuck n d \<Longrightarrow> stuck n (fst (sync_flush now d)) \<and> drawn (fst (sync_flush now d)) = drawn d"
  by (cases "frames d") (auto simp: stuck_def sync_flush_def dest: awaits_not_ready)

lemma stuck_flush_frames:
  "stuck n d \<Longrightarrow> stuck n (fst (flush_frames br focus now d)) \<and> drawn (fst (flush_frames br focus now d)) = drawn d"
  using stuck_sync [of n d now] by (auto simp: flush_frames_def async_flush_def stuck_def)

lemma stuck_unblock:
  assumes "stuck n d" and "m \<noteq> n"
  shows "stuck n (fst (unblock br focus now m img d)) \<and> drawn (fst (unblock br focus now m img d)) = drawn d"
proof -
  let ?d = "d\<lparr>frames := map (\<lambda>f. f\<lparr>frame_tasks := map (mark_loaded m img) (frame_tasks f)\<rparr>) (frames d),
    tasks := map (mark_loaded m img) (tasks d)\<rparr>"
  have "stuck n ?d" using assms by (cases "frames d") (auto simp: stuck_def awaits_mark)
  from stuck_flush_frames [OF this, of br focus now] show ?thesis using assms(1) by (simp add: unblock_def)
qed

lemma stuck_step:
  assumes "stuck n d" and "\<not> unblocks n e"
  shows "stuck n (fst (display_step br e d)) \<and> drawn (fst (display_step br e d)) = drawn d"
proof -
  obtain focus now ev where e: "e = (focus, now, ev)" by (metis prod_cases3)
  have sch: "stuck n (schedule_task a b img d) \<and> drawn (schedule_task a b img d) = drawn d" for a b img
    using assms(1) by (simp add: schedule_task_def stuck_def)
  have fl: "stuck n (fst (flush br focus now cb ts lf d)) \<and> drawn (fst (flush br focus now cb ts lf d)) = drawn d" for cb ts lf
    using assms(1) stuck_flush_frames [of n "d\<lparr>frames := frames d @ [f], tasks := []\<rparr>" br focus now for f]
    by (simp add: flush_def Let_def stuck_def)
  show ?thesis
  proof (cases ev)
    case (E_call op)
    with e sch fl assms(1) show ?thesis
      by (cases op) (simp_all add: draw_def show_cursor_def move_cursor_def stuck_def drawn_def)
  next
    case E_animation
    with e assms(1) show ?thesis
      by (cases "frames d") (auto simp: on_animation_frame_def continue_flush_def stuck_def Let_def dest: awaits_not_ready)
  next
    case E_blur
    with e assms(1) stuck_sync [of n "d\<lparr>in_progress_frame := False\<rparr>" now] show ?thesis
      by (auto simp: on_blur_def stuck_def)
  next
    case (E_bitmap m r)
    with e assms stuck_unblock show ?thesis by (cases r) (simp_all add: on_bitmap_def)
  next
    case (E_create_layer k)
    with e assms(1) show ?thesis by (simp add: stuck_def)
  next
    case (E_create_buffer k)
    with e assms(1) show ?thesis by (simp add: stuck_def)
  qed (use e assms sch fl stuck_unblock in \<open>simp_all add: on_stream_end_def draw_blob_def draw_def
      display_draw_image_def play_def\<close>)
qed

text \<open>
  One image that cannot be decoded stops the display for good. Where \<^verbatim>\<open>createImageBitmap\<close>
  is used, the rejection of its promise is not handled, so the task of the image stays blocked;
  from then on, whatever else happens, in particular whatever frames are submitted, nothing is
  drawn and no frame is reported done, which is what confirms frames to the server.
\<close>

theorem undecodable_image_stops_display:
  assumes "frames d = f # fs" and "t \<in> set (frame_tasks f)" and "task_id t = n" and "blocked t"
    and "list_all (\<lambda>e. \<not> unblocks n e) (es @ es')"
  shows "drawn (display_run br (es @ (focus, now, E_bitmap n None) # es') d) = drawn d"
proof -
  have st: "stuck n d" using assms(1-4) by (auto simp: stuck_def awaits_def list_ex_iff)
  have "list_all (\<lambda>e. \<not> unblocks n e) us \<Longrightarrow> stuck n d' \<Longrightarrow> drawn (display_run br us d') = drawn d'" for us d'
    by (induction us arbitrary: d') (use stuck_step in auto)
  from this [of "es @ (focus, now, E_bitmap n None) # es'" d] st assms(5) show ?thesis by simp
qed

definition image_run :: "timed_event list" where
  "image_run =
     [(True, 1, E_stream_end 0 Default_layer (Some 0) (Some 0)),
      (True, 2, E_call (D_flush (Some 7) None))]"

theorem undecodable_image_stops_display_witness:
  "drawn (display_run plain_browser ([(True, 9, E_animation)]
      @ (True, 10, E_bitmap 0 None) # [(False, 11, E_call (D_flush (Some 8) None)), (True, 12, E_animation)])
      (display_run plain_browser image_run new_display))
   = drawn (display_run plain_browser image_run new_display)"
  by (rule undecodable_image_stops_display [where n = 0 and fs = "[]"
        and f = "\<lparr>callback = Some (Sync_complete (Some 7)), frame_tasks = [\<lparr>task_id = 0, blocked = True,
          action = Some (Draw_decoded Default_layer (Some 0) (Some 0)), loaded = None\<rparr>],
          local_timestamp = 2, remote_timestamp = 7, logical_frames = 0\<rparr>"
        and t = "\<lparr>task_id = 0, blocked = True,
          action = Some (Draw_decoded Default_layer (Some 0) (Some 0)), loaded = None\<rparr>"])
    (simp_all add: image_run_def plain_browser_def new_display_def on_stream_end_def draw_blob_def schedule_task_def
      flush_def flush_frames_def async_flush_def or_zero_def)

subsection \<open>Stroking with a layer\<close>

lemma on_layer_threw: "snd (on_layer l f d) = snd (f (store d l))"
  by (simp add: on_layer_def split: prod.splits)

text \<open>The tasks of an \<^verbatim>\<open>lstroke\<close> instruction, the items they are, and the frame a flush makes.\<close>

definition lstroke_tasks :: "layer \<Rightarrow> jsnum \<Rightarrow> layer \<Rightarrow> nat \<Rightarrow> task list" where
  "lstroke_tasks l m s k =
     [\<lparr>task_id = k, blocked = False, action = Some (Layer_op (D_set_channel_mask l m)), loaded = None\<rparr>,
      \<lparr>task_id = Suc k, blocked = False, action = Some (Layer_op (D_stroke_layer l s)), loaded = None\<rparr>]"

definition lstroke_items :: "layer \<Rightarrow> jsnum \<Rightarrow> layer \<Rightarrow> item list" where
  "lstroke_items l m s = [Action (Layer_op (D_set_channel_mask l m)), Action (Layer_op (D_stroke_layer l s))]"

lemma lstroke_throws:
  assumes "run_tasks (lstroke_tasks l m s k) d = (d1, b)"
  shows "b \<and> queues d1 = queues d \<and> drawn d1 = drawn d @ lstroke_items l m s"
proof -
  let ?ts = "lstroke_tasks l m s k"
  have "\<not> snd (execute (?ts ! 0) d)"
    by (simp add: lstroke_tasks_def execute_def on_layer_threw set_channel_mask_def split: option.splits)
  then obtain d2 where d2: "execute (?ts ! 0) d = (d2, False)" by (metis (full_types) prod.collapse)
  have "snd (execute (?ts ! 1) d2)" by (simp add: lstroke_tasks_def execute_def on_layer_threw stroke_layer_def Let_def)
  then obtain d3 where d3: "execute (?ts ! 1) d2 = (d3, True)" by (metis (full_types) prod.collapse)
  from execute_frame [OF d2] execute_frame [OF d3] d2 d3 assms show ?thesis
    by (simp add: lstroke_tasks_def lstroke_items_def task_items_def)
qed

lemma lstroke_flush:
  assumes "frames d = f # fs" and "frame_tasks f = lstroke_tasks l m s k"
  shows "\<exists>d1. sync_flush now d = (d1, True) \<and> queues d1 = queues d \<and> drawn d1 = drawn d @ lstroke_items l m s"
proof -
  obtain d1 b where r: "run_tasks (lstroke_tasks l m s k) d = (d1, b)" by (meson surj_pair)
  have "is_ready f" using assms(2) by (simp add: is_ready_def lstroke_tasks_def)
  with lstroke_throws [OF r] r assms show ?thesis by (simp add: sync_flush_def frame_flush_def)
qed

lemma lstroke_flush_call:
  assumes "\<not> request_animation_frame br"
    and "frames d = f # fs \<and> frame_tasks f = lstroke_tasks l m s k \<or> frames d = [] \<and> tasks d = lstroke_tasks l m s k"
  shows "\<exists>d1 f fs. display_call br focus now (D_flush ts lf) d = (d1, True)
    \<and> frames d1 = f # fs \<and> frame_tasks f = lstroke_tasks l m s k \<and> drawn d1 = drawn d @ lstroke_items l m s"
proof -
  let ?f = "\<lparr>callback = Some (Sync_complete ts), frame_tasks = tasks d, local_timestamp = now,
    remote_timestamp = (if ts = None \<or> ts = Some 0 then now else the ts), logical_frames = or_zero lf\<rparr>"
  let ?d = "d\<lparr>frames := frames d @ [?f], tasks := []\<rparr>"
  from assms(2) obtain g gs where g: "frames ?d = g # gs" "frame_tasks g = lstroke_tasks l m s k" by auto
  from lstroke_flush [OF g, of now] obtain d1 where "sync_flush now ?d = (d1, True)" "queues d1 = queues ?d"
    "drawn d1 = drawn d @ lstroke_items l m s" by auto
  moreover have "display_call br focus now (D_flush ts lf) d = sync_flush now ?d"
    using assms(1) by (simp add: flush_def flush_frames_def Let_def)
  ultimately show ?thesis using g by (auto simp: queues_def)
qed

text \<open>
  The \<^verbatim>\<open>lstroke\<close> instruction wedges a display that draws synchronously. Its handler leaves out
  three arguments of \<^verbatim>\<open>strokeLayer\<close>, so the task throws; the frame is not taken off the queue, its
  end is never reported, and the next flush executes its tasks from the start and throws again.
\<close>

theorem lstroke_wedges_display:
  assumes "tasks d = []" and "frames d = []" and "\<not> request_animation_frame br"
  shows "let d1 = fst (display_call br focus now (D_set_channel_mask l m) d);
             d2 = fst (display_call br focus now (D_stroke_layer l s) d1);
             (d3, threw) = display_call br focus now (D_flush ts lf) d2;
             (d4, threw_again) = display_call br focus now' (D_flush ts' lf') d3
    in threw \<and> threw_again \<and> frames d4 \<noteq> []
       \<and> drawn d4 = drawn d @ lstroke_items l m s @ lstroke_items l m s"
proof -
  define d2 where "d2 = fst (display_call br focus now (D_stroke_layer l s)
      (fst (display_call br focus now (D_set_channel_mask l m) d)))"
  have q2: "frames d2 = []" "tasks d2 = lstroke_tasks l m s (next_task d)" "drawn d2 = drawn d"
    using assms(1,2) by (simp_all add: d2_def schedule_task_def drawn_def lstroke_tasks_def)
  from lstroke_flush_call [OF assms(3)] q2 obtain d3 f fs where d3: "display_call br focus now (D_flush ts lf) d2 = (d3, True)"
    "frames d3 = f # fs" "frame_tasks f = lstroke_tasks l m s (next_task d)" "drawn d3 = drawn d @ lstroke_items l m s"
    by metis
  from lstroke_flush_call [OF assms(3)] d3 obtain d4 where "display_call br focus now' (D_flush ts' lf') d3 = (d4, True)"
    "frames d4 \<noteq> []" "drawn d4 = drawn d3 @ lstroke_items l m s" by (metis list.distinct(1))
  with d3 show ?thesis unfolding Let_def d2_def [symmetric] by simp
qed

theorem lstroke_wedges_display_witness:
  "let br = plain_browser\<lparr>request_animation_frame := False\<rparr>;
       d1 = fst (display_call br True 1 (D_set_channel_mask Default_layer (Some 0xE)) new_display);
       d2 = fst (display_call br True 1 (D_stroke_layer Default_layer (Buffer_layer 0)) d1);
       (d3, threw) = display_call br True 1 (D_flush (Some 7) None) d2;
       (d4, threw_again) = display_call br True 2 (D_flush (Some 8) None) d3
    in threw \<and> threw_again \<and> frames d4 \<noteq> []
       \<and> drawn d4 = drawn new_display @ lstroke_items Default_layer (Some 0xE) (Buffer_layer 0)
           @ lstroke_items Default_layer (Some 0xE) (Buffer_layer 0)"
  unfolding Let_def
  by (rule lstroke_wedges_display [unfolded Let_def]) (simp_all add: new_display_def)

subsection \<open>Statistics\<close>

lemma first_within_stale:
  "list_all (\<lambda>s. window < now - stat_time s) ss \<Longrightarrow> first_within now window ss = length ss"
  by (induction ss) (auto simp: first_within_def)

text \<open>
  The statistics keep one frame that has left the time window: if all recorded frames have, the
  last of them stays, and the measured interval reaches back to it.
\<close>

lemma statistics_keep_a_stale_frame:
  assumes "statistic_window d \<noteq> 0" and "stats d \<noteq> []"
    and "list_all (\<lambda>s. statistic_window d < now - stat_time s) (stats d)"
  shows "stats (notify_flushed now lt rt lf d) =
    [last (stats d), \<lparr>stat_local = lt, stat_remote = rt, stat_time = now, stat_frames = lf\<rparr>]"
proof -
  have "drop (length (stats d) - 1) (stats d) = [last (stats d)]"
    using assms(2) by (metis append_butlast_last_id append_eq_conv_conj length_butlast)
  then show ?thesis
    using assms(1) first_within_stale [OF assms(3)] by (simp add: notify_flushed_def show_event_def Let_def)
qed

subsection \<open>Invariants of the layers\<close>

text \<open>
  A property of the layers that every task that returns keeps, and that new layers have, holds
  throughout every run without exceptions.
\<close>

locale layer_invariant =
  fixes I :: "(layer \<Rightarrow> layer_state) \<Rightarrow> layer_state \<Rightarrow> tree \<Rightarrow> bool"
  assumes perform_keeps:
    "I (store d) (cursor_layer d) (tree d) \<Longrightarrow> perform n img a d = (d1, False)
     \<Longrightarrow> I (store d1) (cursor_layer d1) (tree d1)"
    and create_layer_keeps:
    "I (store d) (cursor_layer d) (tree d)
     \<Longrightarrow> I (store (create_layer k d)) (cursor_layer (create_layer k d)) (tree (create_layer k d))"
    and create_buffer_keeps:
    "I (store d) (cursor_layer d) (tree d)
     \<Longrightarrow> I (store (create_buffer k d)) (cursor_layer (create_buffer k d)) (tree (create_buffer k d))"
    and initially: "I (store new_display) (cursor_layer new_display) (tree new_display)"
begin

definition holds :: "display \<Rightarrow> bool" where
  "holds d = I (store d) (cursor_layer d) (tree d)"

lemma holds_updates [simp]:
  "holds (d\<lparr>frames := fs\<rparr>) = holds d" "holds (d\<lparr>in_progress_frame := b\<rparr>) = holds d"
  "holds (d\<lparr>frames := fs, tasks := ts\<rparr>) = holds d" "holds (show_event ev d) = holds d"
  "holds (d\<lparr>in_progress_frame := b, frames := fs\<rparr>) = holds d"
  "holds (schedule_task a b' img d) = holds d" "holds (notify_flushed now lt rt lf d) = holds d"
  "holds (async_flush d) = holds d" "holds (show_cursor b d) = holds d" "holds (move_cursor cx cy d) = holds d"
  by (simp_all add: holds_def show_event_def schedule_task_def notify_flushed_def async_flush_def show_cursor_def
      move_cursor_def Let_def)

lemma execute_keeps: "holds d \<Longrightarrow> execute t d = (d1, False) \<Longrightarrow> holds d1"
  using perform_keeps [of "show_event ev d" for ev]
  by (auto simp: execute_def holds_def show_event_def split: option.splits)

lemma run_tasks_keeps: "holds d \<Longrightarrow> run_tasks ts d = (d1, False) \<Longrightarrow> holds d1"
  by (induction ts d rule: run_tasks.induct) (auto dest: execute_keeps split: prod.splits bool.splits)

lemma frame_flush_keeps: "holds d \<Longrightarrow> frame_flush f d = (d1, False) \<Longrightarrow> holds d1"
  by (auto simp: frame_flush_def dest: run_tasks_keeps split: prod.splits bool.splits option.splits)

lemma render_ready_keeps: "holds d \<Longrightarrow> render_ready fs d = (rs, d1, False) \<Longrightarrow> holds d1"
  by (induction fs d arbitrary: rs rule: render_ready.induct)
    (auto dest: frame_flush_keeps split: prod.splits bool.splits if_splits)

lemma sync_flush_keeps: "holds d \<Longrightarrow> sync_flush now d = (d1, False) \<Longrightarrow> holds d1"
  by (auto simp: sync_flush_def Let_def dest: render_ready_keeps split: prod.splits bool.splits if_splits)

lemma continue_flush_keeps: "holds d \<Longrightarrow> continue_flush now d = (d1, False) \<Longrightarrow> holds d1"
  using frame_flush_keeps [of "d\<lparr>in_progress_frame := False, frames := fs\<rparr>" for fs]
  by (auto simp: continue_flush_def Let_def split: list.splits prod.splits bool.splits if_splits)

lemma flush_frames_keeps: "holds d \<Longrightarrow> flush_frames br focus now d = (d1, False) \<Longrightarrow> holds d1"
  by (auto simp: flush_frames_def dest: sync_flush_keeps split: if_splits)

lemma unblock_keeps: "holds d \<Longrightarrow> unblock br focus now n img d = (d1, False) \<Longrightarrow> holds d1"
  using flush_frames_keeps [of "d\<lparr>frames := fs, tasks := ts\<rparr>" for fs ts] by (auto simp: unblock_def split: if_splits)

lemma flush_keeps: "holds d \<Longrightarrow> flush br focus now cb ts lf d = (d1, False) \<Longrightarrow> holds d1"
  using flush_frames_keeps [of "d\<lparr>frames := fs, tasks := ts\<rparr>" for fs ts] by (auto simp: flush_def Let_def)

lemma step_keeps:
  assumes "holds d" and "display_step br e d = (d1, False)"
  shows "holds d1"
proof -
  obtain focus now ev where e: "e = (focus, now, ev)" by (metis prod_cases3)
  show ?thesis
  proof (cases ev)
    case (E_call op)
    with assms e show ?thesis by (cases op) (auto simp: draw_def dest: flush_keeps)
  next
    case E_blur
    with assms e sync_flush_keeps [of "d\<lparr>in_progress_frame := False\<rparr>"] show ?thesis
      by (auto simp: on_blur_def split: if_splits)
  next
    case (E_create_layer k)
    with assms e create_layer_keeps show ?thesis by (auto simp: holds_def)
  next
    case (E_create_buffer k)
    with assms e create_buffer_keeps show ?thesis by (auto simp: holds_def)
  qed (use assms e in \<open>auto simp: on_bitmap_def on_stream_end_def draw_blob_def draw_def display_draw_image_def play_def
      on_animation_frame_def dest: flush_keeps unblock_keeps continue_flush_keeps split: option.splits if_splits\<close>)
qed

lemma run_keeps: "calm_run br es new_display = Some d \<Longrightarrow> holds d"
proof -
  have "calm_run br es d0 = Some d \<Longrightarrow> holds d0 \<Longrightarrow> holds d" for d0
    by (induction br es d0 rule: calm_run.induct) (auto dest: step_keeps split: prod.splits bool.splits)
  then show "calm_run br es new_display = Some d \<Longrightarrow> holds d" using initially by (auto simp: holds_def)
qed

end

definition all_balanced :: "(layer \<Rightarrow> layer_state) \<Rightarrow> layer_state \<Rightarrow> bool" where
  "all_balanced st c \<longleftrightarrow> (\<forall>l. balanced (st l)) \<and> balanced c"

lemma on_layer_balanced:
  assumes "on_layer l f d = (d1, False)" and "all_balanced (store d) (cursor_layer d)"
    and "\<And>s s'. balanced s \<Longrightarrow> f s = (s', False) \<Longrightarrow> balanced s'"
  shows "all_balanced (store d1) (cursor_layer d1)"
proof -
  obtain s where s: "f (store d l) = (s, False)" "d1 = d\<lparr>store := (store d)(l := s)\<rparr>"
    using assms(1) by (auto simp: on_layer_def split: prod.splits)
  have "balanced s" using assms(2) by (intro assms(3) [OF _ s(1)]) (simp add: all_balanced_def)
  with assms(2) s(2) show ?thesis by (simp add: all_balanced_def)
qed

lemma do_set_cursor_balanced:
  assumes "do_set_cursor hx hy l sx sy sw sh d = (d1, False)" and "all_balanced (store d) (cursor_layer d)"
  shows "all_balanced (store d1) (cursor_layer d1)"
proof -
  let ?d = "d\<lparr>cursor_hotspot := (hx, hy)\<rparr>"
  obtain c1 c2 where c: "layer_resize sw sh (cursor_layer d) = (c1, False)"
    "layer_copy l (canvas_of l ?d) sx sy sw sh (Some 0) (Some 0) c1 = (c2, False)"
    "store d1 = store d" "cursor_layer d1 = c2"
    using assms(1) by (auto simp: do_set_cursor_def Let_def move_cursor_def show_event_def split: prod.splits bool.splits)
  have "balanced c1" using assms(2) layer_resize_balanced [OF _ c(1)] by (simp add: all_balanced_def)
  then have "balanced c2" using c(2) by (rule image_calls_balanced)
  with assms(2) c show ?thesis by (simp add: all_balanced_def)
qed

lemma do_resize_balanced:
  assumes "do_resize l w h d = (d1, False)" and "all_balanced (store d) (cursor_layer d)"
  shows "all_balanced (store d1) (cursor_layer d1)"
proof -
  obtain d2 where d2: "on_layer l (layer_resize w h) d = (d2, False)" "store d1 = store d2" "cursor_layer d1 = cursor_layer d2"
    using assms(1) by (auto simp: do_resize_def show_event_def split: prod.splits bool.splits if_splits)
  from on_layer_balanced [OF d2(1) assms(2)] layer_resize_balanced d2(2,3) show ?thesis by simp
qed

lemma exec_op_balanced:
  assumes "exec_op op d = (d1, False)" and "all_balanced (store d) (cursor_layer d)"
  shows "all_balanced (store d1) (cursor_layer d1)"
proof (cases op)
  case (D_resize l w h)
  with assms do_resize_balanced show ?thesis by simp
next
  case (D_set_cursor hx hy l sx sy sw sh)
  with assms do_set_cursor_balanced show ?thesis by simp
next
  case (D_move l p px py pz)
  with assms show ?thesis by (auto split: prod.splits)
qed (insert assms, simp_all, (erule (1) on_layer_balanced, erule (1) balanced_intros | auto)+)

lemma perform_balanced:
  assumes "perform n img a d = (d1, False)" and "all_balanced (store d) (cursor_layer d)"
  shows "all_balanced (store d1) (cursor_layer d1)"
proof (cases a)
  case (Layer_op op)
  with assms exec_op_balanced show ?thesis by simp
next
  case (Draw_decoded l px py)
  with assms obtain w h where "on_layer l (draw_image px py n w h) d = (d1, False)" by (auto split: option.splits)
  then show ?thesis using assms(2) by (rule on_layer_balanced) (erule (1) balanced_intros)
next
  case (Draw_loaded l px py url)
  let ?r = "case img of None \<Rightarrow> (d, False)
    | Some (w, h) \<Rightarrow> if w \<noteq> 0 \<and> h \<noteq> 0 then on_layer l (draw_image px py n w h) d else (d, False)"
  from assms Draw_loaded obtain d2 where d2: "?r = (d2, False)" "store d1 = store d2" "cursor_layer d1 = cursor_layer d2"
    by (auto simp: show_event_def split: prod.splits bool.splits option.splits)
  have "d2 = d \<or> (\<exists>w h. on_layer l (draw_image px py n w h) d = (d2, False))"
    using d2(1) by (auto split: option.splits prod.splits if_splits)
  then have "all_balanced (store d2) (cursor_layer d2)"
    using assms(2) by (auto elim!: on_layer_balanced intro: image_calls_balanced(1))
  with d2 show ?thesis by simp
qed (use assms in simp)

lemma all_balanced_create:
  "all_balanced st c \<Longrightarrow> balanced s \<Longrightarrow> all_balanced (st(l := s)) c"
  by (simp add: all_balanced_def)

interpretation lb: layer_invariant "\<lambda>st c t. all_balanced st c"
proof
  show "all_balanced (store new_display) (cursor_layer new_display)"
    using new_layer_balanced [of 0 0]
    by (simp add: new_display_def all_balanced_def set_channel_mask_def composite_operation_def balanced_def)
qed (auto simp: create_layer_def create_buffer_def new_layer_balanced new_buffer_ok
    intro: perform_balanced all_balanced_create)

lemma exec_op_tree: "exec_op op d = (d1, False) \<Longrightarrow> tree_ok (tree d) \<Longrightarrow> tree_ok (tree d1)"
proof (cases op)
  case (D_move l p px py pz)
  moreover assume "exec_op op d = (d1, False)" and "tree_ok (tree d)"
  ultimately show ?thesis using tree_ok_move [of "tree d" "layer_count d" l p px py pz] by (auto split: prod.splits)
qed (auto simp: on_layer_def do_resize_def do_set_cursor_def show_event_def move_cursor_def Let_def tree_ok_dispose
    tree_ok_attributes split: prod.splits bool.splits if_splits)

lemma perform_tree: "perform n img a d = (d1, False) \<Longrightarrow> tree_ok (tree d) \<Longrightarrow> tree_ok (tree d1)"
  by (cases a) (auto simp: exec_op_tree on_layer_def show_event_def split: option.splits prod.splits bool.splits if_splits)

interpretation lt: layer_invariant "\<lambda>st c t. tree_ok t"
  by unfold_locales
    (auto simp: create_layer_def create_buffer_def create_visible_def new_display_def tree_ok_new tree_ok_move
      intro: perform_tree)

text \<open>
  (C27) The layers stay in order through every run without exceptions: on every layer and on the
  cursor the saved drawing states are exactly the pushed ones and one base state below them, so
  that no sequence of pushes, pops, resets and resizes pops the base state or leaves states
  behind, and in the tree of layers parents and children agree.
\<close>

theorem display_layers_in_order:
  assumes "calm_run br es new_display = Some d"
  shows "(\<forall>l. length (saved (store d l)) = Suc (stack_size (store d l)))
    \<and> length (saved (cursor_layer d)) = Suc (stack_size (cursor_layer d)) \<and> tree_ok (tree d)"
  using lb.run_keeps [OF assms, unfolded lb.holds_def] lt.run_keeps [OF assms, unfolded lt.holds_def]
  by (simp add: all_balanced_def balanced_def)

theorem display_layers_in_order_witness:
  "\<exists>d. calm_run plain_browser example_run new_display = Some d
     \<and> (\<forall>l. length (saved (store d l)) = Suc (stack_size (store d l)))
     \<and> length (saved (cursor_layer d)) = Suc (stack_size (cursor_layer d)) \<and> tree_ok (tree d)"
  using example_run_ends display_layers_in_order [of plain_browser example_run] by (auto split: option.splits)

end
