(* ===== verification/Guac_Recording.thy ===== *)
theory Guac_Recording
  imports Guac_Protocol Guac_Utf8
begin

section \<open>Guacamole.SessionRecording: loading\<close>

text \<open>
  A session recording reads the instructions of a recorded session, keeps their text in a blob
  and remembers where in it each frame begins and ends, so that frames can be replayed later.

  The blob is the list of its bytes. \<open>blob_bytes\<close> is the UTF-8 encoding the browser uses for
  text without surrogates; how \<^verbatim>\<open>FileReader.readAsText\<close> turns bytes back into text is the
  parameter \<open>read_as_text\<close>. The blocks of a blob are read one after the other; reading one blob
  is a single step here. The callbacks of the recording are recorded in \<open>rec_events\<close>.
\<close>

subsection \<open>State\<close>

datatype rec_callback = On_load | On_error jsstring | On_abort | On_progress jsnum int | Tunnel_disconnected

record rec_frame =
  timestamp :: jsnum
  start_offset :: nat
  end_offset :: nat
  keyframe :: bool
  client_state :: "nat list option"

record recording =
  recording_blob :: "nat list"
  instruction_buffer :: jsstring
  frames :: "rec_frame list"
  last_keyframe :: nat
  frame_start :: nat
  frame_end :: nat
  error_encountered :: bool
  aborted :: bool
  rec_events :: "rec_callback list"

definition BLOCK_SIZE :: nat where "BLOCK_SIZE = 262144"
definition KEYFRAME_CHAR_INTERVAL :: nat where "KEYFRAME_CHAR_INTERVAL = 16384"
definition KEYFRAME_TIME_INTERVAL :: int where "KEYFRAME_TIME_INTERVAL = 5000"

definition new_recording :: recording where
  "new_recording = \<lparr>recording_blob = [], instruction_buffer = [], frames = [], last_keyframe = 0,
     frame_start = 0, frame_end = 0, error_encountered = False, aborted = False, rec_events = []\<rparr>"

definition new_frame :: "jsnum \<Rightarrow> nat \<Rightarrow> nat \<Rightarrow> rec_frame" where
  "new_frame ts s e = \<lparr>timestamp = ts, start_offset = s, end_offset = e, keyframe = False, client_state = None\<rparr>"

definition rec_event :: "rec_callback \<Rightarrow> recording \<Rightarrow> recording" where
  "rec_event ev r = r\<lparr>rec_events := rec_events r @ [ev]\<rparr>"

subsection \<open>Blobs\<close>

definition blob_bytes :: "jsstring \<Rightarrow> nat list" where
  "blob_bytes s = concat (map utf8_bytes s)"

definition blob_slice :: "nat list \<Rightarrow> nat \<Rightarrow> nat \<Rightarrow> nat list" where
  "blob_slice b s e = take (e - s) (drop s b)"

function blocks :: "nat list \<Rightarrow> nat list list" where
  "blocks b = (if b = [] then [] else take BLOCK_SIZE b # blocks (drop BLOCK_SIZE b))"
  by pat_completeness auto
termination
  by (relation "measure length") (auto simp: BLOCK_SIZE_def)

declare blocks.simps [simp del]

text \<open>
  The instructions a blob holds, and the error that ended the parsing; without an error the
  completion callback runs.
\<close>

definition parse_blob :: "(nat list \<Rightarrow> jsstring) \<Rightarrow> nat list \<Rightarrow> instruction list \<times> parse_error option" where
  "parse_blob read_as_text b =
     (case receive_all (map read_as_text (blocks b)) new_parser of (p, out, err) \<Rightarrow> (out, err))"

subsection \<open>Loading\<close>

fun extra_digits :: "nat \<Rightarrow> nat" where
  "extra_digits n = (if n \<ge> 10 then Suc (extra_digits (n div 10)) else 0)"

definition get_element_size :: "jsstring \<Rightarrow> nat" where
  "get_element_size v = length v + 3 + extra_digits (length v)"

definition num_diff :: "jsnum \<Rightarrow> jsnum \<Rightarrow> jsnum" where
  "num_diff a b = (case a of None \<Rightarrow> None | Some m \<Rightarrow> (case b of None \<Rightarrow> None | Some n \<Rightarrow> Some (m - n)))"

definition at_least :: "jsnum \<Rightarrow> int \<Rightarrow> bool" where
  "at_least a b = (case a of None \<Rightarrow> False | Some m \<Rightarrow> m \<ge> b)"

definition to_relative_timestamp :: "rec_frame list \<Rightarrow> jsnum \<Rightarrow> jsnum" where
  "to_relative_timestamp fs ts = (if fs = [] then Some 0 else num_diff ts (timestamp (fs ! 0)))"

definition get_duration :: "rec_frame list \<Rightarrow> jsnum" where
  "get_duration fs = (if fs = [] then Some 0 else to_relative_timestamp fs (timestamp (last fs)))"

definition becomes_keyframe :: "rec_frame list \<Rightarrow> nat \<Rightarrow> nat \<Rightarrow> jsnum \<Rightarrow> bool" where
  "becomes_keyframe fs last_key fe ts \<longleftrightarrow>
     length fs = 1
     \<or> int fe - int (start_offset (fs ! last_key)) \<ge> int KEYFRAME_CHAR_INTERVAL
       \<and> at_least (num_diff ts (timestamp (fs ! last_key))) KEYFRAME_TIME_INTERVAL"

definition load_instruction :: "instruction \<Rightarrow> recording \<Rightarrow> recording" where
  "load_instruction i r =
     (let fe = frame_end r + get_element_size (fst i) + sum_list (map get_element_size (snd i));
          r1 = r\<lparr>frame_end := fe\<rparr>
      in if fst i = js ''sync'' then
           (let ts = (case snd i of [] \<Rightarrow> None | a # _ \<Rightarrow> parse_int a);
                fs = frames r1 @ [new_frame ts (frame_start r1) fe];
                r2 = r1\<lparr>frames := fs, frame_start := fe\<rparr>;
                r3 = (if becomes_keyframe fs (last_keyframe r2) fe ts
                      then r2\<lparr>frames := fs[length fs - 1 := (last fs)\<lparr>keyframe := True\<rparr>], last_keyframe := length fs - 1\<rparr>
                      else r2)
            in rec_event (On_progress (get_duration (frames r3)) (int fe)) r3)
         else r1)"

text \<open>The callbacks of the tunnel that a recording is loaded from.\<close>

definition buffer_instruction :: "instruction \<Rightarrow> recording \<Rightarrow> recording" where
  "buffer_instruction i r =
     (let buf = instruction_buffer r @ encode_instruction i
      in if length buf \<ge> BLOCK_SIZE
         then r\<lparr>recording_blob := recording_blob r @ blob_bytes buf, instruction_buffer := []\<rparr>
         else r\<lparr>instruction_buffer := buf\<rparr>)"

definition handle_instruction :: "instruction \<Rightarrow> recording \<Rightarrow> recording" where
  "handle_instruction i r = load_instruction i (buffer_instruction i r)"

definition tunnel_error :: "jsstring \<Rightarrow> recording \<Rightarrow> recording" where
  "tunnel_error msg r = rec_event (On_error msg) (r\<lparr>error_encountered := True\<rparr>)"

definition tunnel_closed :: "recording \<Rightarrow> recording" where
  "tunnel_closed r =
     (let r1 = (if instruction_buffer r \<noteq> []
                then r\<lparr>recording_blob := recording_blob r @ blob_bytes (instruction_buffer r), instruction_buffer := []\<rparr>
                else r)
      in if \<not> error_encountered r1 then rec_event On_load r1 else r1)"

definition abort :: "recording \<Rightarrow> recording" where
  "abort r =
     (if \<not> aborted r then rec_event Tunnel_disconnected (rec_event On_abort (r\<lparr>aborted := True\<rparr>)) else r)"

subsection \<open>Searching\<close>

function find_frame :: "rec_frame list \<Rightarrow> nat \<Rightarrow> nat \<Rightarrow> int \<Rightarrow> nat" where
  "find_frame fs lo hi ts =
     (if lo = hi then lo
      else
        (let mid = (lo + hi) div 2; mid_ts = to_relative_timestamp fs (timestamp (fs ! mid))
         in if (case mid_ts of None \<Rightarrow> False | Some m \<Rightarrow> ts < m) \<and> mid > lo then find_frame fs lo (mid - 1) ts
            else if (case mid_ts of None \<Rightarrow> False | Some m \<Rightarrow> ts > m) \<and> mid < hi then find_frame fs (mid + 1) hi ts
            else mid))"
  by pat_completeness auto
termination
  by (relation "measure (\<lambda>(fs, lo, hi, ts). hi - lo)") auto

declare find_frame.simps [simp del]

subsection \<open>The size of an instruction\<close>

declare extra_digits.simps [simp del]

lemma length_nat_str: "length (nat_str n) = Suc (extra_digits n)"
proof (induction n rule: extra_digits.induct)
  case (1 n)
  then show ?case by (cases "n < 10") (simp_all add: nat_str.simps [of n] extra_digits.simps [of n])
qed

lemma get_element_size: "get_element_size v = Suc (length (get_element v))"
  by (simp add: get_element_size_def get_element_def length_nat_str)

lemma instruction_size:
  "length (encode_instruction i) = get_element_size (fst i) + sum_list (map get_element_size (snd i))"
proof -
  have "length (concat (map (\<lambda>v. comma # get_element v) vs)) = sum_list (map get_element_size vs)" for vs
    by (induction vs) (simp_all add: get_element_size)
  then show ?thesis by (simp add: encode_instruction_def encode_message_Cons get_element_size)
qed

subsection \<open>Frames of a recording\<close>

abbreviation encode_all :: "instruction list \<Rightarrow> jsstring" where
  "encode_all is \<equiv> concat (map encode_instruction is)"

text \<open>The instructions of a recording, one group for each frame and those after the last frame.\<close>

definition add_to_frames :: "instruction \<Rightarrow> instruction list list \<times> instruction list \<Rightarrow> instruction list list \<times> instruction list" where
  "add_to_frames i gc =
     (if fst i = js ''sync'' then (fst gc @ [snd gc @ [i]], []) else (fst gc, snd gc @ [i]))"

definition split_frames :: "instruction list \<Rightarrow> instruction list list \<times> instruction list" where
  "split_frames is = fold add_to_frames is ([], [])"

definition frames_of :: "instruction list \<Rightarrow> instruction list list" where
  "frames_of is = fst (split_frames is)"

definition loaded :: "instruction list \<Rightarrow> recording" where
  "loaded is = fold handle_instruction is new_recording"

lemma fold_snoc: "fold f (xs @ [a]) s = f a (fold f xs s)"
  by simp

lemma split_frames_concat: "concat (fst (split_frames is)) @ snd (split_frames is) = is"
  by (induction "is" rule: rev_induct) (auto simp: split_frames_def add_to_frames_def)

definition frame_span :: "instruction list list \<Rightarrow> nat \<Rightarrow> rec_frame \<Rightarrow> bool" where
  "frame_span gs k f \<longleftrightarrow> start_offset f = length (encode_all (concat (take k gs)))
     \<and> end_offset f = length (encode_all (concat (take (Suc k) gs)))"

lemma frame_span_append: "k < length gs \<Longrightarrow> frame_span (gs @ hs) k f = frame_span gs k f"
  by (simp add: frame_span_def)

lemma frame_span_keyframe [simp]: "frame_span gs k (f\<lparr>keyframe := b\<rparr>) = frame_span gs k f"
  by (simp add: frame_span_def)

text \<open>What loading has established after the instructions \<open>is\<close>.\<close>

definition loads :: "instruction list \<Rightarrow> recording \<Rightarrow> bool" where
  "loads is r \<longleftrightarrow> frame_end r = length (encode_all is)
     \<and> frame_start r = length (encode_all (concat (frames_of is)))
     \<and> length (frames r) = length (frames_of is)
     \<and> (\<forall>k < length (frames r). frame_span (frames_of is) k (frames r ! k))
     \<and> recording_blob r @ blob_bytes (instruction_buffer r) = blob_bytes (encode_all is)
     \<and> \<not> error_encountered r"

lemma blob_bytes_append [simp]: "blob_bytes (s @ t) = blob_bytes s @ blob_bytes t"
  by (simp add: blob_bytes_def)

lemma blob_bytes_Nil [simp]: "blob_bytes [] = []"
  by (simp add: blob_bytes_def)

text \<open>The part of a frame's recording that loading an instruction does not touch.\<close>

lemma load_instruction_fields [simp]:
  "recording_blob (load_instruction i r) = recording_blob r"
  "instruction_buffer (load_instruction i r) = instruction_buffer r"
  "error_encountered (load_instruction i r) = error_encountered r"
  "frame_end (load_instruction i r) = frame_end r + length (encode_instruction i)"
  "frame_start (load_instruction i r) =
     (if fst i = js ''sync'' then frame_end r + length (encode_instruction i) else frame_start r)"
  by (simp_all add: load_instruction_def Let_def rec_event_def instruction_size)

lemma load_instruction_frames:
  "length (frames (load_instruction i r)) = (if fst i = js ''sync'' then Suc (length (frames r)) else length (frames r))"
  "k < length (frames r) \<Longrightarrow> frames (load_instruction i r) ! k = frames r ! k"
  "fst i = js ''sync'' \<Longrightarrow> \<exists>ts b. frames (load_instruction i r) ! length (frames r) =
     (new_frame ts (frame_start r) (frame_end r + length (encode_instruction i)))\<lparr>keyframe := b\<rparr>"
  by (auto simp: load_instruction_def Let_def rec_event_def instruction_size nth_append nth_list_update new_frame_def add.assoc)

lemma buffer_instruction_fields [simp]:
  "frames (buffer_instruction i r) = frames r" "frame_start (buffer_instruction i r) = frame_start r"
  "frame_end (buffer_instruction i r) = frame_end r"
  "error_encountered (buffer_instruction i r) = error_encountered r"
  by (simp_all add: buffer_instruction_def Let_def)

lemma buffer_instruction_blob:
  "recording_blob (buffer_instruction i r) @ blob_bytes (instruction_buffer (buffer_instruction i r)) =
     recording_blob r @ blob_bytes (instruction_buffer r) @ blob_bytes (encode_instruction i)"
  by (simp add: buffer_instruction_def Let_def)

lemma frames_of_snoc:
  "frames_of (is @ [i]) =
     (if fst i = js ''sync'' then frames_of is @ [snd (split_frames is) @ [i]] else frames_of is)"
  by (simp add: frames_of_def split_frames_def add_to_frames_def)

lemma loads_step:
  assumes "loads is r"
  shows "loads (is @ [i]) (handle_instruction i r)"
proof -
  let ?r = "handle_instruction i r" and ?cur = "snd (split_frames is)"
  have len: "length (frames r) = length (frames_of is)" using assms by (simp add: loads_def)
  have all: "concat (frames_of is) @ ?cur = is" using split_frames_concat by (simp add: frames_of_def)
  have blob: "recording_blob ?r @ blob_bytes (instruction_buffer ?r) = blob_bytes (encode_all (is @ [i]))"
    using assms buffer_instruction_blob [of i r] by (simp add: loads_def handle_instruction_def flip: append_assoc)
  have old: "frame_span (frames_of (is @ [i])) k (frames ?r ! k)" if "k < length (frames r)" for k
    using assms that len load_instruction_frames(2) [of k "buffer_instruction i r" i]
    by (simp add: loads_def handle_instruction_def frames_of_snoc frame_span_append)
  show ?thesis
  proof (cases "fst i = js ''sync''")
    case False
    with assms old blob show ?thesis
      by (simp add: loads_def handle_instruction_def frames_of_snoc load_instruction_frames(1))
  next
    case True
    have size: "length (encode_all is) = length (encode_all (concat (frames_of is))) + length (encode_all ?cur)"
      using arg_cong [OF all, of "\<lambda>ins. length (encode_all ins)"] by simp
    have whole: "concat (frames_of (is @ [i])) = is @ [i]"
      using all True by (simp add: frames_of_snoc)
    have "frame_span (frames_of (is @ [i])) (length (frames r)) (frames ?r ! length (frames r))"
      using load_instruction_frames(3) [OF True, of "buffer_instruction i r"] assms whole size len True
      by (auto simp: frame_span_def handle_instruction_def new_frame_def loads_def frames_of_snoc)
    with old have "frame_span (frames_of (is @ [i])) k (frames ?r ! k)" if "k < length (frames ?r)" for k
      using that True by (cases "k = length (frames r)") (auto simp: handle_instruction_def load_instruction_frames(1))
    with assms blob True whole size show ?thesis
      by (simp add: loads_def handle_instruction_def load_instruction_frames(1) frames_of_snoc)
  qed
qed

lemma loads_all: "loads is (loaded is)"
proof (induction "is" rule: rev_induct)
  case Nil
  show ?case by (simp add: loads_def loaded_def new_recording_def frames_of_def split_frames_def)
next
  case (snoc i ins)
  then show ?case using loads_step by (simp add: loaded_def)
qed

subsection \<open>Replaying a frame\<close>

definition ascii :: "jsstring \<Rightarrow> bool" where
  "ascii s = list_all (\<lambda>c. c < 128) s"

lemma ascii_blob: "ascii s \<Longrightarrow> blob_bytes s = s"
  by (induction s) (simp_all add: ascii_def blob_bytes_def utf8_bytes_def)

lemma ascii_append [simp]: "ascii (s @ t) \<longleftrightarrow> ascii s \<and> ascii t"
  by (simp add: ascii_def)

lemma concat_blocks: "concat (blocks b) = b"
proof (induction b rule: blocks.induct)
  case (1 b)
  then show ?case by (cases "b = []") (simp_all add: blocks.simps [of b] blocks.simps [of "[]"])
qed

lemma map_read_blocks:
  assumes "\<And>bs. list_all (\<lambda>b. b < 128) bs \<Longrightarrow> read_as_text bs = bs" and "ascii b"
  shows "map read_as_text (blocks b) = blocks b"
proof (rule map_idI)
  fix x assume "x \<in> set (blocks b)"
  then have "set x \<subseteq> set b" using concat_blocks [of b] by (metis set_concat UN_upper)
  with assms(2) have "list_all (\<lambda>c. c < 128) x" by (auto simp: ascii_def list_all_iff)
  then show "read_as_text x = x" by (rule assms(1))
qed

lemma parse_blob_instructions:
  assumes "\<And>bs. list_all (\<lambda>b. b < 128) bs \<Longrightarrow> read_as_text bs = bs" and "ascii (encode_all is)"
  shows "parse_blob read_as_text (encode_all is) = (is, None)"
proof -
  have "spec_loop [] (Need_length (concat (blocks (encode_all is)))) = (([], Need_length []), is, None)"
    using spec_loop_instructions [of "is" "[]"] by (simp add: concat_blocks spec_loop.simps(2))
  from fresh_parser_refines [OF this] obtain p where "receive_all (blocks (encode_all is)) new_parser = (p, is, None)" by auto
  with map_read_blocks [OF assms] show ?thesis by (simp add: parse_blob_def)
qed

lemma slice_of_frame:
  assumes "frame_span gs k f" and "k < length gs" and "b = encode_all (concat gs @ rest)"
  shows "blob_slice b (start_offset f) (end_offset f) = encode_all (gs ! k)"
proof -
  have "gs = take k gs @ gs ! k # drop (Suc k) gs" using assms(2) by (rule id_take_nth_drop)
  then have "b = encode_all (concat (take k gs)) @ encode_all (gs ! k) @ encode_all (concat (drop (Suc k) gs) @ rest)"
    using assms(3) by (metis (no_types) append.assoc concat.simps(2) concat_append map_append)
  moreover have "end_offset f = start_offset f + length (encode_all (gs ! k))"
    using assms(1,2) by (simp add: frame_span_def take_Suc_conv_app_nth)
  ultimately show ?thesis using assms(1) by (simp add: blob_slice_def frame_span_def)
qed



text \<open>
  A character that is not ASCII shifts the frames after it: offsets count characters, the blob
  is sliced by bytes. Here the second frame begins with the last byte of the first.
\<close>

lemma non_ascii_text_shifts_frames:
  "let r = tunnel_closed (fold handle_instruction
         [(js ''name'', [[0xE9]]), (js ''sync'', [js ''1'']), (js ''sync'', [js ''2''])] new_recording)
   in blob_slice (recording_blob r) (start_offset (frames r ! 1)) (end_offset (frames r ! 1)) = js '';4.sync,1.2''"
  by (simp add: js_eval new_recording_def handle_instruction_def buffer_instruction_def load_instruction_def tunnel_closed_def
      rec_event_def new_frame_def blob_bytes_def utf8_bytes_def blob_slice_def BLOCK_SIZE_def get_element_size_def
      extra_digits.simps becomes_keyframe_def KEYFRAME_CHAR_INTERVAL_def)

subsection \<open>Searching a frame\<close>

definition time_of :: "rec_frame list \<Rightarrow> nat \<Rightarrow> int" where
  "time_of fs i = the (to_relative_timestamp fs (timestamp (fs ! i)))"

definition timed :: "rec_frame list \<Rightarrow> bool" where
  "timed fs \<longleftrightarrow> list_all (\<lambda>f. timestamp f \<noteq> None) fs \<and> sorted (map (\<lambda>f. the (timestamp f)) fs)"

lemma timed_Some: "timed fs \<Longrightarrow> i < length fs \<Longrightarrow> to_relative_timestamp fs (timestamp (fs ! i)) = Some (time_of fs i)"
  by (cases fs) (auto simp: timed_def time_of_def to_relative_timestamp_def num_diff_def list_all_length split: option.splits)

lemma timed_mono:
  assumes "timed fs" and "i \<le> j" and "j < length fs"
  shows "time_of fs i \<le> time_of fs j"
proof -
  have le: "the (timestamp (fs ! i)) \<le> the (timestamp (fs ! j))"
    using assms sorted_nth_mono [of "map (\<lambda>f. the (timestamp f)) fs" i j] by (simp add: timed_def)
  have "\<exists>v. timestamp (fs ! k) = Some v" if "k < length fs" for k
    using assms(1) that by (auto simp: timed_def list_all_length)
  then obtain u v w where "timestamp (fs ! i) = Some u" "timestamp (fs ! j) = Some v" "timestamp (fs ! 0) = Some w"
    using assms(2,3) by (meson le_less_trans zero_le)
  with le assms(3) show ?thesis by (cases fs) (simp_all add: time_of_def to_relative_timestamp_def num_diff_def)
qed

text \<open>Frame \<open>i\<close> lies between frame \<open>r\<close> and the time \<open>ts\<close>, or has that time while \<open>r\<close> has not.\<close>

definition closer :: "rec_frame list \<Rightarrow> nat \<Rightarrow> int \<Rightarrow> nat \<Rightarrow> bool" where
  "closer fs r ts i \<longleftrightarrow> time_of fs r < time_of fs i \<and> time_of fs i \<le> ts
     \<or> ts \<le> time_of fs i \<and> time_of fs i < time_of fs r"

definition nearest :: "rec_frame list \<Rightarrow> nat \<Rightarrow> nat \<Rightarrow> int \<Rightarrow> nat \<Rightarrow> bool" where
  "nearest fs lo hi ts r \<longleftrightarrow> lo \<le> r \<and> r \<le> hi \<and> list_all (\<lambda>i. \<not> closer fs r ts i) [lo..<Suc hi]"

lemma nearestI:
  "lo \<le> r \<Longrightarrow> r \<le> hi \<Longrightarrow> (\<And>i. lo \<le> i \<Longrightarrow> i \<le> hi \<Longrightarrow> \<not> closer fs r ts i) \<Longrightarrow> nearest fs lo hi ts r"
  by (auto simp: nearest_def list_all_iff)

lemma nearestD:
  assumes "nearest fs lo hi ts r"
  shows "lo \<le> r" "r \<le> hi" "lo \<le> i \<Longrightarrow> i \<le> hi \<Longrightarrow> \<not> closer fs r ts i"
  using assms by (auto simp: nearest_def list_all_iff)

lemma nearest_lower:
  assumes "timed fs" and "nearest fs lo (mid - 1) ts r" and "lo < mid" and "mid \<le> hi" and "hi < length fs" and "ts < time_of fs mid"
  shows "nearest fs lo hi ts r"
proof (rule nearestI)
  note n = nearestD [OF assms(2)]
  show "lo \<le> r" "r \<le> hi" using n(1,2) assms(4) by simp_all
  fix i assume i: "lo \<le> i" "i \<le> hi"
  show "\<not> closer fs r ts i"
  proof (cases "i < mid")
    case True
    with n(3) i show ?thesis by simp
  next
    case False
    then have "time_of fs mid \<le> time_of fs i" using timed_mono [OF assms(1)] i assms(5) by simp
    moreover have "time_of fs r \<le> time_of fs mid" using timed_mono [OF assms(1), of r mid] n(2) assms(4,5) by simp
    ultimately show ?thesis using assms(6) by (simp add: closer_def)
  qed
qed

lemma nearest_upper:
  assumes "timed fs" and "nearest fs (mid + 1) hi ts r" and "lo \<le> mid" and "mid < hi" and "hi < length fs" and "time_of fs mid < ts"
  shows "nearest fs lo hi ts r"
proof (rule nearestI)
  note n = nearestD [OF assms(2)]
  show "lo \<le> r" "r \<le> hi" using n(1,2) assms(3) by simp_all
  fix i assume i: "lo \<le> i" "i \<le> hi"
  show "\<not> closer fs r ts i"
  proof (cases "mid < i")
    case True
    with n(3) i show ?thesis by simp
  next
    case False
    then have "time_of fs i \<le> time_of fs mid" using timed_mono [OF assms(1), of i mid] assms(4,5) by simp
    moreover have "time_of fs mid \<le> time_of fs r" using timed_mono [OF assms(1), of mid r] n(1,2) assms(5) by simp
    ultimately show ?thesis using assms(6) by (simp add: closer_def)
  qed
qed

lemma find_frame_nearest_in:
  "timed fs \<Longrightarrow> lo \<le> hi \<Longrightarrow> hi < length fs \<Longrightarrow> nearest fs lo hi ts (find_frame fs lo hi ts)"
proof (induction fs lo hi ts rule: find_frame.induct)
  case (1 fs lo hi ts)
  let ?mid = "(lo + hi) div 2"
  show ?case
  proof (cases "lo = hi")
    case True
    then show ?thesis by (simp add: find_frame.simps [of fs hi] nearest_def closer_def)
  next
    case False
    with "1.prems" have mid: "lo \<le> ?mid" "?mid < hi" by auto
    then have some: "to_relative_timestamp fs (timestamp (fs ! ?mid)) = Some (time_of fs ?mid)"
      using timed_Some "1.prems" by simp
    consider "ts < time_of fs ?mid \<and> lo < ?mid" | "time_of fs ?mid < ts"
      | "ts = time_of fs ?mid \<or> ts < time_of fs ?mid \<and> lo = ?mid" using mid by linarith
    then show ?thesis
    proof cases
      case 1
      with False some mid "1.prems" "1.IH"(1) [OF False refl refl]
      have "nearest fs lo (?mid - 1) ts (find_frame fs lo (?mid - 1) ts)" by auto
      with 1 some False mid "1.prems" nearest_lower [of fs lo ?mid ts _ hi] show ?thesis
        by (simp add: find_frame.simps [of fs lo hi])
    next
      case 2
      with False some mid "1.prems" "1.IH"(2) [OF False refl refl]
      have "nearest fs (?mid + 1) hi ts (find_frame fs (?mid + 1) hi ts)" by auto
      with 2 some False mid "1.prems" nearest_upper [of fs ?mid hi ts _ lo] show ?thesis
        by (simp add: find_frame.simps [of fs lo hi])
    next
      case 3
      have "nearest fs lo hi ts ?mid"
      proof (rule nearestI)
        fix i assume "lo \<le> i" "i \<le> hi"
        then have "time_of fs lo \<le> time_of fs i" using timed_mono [OF "1.prems"(1)] "1.prems"(3) by simp
        with 3 show "\<not> closer fs ?mid ts i" by (auto simp: closer_def)
      qed (use mid in simp_all)
      with 3 some False show ?thesis by (auto simp: find_frame.simps [of fs lo hi])
    qed
  qed
qed

text \<open>
  Seeking finds the frame at a position: in a recording whose timestamps do not decrease
  the search ends at a frame of the recording such that no other frame lies between it and the
  position. If frames have exactly the position's time it is one of them; otherwise it is
  one of the two frames around the position (the nearer or the farther).
\<close>

theorem find_frame_adjacent:
  assumes "timed fs" and "fs \<noteq> []"
  shows "nearest fs 0 (length fs - 1) ts (find_frame fs 0 (length fs - 1) ts)"
  using find_frame_nearest_in [OF assms(1), of 0 "length fs - 1" ts] assms(2) by simp

theorem find_frame_adjacent_witness:
  "nearest [new_frame (Some 50) 0 9, new_frame (Some 150) 9 12] 0 (length [new_frame (Some 50) 0 9, new_frame (Some 150) 9 12] - 1) 10
     (find_frame [new_frame (Some 50) 0 9, new_frame (Some 150) 9 12] 0
       (length [new_frame (Some 50) 0 9, new_frame (Some 150) 9 12] - 1) 10)"
  by (rule find_frame_adjacent) (simp_all add: timed_def new_frame_def)

text \<open>The frame found need not be the closest one: here the position is 10 from the frame not chosen and 90 from the other.\<close>

lemma find_frame_not_closest:
  "find_frame [new_frame (Some 50) 0 9, new_frame (Some 150) 9 12] 0 1 10 = 1
   \<and> time_of [new_frame (Some 50) 0 9, new_frame (Some 150) 9 12] 0 = 0
   \<and> time_of [new_frame (Some 50) 0 9, new_frame (Some 150) 9 12] 1 = 100"
  by (simp add: find_frame.simps to_relative_timestamp_def num_diff_def new_frame_def time_of_def)

end
