(* ===== verification/Guac_Playback.thy ===== *)
theory Guac_Playback
  imports Guac_Recording
begin

section \<open>Guacamole.SessionRecording: playback\<close>

text \<open>
  Playing a recording and seeking in it. A seek goes back to the current frame or to a stored
  state of the display and replays the frames from there, one asynchronous read per frame.

  The display is represented by \<open>screen\<close>, the frames whose instructions it has received since it
  was blank; the stored state of a frame is such a list as well. What the browser still has to
  deliver is the list \<open>pending\<close>, whose entries can be delivered in any order: a frame being read,
  a stored state being read, a timeout, and a state being exported. A seek object is its number
  \<open>seek_id\<close>; the variables its closures share are its fields. The calls of the application's
  callbacks are recorded in \<open>pb_events\<close>. Importing a state cancels the display, and with it the
  exports that wait for it.
\<close>

subsection \<open>State\<close>

text \<open>What a finished seek calls: the restored playback state of \<^verbatim>\<open>seek\<close>, or the next frame of a playback.\<close>

datatype seek_done = Restore bool | Frame_elapsed

record seek_op =
  seek_id :: nat
  seek_index :: int
  start_index :: int
  when_done :: seek_done
  next_real_timestamp :: jsnum

datatype pending_op =
  Reading nat seek_op
| Importing nat "nat list" seek_op
| Waiting int seek_op
| Exporting nat "nat list"

datatype pb_callback = On_play | On_pause | On_seek int int | Seek_finished | Read_error

record playback =
  pb_frames :: "rec_frame list"
  current_frame :: int
  screen :: "nat list"
  start_video_timestamp :: jsnum
  start_real_timestamp :: jsnum
  next_seek :: nat
  active_seek :: "nat option"
  aborted_seeks :: "nat list"
  seek_callback :: "bool option"
  pending :: "pending_op list"
  pb_events :: "pb_callback list"

definition new_playback :: "rec_frame list \<Rightarrow> playback" where
  "new_playback fs = \<lparr>pb_frames = fs, current_frame = -1, screen = [], start_video_timestamp = None,
     start_real_timestamp = None, next_seek = 0, active_seek = None, aborted_seeks = [],
     seek_callback = None, pending = [], pb_events = []\<rparr>"

definition pb_event :: "pb_callback \<Rightarrow> playback \<Rightarrow> playback" where
  "pb_event ev pb = pb\<lparr>pb_events := pb_events pb @ [ev]\<rparr>"

definition await :: "pending_op \<Rightarrow> playback \<Rightarrow> playback" where
  "await p pb = pb\<lparr>pending := pending pb @ [p]\<rparr>"

definition is_playing :: "playback \<Rightarrow> bool" where
  "is_playing pb \<longleftrightarrow> start_video_timestamp pb \<noteq> None \<and> start_video_timestamp pb \<noteq> Some 0"

definition get_position :: "playback \<Rightarrow> jsnum" where
  "get_position pb =
     (if current_frame pb = -1 then Some 0
      else to_relative_timestamp (pb_frames pb) (timestamp (pb_frames pb ! nat (current_frame pb))))"

subsection \<open>Seeking\<close>

definition abort_seek :: "playback \<Rightarrow> playback" where
  "abort_seek pb =
     (case active_seek pb of
        None \<Rightarrow> pb
      | Some n \<Rightarrow> pb\<lparr>aborted_seeks := n # aborted_seeks pb, active_seek := None\<rparr>)"

definition pause :: "playback \<Rightarrow> playback" where
  "pause pb =
     (let pb1 = abort_seek pb
      in if is_playing pb1
         then (pb_event On_pause pb1)\<lparr>start_video_timestamp := None, start_real_timestamp := None\<rparr> else pb1)"

definition replay_frame :: "nat \<Rightarrow> seek_op \<Rightarrow> playback \<Rightarrow> playback" where
  "replay_frame k sk pb = await (Reading k sk) pb"

text \<open>\<open>finish\<close> is what the callback of the seek does.\<close>

definition continue_replay :: "(seek_done \<Rightarrow> playback \<Rightarrow> playback) \<Rightarrow> seek_op \<Rightarrow> playback \<Rightarrow> playback" where
  "continue_replay finish sk pb =
     (let pb1 = (if current_frame pb > start_index sk
                 then pb_event (On_seek (current_frame pb - start_index sk) (seek_index sk - start_index sk)) pb else pb)
      in if seek_id sk \<in> set (aborted_seeks pb1) then pb1
         else if current_frame pb1 < seek_index sk then replay_frame (nat (current_frame pb1 + 1)) sk pb1
         else finish (when_done sk) pb1)"

definition continue_after_required_delay ::
  "(seek_done \<Rightarrow> playback \<Rightarrow> playback) \<Rightarrow> int \<Rightarrow> seek_op \<Rightarrow> playback \<Rightarrow> playback" where
  "continue_after_required_delay finish now sk pb =
     (let delay = (case next_real_timestamp sk of None \<Rightarrow> 0 | Some t \<Rightarrow> if t = 0 then 0 else max (t - now) 0)
      in if delay \<noteq> 0 then await (Waiting (now + delay) sk) pb else continue_replay finish sk pb)"

text \<open>The search of \<^verbatim>\<open>seekToFrame\<close> from index \<open>n - 1\<close> down; -1 if nothing was found.\<close>

fun back_up :: "rec_frame list \<Rightarrow> int \<Rightarrow> nat \<Rightarrow> int \<times> nat list option" where
  "back_up fs current 0 = (-1, None)"
| "back_up fs current (Suc n) =
     (if int n = current then (int n, None)
      else (case client_state (fs ! n) of Some c \<Rightarrow> (int n, Some c) | None \<Rightarrow> back_up fs current n))"

definition seek_to_frame ::
  "(seek_done \<Rightarrow> playback \<Rightarrow> playback) \<Rightarrow> int \<Rightarrow> nat \<Rightarrow> seek_done \<Rightarrow> jsnum \<Rightarrow> playback \<Rightarrow> playback" where
  "seek_to_frame finish now index sdone real pb =
     (let pb1 = abort_seek pb;
          (start, stored) = back_up (pb_frames pb1) (current_frame pb1) (Suc index);
          sk = \<lparr>seek_id = next_seek pb1, seek_index = int index, start_index = start, when_done = sdone,
                next_real_timestamp = real\<rparr>;
          pb2 = pb1\<lparr>active_seek := Some (next_seek pb1), next_seek := next_seek pb1 + 1\<rparr>
      in case stored of
           Some c \<Rightarrow> await (Importing (nat start) c sk) pb2
         | None \<Rightarrow> continue_after_required_delay finish now sk pb2)"

subsection \<open>Playing\<close>

text \<open>
  The seek to the frame after the current one is never finished at once, so its callback is not
  needed here.
\<close>

definition continue_playback :: "int \<Rightarrow> playback \<Rightarrow> playback" where
  "continue_playback now pb =
     (if current_frame pb + 1 < int (length (pb_frames pb)) then
        (let next = pb_frames pb ! nat (current_frame pb + 1);
             real = (case num_diff (timestamp next) (start_video_timestamp pb) of
                       None \<Rightarrow> None
                     | Some t \<Rightarrow> (case start_real_timestamp pb of None \<Rightarrow> None | Some r \<Rightarrow> Some (t + r)))
         in seek_to_frame (\<lambda>d pb. pb) now (nat (current_frame pb + 1)) Frame_elapsed real pb)
      else pause pb)"

definition play :: "int \<Rightarrow> playback \<Rightarrow> playback" where
  "play now pb =
     (if \<not> is_playing pb \<and> current_frame pb + 1 < int (length (pb_frames pb)) then
        (let next = pb_frames pb ! nat (current_frame pb + 1)
         in continue_playback now
              ((pb_event On_play pb)\<lparr>start_video_timestamp := timestamp next, start_real_timestamp := Some now\<rparr>))
      else pb)"

definition restore_playback_state :: "int \<Rightarrow> bool \<Rightarrow> playback \<Rightarrow> playback" where
  "restore_playback_state now originally_playing pb =
     (let pb1 = pb\<lparr>seek_callback := None\<rparr>;
          pb2 = (if originally_playing then play now pb1 else pb1)
      in pb_event Seek_finished pb2)"

fun finish :: "int \<Rightarrow> seek_done \<Rightarrow> playback \<Rightarrow> playback" where
  "finish now (Restore orig) pb = restore_playback_state now orig pb"
| "finish now Frame_elapsed pb = continue_playback now pb"

definition cancel :: "int \<Rightarrow> playback \<Rightarrow> playback" where
  "cancel now pb =
     (case seek_callback pb of None \<Rightarrow> pb | Some orig \<Rightarrow> restore_playback_state now orig (abort_seek pb))"

definition seek :: "int \<Rightarrow> int \<Rightarrow> playback \<Rightarrow> playback" where
  "seek now position pb =
     (if pb_frames pb = [] then pb
      else
        (let pb1 = cancel now pb; originally_playing = is_playing pb1; pb2 = pause pb1;
             pb3 = pb2\<lparr>seek_callback := Some originally_playing\<rparr>
         in seek_to_frame (finish now) now (find_frame (pb_frames pb3) 0 (length (pb_frames pb3) - 1) position)
              (Restore originally_playing) None pb3))"

subsection \<open>What the browser delivers\<close>

definition drop_pending :: "nat \<Rightarrow> playback \<Rightarrow> playback" where
  "drop_pending j pb = pb\<lparr>pending := take j (pending pb) @ drop (Suc j) (pending pb)\<rparr>"

definition replay_completed :: "int \<Rightarrow> nat \<Rightarrow> seek_op \<Rightarrow> playback \<Rightarrow> playback" where
  "replay_completed now k sk pb =
     (let pb1 = pb\<lparr>screen := screen pb @ [k]\<rparr>; f = pb_frames pb1 ! k;
          pb2 = (if keyframe f \<and> client_state f = None then await (Exporting k (screen pb1)) pb1 else pb1)
      in continue_replay (finish now) sk (pb2\<lparr>current_frame := int k\<rparr>))"

fun is_export :: "pending_op \<Rightarrow> bool" where
  "is_export (Exporting k c) = True"
| "is_export _ = False"

definition text_ready :: "int \<Rightarrow> nat \<Rightarrow> nat list \<Rightarrow> seek_op \<Rightarrow> playback \<Rightarrow> playback" where
  "text_ready now k c sk pb =
     continue_after_required_delay (finish now) now sk
       (pb\<lparr>pending := filter (\<lambda>p. \<not> is_export p) (pending pb), screen := c, current_frame := int k\<rparr>)"

definition store_client_state :: "nat \<Rightarrow> nat list \<Rightarrow> playback \<Rightarrow> playback" where
  "store_client_state k c pb =
     pb\<lparr>pb_frames := (pb_frames pb)[k := (pb_frames pb ! k)\<lparr>client_state := Some c\<rparr>]\<rparr>"

definition deliver :: "int \<Rightarrow> nat \<Rightarrow> playback \<Rightarrow> playback" where
  "deliver now j pb =
     (if j < length (pending pb) then
        (case pending pb ! j of
           Reading k sk \<Rightarrow> replay_completed now k sk (drop_pending j pb)
         | Importing k c sk \<Rightarrow> text_ready now k c sk (drop_pending j pb)
         | Waiting t sk \<Rightarrow> continue_replay (finish now) sk (drop_pending j pb)
         | Exporting k c \<Rightarrow> store_client_state k c (drop_pending j pb))
      else pb)"

text \<open>A frame that cannot be parsed ends its seek with an error.\<close>

definition deliver_error :: "nat \<Rightarrow> playback \<Rightarrow> playback" where
  "deliver_error j pb =
     (if j < length (pending pb) \<and> (\<exists>k sk. pending pb ! j = Reading k sk)
      then pb_event Read_error (drop_pending j pb) else pb)"

subsection \<open>Runs of a playback\<close>

text \<open>
  \<open>busy\<close> operations will change the display when they are delivered, whether their seek was
  aborted or not. The application may pause at any time and the browser may deliver anything at
  any time; a playback or a seek is begun while nothing is busy, and no seek is begun while an
  unfinished one still has to resume playback.
\<close>

fun busy :: "pending_op \<Rightarrow> bool" where
  "busy (Reading k sk) = True"
| "busy (Importing k c sk) = True"
| "busy _ = False"

definition at_rest :: "playback \<Rightarrow> bool" where
  "at_rest pb \<longleftrightarrow> list_all (\<lambda>p. \<not> busy p) (pending pb)"

inductive pb_step :: "playback \<Rightarrow> playback \<Rightarrow> bool" where
  pause_step: "pb_step pb (pause pb)"
| play_step: "at_rest pb \<Longrightarrow> pb_step pb (play now pb)"
| seek_step: "at_rest pb \<Longrightarrow> seek_callback pb \<noteq> Some True \<Longrightarrow> pb_step pb (seek now position pb)"
| cancel_step: "at_rest pb \<Longrightarrow> pb_step pb (cancel now pb)"
| deliver_step: "pb_step pb (deliver now j pb)"

subsection \<open>The display shows the frames up to the current one\<close>

fun op_seek :: "pending_op \<Rightarrow> seek_op option" where
  "op_seek (Reading k sk) = Some sk"
| "op_seek (Importing k c sk) = Some sk"
| "op_seek (Waiting t sk) = Some sk"
| "op_seek (Exporting k c) = None"

text \<open>At most one pending operation belongs to the active seek or is \<open>busy\<close>.\<close>

definition engaged :: "playback \<Rightarrow> pending_op \<Rightarrow> bool" where
  "engaged pb p \<longleftrightarrow> busy p \<or> (\<exists>sk. op_seek p = Some sk \<and> active_seek pb = Some (seek_id sk))"

definition seek_ok :: "playback \<Rightarrow> seek_op \<Rightarrow> bool" where
  "seek_ok pb sk \<longleftrightarrow> seek_index sk < int (length (pb_frames pb)) \<and> seek_id sk < next_seek pb
     \<and> (seek_id sk \<in> set (aborted_seeks pb) \<or> active_seek pb = Some (seek_id sk))"

fun op_ok :: "playback \<Rightarrow> pending_op \<Rightarrow> bool" where
  "op_ok pb (Reading k sk) \<longleftrightarrow> int k = current_frame pb + 1 \<and> k < length (pb_frames pb) \<and> seek_ok pb sk"
| "op_ok pb (Importing k c sk) \<longleftrightarrow> c = [0..<Suc k] \<and> k < length (pb_frames pb) \<and> seek_ok pb sk"
| "op_ok pb (Waiting t sk) \<longleftrightarrow> seek_ok pb sk"
| "op_ok pb (Exporting k c) \<longleftrightarrow> c = [0..<Suc k] \<and> k < length (pb_frames pb)"

definition stored_ok :: "rec_frame list \<Rightarrow> bool" where
  "stored_ok fs \<longleftrightarrow> (\<forall>k<length fs. \<forall>c. client_state (fs ! k) = Some c \<longrightarrow> c = [0..<Suc k])"

definition playback_ok :: "playback \<Rightarrow> bool" where
  "playback_ok pb \<longleftrightarrow>
     -1 \<le> current_frame pb \<and> current_frame pb < int (length (pb_frames pb))
     \<and> screen pb = [0..<nat (current_frame pb + 1)] \<and> stored_ok (pb_frames pb)
     \<and> (\<forall>p \<in> set (pending pb). op_ok pb p)
     \<and> length (filter (engaged pb) (pending pb)) \<le> 1
     \<and> (\<forall>n. active_seek pb = Some n \<longrightarrow> n < next_seek pb \<and> n \<notin> set (aborted_seeks pb))
     \<and> (\<forall>n \<in> set (aborted_seeks pb). n < next_seek pb)"

definition quiet :: "playback \<Rightarrow> bool" where
  "quiet pb \<longleftrightarrow> playback_ok pb \<and> (\<forall>p \<in> set (pending pb). \<not> engaged pb p)"

lemma quietD: "quiet pb \<Longrightarrow> playback_ok pb"
  by (simp add: quiet_def)

lemma op_ok_cong:
  assumes "current_frame pb' = current_frame pb" "length (pb_frames pb') = length (pb_frames pb)"
    "next_seek pb' = next_seek pb" "aborted_seeks pb' = aborted_seeks pb" "active_seek pb' = active_seek pb"
  shows "op_ok pb' p = op_ok pb p" and "engaged pb' p = engaged pb p"
  using assms by (cases p; simp add: seek_ok_def engaged_def)+

lemma op_ok_unengaged:
  assumes "op_ok pb p" "\<not> engaged pb p" "length (pb_frames pb') = length (pb_frames pb)"
    "next_seek pb \<le> next_seek pb'" "set (aborted_seeks pb) \<subseteq> set (aborted_seeks pb')"
  shows "op_ok pb' p"
  using assms by (cases p) (auto simp: seek_ok_def engaged_def)

text \<open>Everything but the listed fields is irrelevant to the invariant.\<close>

lemma playback_ok_cong:
  assumes "current_frame pb' = current_frame pb" "pb_frames pb' = pb_frames pb" "screen pb' = screen pb"
    "next_seek pb' = next_seek pb" "aborted_seeks pb' = aborted_seeks pb" "active_seek pb' = active_seek pb"
    "pending pb' = pending pb"
  shows "playback_ok pb' = playback_ok pb" and "quiet pb' = quiet pb"
proof -
  have "op_ok pb' = op_ok pb" "engaged pb' = engaged pb"
    using assms op_ok_cong [of pb' pb] by auto
  then show ok: "playback_ok pb' = playback_ok pb" and "quiet pb' = quiet pb"
    unfolding quiet_def playback_ok_def using assms by simp_all
qed

lemma ok_updates [simp]:
  "playback_ok (pb\<lparr>start_video_timestamp := a\<rparr>) = playback_ok pb"
  "playback_ok (pb\<lparr>start_real_timestamp := a\<rparr>) = playback_ok pb"
  "playback_ok (pb\<lparr>seek_callback := o1\<rparr>) = playback_ok pb"
  "playback_ok (pb_event ev pb) = playback_ok pb"
  "quiet (pb\<lparr>start_video_timestamp := a\<rparr>) = quiet pb"
  "quiet (pb\<lparr>start_real_timestamp := a\<rparr>) = quiet pb"
  "quiet (pb\<lparr>seek_callback := o1\<rparr>) = quiet pb"
  "quiet (pb_event ev pb) = quiet pb"
  by (rule playback_ok_cong; simp add: pb_event_def)+

lemma pb_event_sel [simp]:
  "current_frame (pb_event ev pb) = current_frame pb" "pb_frames (pb_event ev pb) = pb_frames pb"
  "pending (pb_event ev pb) = pending pb" "screen (pb_event ev pb) = screen pb"
  "aborted_seeks (pb_event ev pb) = aborted_seeks pb" "active_seek (pb_event ev pb) = active_seek pb"
  "next_seek (pb_event ev pb) = next_seek pb" "seek_callback (pb_event ev pb) = seek_callback pb"
  by (simp_all add: pb_event_def)

lemma await_ok:
  assumes "quiet pb" "op_ok pb p"
  shows "playback_ok (await p pb)"
proof -
  have "op_ok (await p pb) = op_ok pb" "engaged (await p pb) = engaged pb"
    using op_ok_cong [of "await p pb" pb] by (auto simp: await_def)
  moreover have "filter (engaged pb) (pending pb) = []"
    using assms(1) by (simp add: quiet_def filter_empty_conv)
  ultimately show ?thesis
    using assms unfolding playback_ok_def quiet_def by (auto simp: await_def)
qed

lemma await_export:
  assumes "quiet pb" "k < length (pb_frames pb)"
  shows "quiet (await (Exporting k [0..<Suc k]) pb)"
proof -
  have "op_ok (await p pb) = op_ok pb" "engaged (await p pb) = engaged pb" for p
    using op_ok_cong [of "await p pb" pb] by (auto simp: await_def)
  moreover have "\<not> engaged pb (Exporting k [0..<Suc k])" "op_ok pb (Exporting k [0..<Suc k])"
    using assms(2) by (simp_all add: engaged_def)
  moreover have "playback_ok (await (Exporting k [0..<Suc k]) pb)"
    using assms by (intro await_ok) auto
  ultimately show ?thesis
    using assms(1) unfolding quiet_def by (auto simp: await_def)
qed

lemma abort_seek_sel [simp]:
  "current_frame (abort_seek pb) = current_frame pb" "pb_frames (abort_seek pb) = pb_frames pb"
  "pending (abort_seek pb) = pending pb" "screen (abort_seek pb) = screen pb"
  "next_seek (abort_seek pb) = next_seek pb" "active_seek (abort_seek pb) = None"
  "seek_callback (abort_seek pb) = seek_callback pb"
  by (auto simp: abort_seek_def split: option.splits)

lemma aborted_abort_seek:
  "set (aborted_seeks (abort_seek pb)) = set (aborted_seeks pb) \<union> set_option (active_seek pb)"
  by (auto simp: abort_seek_def split: option.splits)

lemma engaged_abort_seek: "engaged (abort_seek pb) p \<longleftrightarrow> busy p"
  by (simp add: engaged_def)

lemma op_ok_abort_seek: "op_ok pb p \<Longrightarrow> op_ok (abort_seek pb) p"
  by (cases p) (auto simp: seek_ok_def aborted_abort_seek)

lemma filter_length_le: "(\<And>x. P x \<Longrightarrow> Q x) \<Longrightarrow> length (filter P xs) \<le> length (filter Q xs)"
  by (induction xs) auto

lemma abort_seek_ok:
  assumes "playback_ok pb"
  shows "playback_ok (abort_seek pb)"
proof -
  have "length (filter (engaged (abort_seek pb)) (pending pb)) \<le> length (filter (engaged pb) (pending pb))"
    by (rule filter_length_le) (simp add: engaged_abort_seek, simp add: engaged_def)
  then have "length (filter (engaged (abort_seek pb)) (pending pb)) \<le> 1"
    using assms unfolding playback_ok_def by linarith
  then show ?thesis
    using assms unfolding playback_ok_def by (auto simp: aborted_abort_seek op_ok_abort_seek)
qed

lemma abort_seek_quiet:
  assumes "playback_ok pb" "at_rest pb"
  shows "quiet (abort_seek pb)"
  using abort_seek_ok [OF assms(1)] assms(2) by (auto simp: quiet_def engaged_abort_seek at_rest_def list_all_iff)

lemma pause_ok: "playback_ok pb \<Longrightarrow> playback_ok (pause pb)"
  by (simp add: pause_def Let_def abort_seek_ok)

lemma quiet_at_rest: "quiet pb \<Longrightarrow> at_rest pb"
  by (auto simp: quiet_def engaged_def at_rest_def list_all_iff)

lemma pause_quiet: "playback_ok pb \<Longrightarrow> at_rest pb \<Longrightarrow> quiet (pause pb)"
  by (simp add: pause_def Let_def abort_seek_quiet)

text \<open>Beginning a seek: the state in which its first operation is scheduled.\<close>

definition begun :: "playback \<Rightarrow> playback" where
  "begun pb = (abort_seek pb)\<lparr>active_seek := Some (next_seek pb), next_seek := next_seek pb + 1\<rparr>"

lemma begun_quiet:
  assumes "playback_ok pb" "at_rest pb"
  shows "quiet (begun pb)"
proof -
  let ?q = "abort_seek pb"
  have q: "quiet ?q"
    using assms by (rule abort_seek_quiet)
  have idle: "\<not> engaged ?q p" "op_ok ?q p" if "p \<in> set (pending pb)" for p
    using q that by (auto simp: quiet_def playback_ok_def)
  have ne: "\<not> engaged (begun pb) p" if "p \<in> set (pending pb)" for p
    using idle [OF that] by (cases p) (auto simp: engaged_def begun_def seek_ok_def)
  moreover have "op_ok (begun pb) p" if "p \<in> set (pending pb)" for p
    by (rule op_ok_unengaged [OF idle(2) [OF that] idle(1) [OF that]]) (auto simp: begun_def)
  moreover have "filter (engaged (begun pb)) (pending pb) = []"
    using ne by (simp add: filter_empty_conv)
  ultimately show ?thesis
    using q unfolding quiet_def playback_ok_def
    by (auto simp: begun_def aborted_abort_seek less_Suc_eq)
qed

lemma begun_sel [simp]:
  "current_frame (begun pb) = current_frame pb" "pb_frames (begun pb) = pb_frames pb" "pending (begun pb) = pending pb"
  "screen (begun pb) = screen pb" "active_seek (begun pb) = Some (next_seek pb)" "next_seek (begun pb) = next_seek pb + 1"
  "seek_callback (begun pb) = seek_callback pb"
  by (simp_all add: begun_def)

lemma back_up_stored: "back_up fs cur n = (i, Some c) \<Longrightarrow> 0 \<le> i \<and> nat i < n \<and> client_state (fs ! nat i) = Some c"
  by (induction fs cur n rule: back_up.induct) (auto split: if_splits option.splits)

lemma continue_replay_ok:
  assumes ok: "playback_ok pb" and sk: "seek_ok pb sk"
    and live: "seek_id sk \<notin> set (aborted_seeks pb) \<Longrightarrow> quiet pb"
    and fin: "\<And>q d. quiet q \<Longrightarrow> playback_ok (fin d q)"
  shows "playback_ok (continue_replay fin sk pb)"
proof -
  have read: "playback_ok (await (Reading (nat (current_frame q + 1)) sk) q)"
    if "quiet q" "seek_ok q sk" "current_frame q < seek_index sk" for q
    using that by (intro await_ok) (auto simp: quiet_def playback_ok_def seek_ok_def)
  have "seek_ok (pb_event ev pb) sk = seek_ok pb sk" for ev
    by (simp add: seek_ok_def)
  then have "playback_ok (await (Reading (nat (current_frame pb + 1)) sk) (pb_event ev pb))"
    if "quiet pb" "current_frame pb < seek_index sk" for ev
    using read [of "pb_event ev pb"] sk that by simp
  then show ?thesis
    using ok sk live fin read by (simp add: continue_replay_def Let_def replay_frame_def)
qed

lemma continue_after_required_delay_ok:
  assumes "quiet pb" "seek_ok pb sk" "\<And>q d. quiet q \<Longrightarrow> playback_ok (fin d q)"
  shows "playback_ok (continue_after_required_delay fin now sk pb)"
  using assms continue_replay_ok [OF quietD assms(2) _ assms(3)] await_ok [OF assms(1)]
  by (simp add: continue_after_required_delay_def Let_def split: option.splits)

lemma seek_to_frame_begun:
  assumes "back_up (pb_frames pb) (current_frame pb) (Suc index) = (start, stored)"
  shows "seek_to_frame fin now index sdone real pb =
    (let sk = \<lparr>seek_id = next_seek pb, seek_index = int index, start_index = start, when_done = sdone,
               next_real_timestamp = real\<rparr>
     in case stored of
          Some c \<Rightarrow> await (Importing (nat start) c sk) (begun pb)
        | None \<Rightarrow> continue_after_required_delay fin now sk (begun pb))"
  using assms unfolding seek_to_frame_def begun_def Let_def abort_seek_sel
  by (cases stored) (simp_all del: back_up.simps)

lemma seek_to_frame_ok:
  assumes ok: "playback_ok pb" "at_rest pb" and index: "index < length (pb_frames pb)"
    and fin: "\<And>q d. quiet q \<Longrightarrow> playback_ok (fin d q)"
  shows "playback_ok (seek_to_frame fin now index sdone real pb)"
proof -
  obtain start stored where bu: "back_up (pb_frames pb) (current_frame pb) (Suc index) = (start, stored)"
    by fastforce
  let ?sk = "\<lparr>seek_id = next_seek pb, seek_index = int index, start_index = start, when_done = sdone,
              next_real_timestamp = real\<rparr>"
  have q: "quiet (begun pb)" and sk: "seek_ok (begun pb) ?sk"
    using begun_quiet [OF ok] index by (simp_all add: seek_ok_def)
  have "playback_ok (await (Importing (nat start) c ?sk) (begun pb))" if "stored = Some c" for c
  proof -
    have "nat start < length (pb_frames pb)" "client_state (pb_frames pb ! nat start) = Some c"
      using back_up_stored [of "pb_frames pb" "current_frame pb" "Suc index" start c] bu that index by auto
    then have "op_ok (begun pb) (Importing (nat start) c ?sk)"
      using ok(1) sk by (simp add: playback_ok_def stored_ok_def)
    then show ?thesis
      by (rule await_ok [OF q])
  qed
  moreover have "playback_ok (continue_after_required_delay fin now ?sk (begun pb))"
    by (rule continue_after_required_delay_ok [OF q sk fin])
  ultimately show ?thesis
    by (simp add: seek_to_frame_begun [OF bu] Let_def split: option.splits)
qed

lemma find_frame_bounds: "lo \<le> hi \<Longrightarrow> lo \<le> find_frame fs lo hi ts \<and> find_frame fs lo hi ts \<le> hi"
proof (induction fs lo hi ts rule: find_frame.induct)
  case (1 fs lo hi ts)
  let ?mid = "(lo + hi) div 2" and ?ts = "to_relative_timestamp fs (timestamp (fs ! ((lo + hi) div 2)))"
  let ?below = "(case ?ts of None \<Rightarrow> False | Some m \<Rightarrow> ts < m) \<and> ?mid > lo"
  let ?above = "(case ?ts of None \<Rightarrow> False | Some m \<Rightarrow> ts > m) \<and> ?mid < hi"
  have eq: "find_frame fs lo hi ts = (if lo = hi then lo else if ?below then find_frame fs lo (?mid - 1) ts
      else if ?above then find_frame fs (?mid + 1) hi ts else ?mid)"
    by (subst find_frame.simps) (simp only: Let_def)
  consider "lo = hi" | "lo \<noteq> hi" ?below | "lo \<noteq> hi" "\<not> ?below" ?above | "lo \<noteq> hi" "\<not> ?below" "\<not> ?above"
    by blast
  then show ?case
  proof cases
    case 1
    then show ?thesis
      unfolding eq [unfolded if_P [OF 1]] by simp
  next
    case 2
    then have "lo \<le> find_frame fs lo (?mid - 1) ts \<and> find_frame fs lo (?mid - 1) ts \<le> ?mid - 1"
      using 1(1) [OF _ refl refl] by fastforce
    then show ?thesis
      unfolding eq [unfolded if_not_P [OF 2(1)] if_P [OF 2(2)]] using 1(3) by linarith
  next
    case 3
    then have "?mid + 1 \<le> find_frame fs (?mid + 1) hi ts \<and> find_frame fs (?mid + 1) hi ts \<le> hi"
      using 1(2) [OF _ refl refl] by fastforce
    then show ?thesis
      unfolding eq [unfolded if_not_P [OF 3(1)] if_not_P [OF 3(2)] if_P [OF 3(3)]] using 3(3) by linarith
  next
    case 4
    then show ?thesis
      unfolding eq [unfolded if_not_P [OF 4(1)] if_not_P [OF 4(2)] if_not_P [OF 4(3)]] using 1(3) by linarith
  qed
qed

lemma continue_playback_ok:
  assumes "playback_ok pb" "at_rest pb"
  shows "playback_ok (continue_playback now pb)"
proof -
  have "-1 \<le> current_frame pb"
    using assms(1) by (simp add: playback_ok_def)
  then show ?thesis
    using assms by (simp add: continue_playback_def Let_def pause_ok seek_to_frame_ok quietD)
qed

lemma play_ok: "playback_ok pb \<Longrightarrow> at_rest pb \<Longrightarrow> playback_ok (play now pb)"
  by (simp add: play_def Let_def continue_playback_ok at_rest_def)

lemma restore_playback_state_ok:
  "playback_ok pb \<Longrightarrow> at_rest pb \<Longrightarrow> playback_ok (restore_playback_state now orig pb)"
  by (simp add: restore_playback_state_def Let_def play_ok at_rest_def)

lemma finish_ok: "quiet pb \<Longrightarrow> playback_ok (finish now d pb)"
  by (cases d) (simp_all add: restore_playback_state_ok continue_playback_ok quietD quiet_at_rest)

lemma cancel_ok: "playback_ok pb \<Longrightarrow> at_rest pb \<Longrightarrow> playback_ok (cancel now pb)"
  by (simp add: cancel_def restore_playback_state_ok abort_seek_ok at_rest_def split: option.splits)

lemma cancel_at_rest:
  assumes "at_rest pb" "seek_callback pb \<noteq> Some True"
  shows "at_rest (cancel now pb)"
  using assms by (cases "seek_callback pb") (auto simp: cancel_def restore_playback_state_def at_rest_def)

lemma seek_ok_step:
  assumes ok: "playback_ok pb" and rest: "at_rest pb" and orig: "seek_callback pb \<noteq> Some True"
  shows "playback_ok (seek now position pb)"
proof (cases "pb_frames pb = []")
  case False
  let ?c = "cancel now pb"
  let ?p = "(pause ?c)\<lparr>seek_callback := Some (is_playing ?c)\<rparr>"
  have p: "quiet ?p"
    using pause_quiet [OF cancel_ok [OF ok rest] cancel_at_rest [OF rest orig]] by simp
  have fs: "pb_frames ?p = pb_frames pb"
    using orig by (cases "seek_callback pb")
      (auto simp: pause_def Let_def cancel_def restore_playback_state_def)
  have "find_frame (pb_frames ?p) 0 (length (pb_frames ?p) - 1) position < length (pb_frames ?p)"
    using find_frame_bounds [of 0 "length (pb_frames ?p) - 1" "pb_frames ?p" position] fs False
    by (cases "pb_frames pb") auto
  then show ?thesis
    using False seek_to_frame_ok [OF quietD [OF p] quiet_at_rest [OF p]] finish_ok
    by (simp add: seek_def Let_def)
qed (simp add: seek_def ok)

subsection \<open>Deliveries\<close>

lemma drop_pending_set: "set (pending (drop_pending j pb)) \<subseteq> set (pending pb)"
  by (auto simp: drop_pending_def dest: in_set_takeD in_set_dropD)

lemma drop_pending_sel [simp]:
  "current_frame (drop_pending j pb) = current_frame pb" "pb_frames (drop_pending j pb) = pb_frames pb"
  "screen (drop_pending j pb) = screen pb" "next_seek (drop_pending j pb) = next_seek pb"
  "active_seek (drop_pending j pb) = active_seek pb" "aborted_seeks (drop_pending j pb) = aborted_seeks pb"
  "seek_callback (drop_pending j pb) = seek_callback pb"
  by (simp_all add: drop_pending_def)

lemma filter_take_drop:
  assumes "j < length xs"
  shows "length (filter P (take j xs @ drop (Suc j) xs)) = length (filter P xs) - (if P (xs ! j) then 1 else 0)"
proof -
  have "xs = take j xs @ xs ! j # drop (Suc j) xs"
    using assms by (rule id_take_nth_drop)
  then have "length (filter P xs) = length (filter P (take j xs @ xs ! j # drop (Suc j) xs))"
    by simp
  then show ?thesis
    by simp
qed

lemma drop_pending_ok:
  assumes ok: "playback_ok pb" and j: "j < length (pending pb)"
  shows "playback_ok (drop_pending j pb)" and "engaged pb (pending pb ! j) \<Longrightarrow> quiet (drop_pending j pb)"
proof -
  let ?d = "drop_pending j pb"
  have same: "op_ok ?d = op_ok pb" "engaged ?d = engaged pb"
    using op_ok_cong [of ?d pb] by auto
  have len: "length (filter (engaged pb) (pending ?d))
      = length (filter (engaged pb) (pending pb)) - (if engaged pb (pending pb ! j) then 1 else 0)"
    using filter_take_drop [OF j] by (simp add: drop_pending_def)
  moreover have "length (filter (engaged pb) (pending pb)) \<le> 1"
    using ok by (simp add: playback_ok_def)
  ultimately have le: "length (filter (engaged pb) (pending ?d)) \<le> 1"
    by simp
  have sub: "set (pending ?d) \<subseteq> set (pending pb)"
    by (rule drop_pending_set)
  show ok': "playback_ok ?d"
    using ok le sub unfolding playback_ok_def same by auto
  assume "engaged pb (pending pb ! j)"
  then have "filter (engaged pb) (pending ?d) = []"
    using len ok by (simp add: playback_ok_def)
  then show "quiet ?d"
    using ok' by (simp add: quiet_def same filter_empty_conv)
qed

text \<open>In a quiet state the display can be moved to another frame.\<close>

lemma quiet_moved:
  assumes "quiet pb" "k < length (pb_frames pb)"
  shows "quiet (pb\<lparr>screen := [0..<Suc k], current_frame := int k\<rparr>)"
proof -
  let ?m = "pb\<lparr>screen := [0..<Suc k], current_frame := int k\<rparr>"
  have "op_ok ?m p" "\<not> engaged ?m p" if "p \<in> set (pending pb)" for p
    using assms(1) that op_ok_unengaged [of pb p ?m] by (auto simp: quiet_def playback_ok_def engaged_def)
  moreover from this have "filter (engaged ?m) (pending pb) = []"
    by (simp add: filter_empty_conv)
  ultimately show ?thesis
    using assms unfolding quiet_def playback_ok_def by (auto simp: nat_add_distrib)
qed

lemma quiet_exports_dropped:
  assumes "quiet pb"
  shows "quiet (pb\<lparr>pending := filter P (pending pb)\<rparr>)"
proof -
  let ?f = "pb\<lparr>pending := filter P (pending pb)\<rparr>"
  have "op_ok ?f = op_ok pb" "engaged ?f = engaged pb"
    using op_ok_cong [of ?f pb] by auto
  moreover from assms have "filter (engaged pb) (filter P (pending pb)) = []"
    by (auto simp: quiet_def filter_empty_conv)
  ultimately show ?thesis
    using assms unfolding quiet_def playback_ok_def by auto
qed

lemma await_current_frame: "(await p pb)\<lparr>current_frame := n\<rparr> = await p (pb\<lparr>current_frame := n\<rparr>)"
  by (cases pb) (simp add: await_def)

text \<open>The display and the current frame after a frame has been replayed, its seek still to be continued.\<close>

definition replayed :: "nat \<Rightarrow> playback \<Rightarrow> playback" where
  "replayed k pb =
     (let m = pb\<lparr>screen := [0..<Suc k], current_frame := int k\<rparr>
      in if keyframe (pb_frames pb ! k) \<and> client_state (pb_frames pb ! k) = None
         then await (Exporting k [0..<Suc k]) m else m)"

lemma replayed_sel [simp]:
  "current_frame (replayed k pb) = int k" "pb_frames (replayed k pb) = pb_frames pb"
  "aborted_seeks (replayed k pb) = aborted_seeks pb" "seek_ok (replayed k pb) sk = seek_ok pb sk"
  "next_seek (replayed k pb) = next_seek pb" "active_seek (replayed k pb) = active_seek pb"
  by (simp_all add: replayed_def Let_def await_def seek_ok_def)

lemma replayed_quiet: "quiet pb \<Longrightarrow> k < length (pb_frames pb) \<Longrightarrow> quiet (replayed k pb)"
  using quiet_moved [of pb k] await_export by (simp add: replayed_def Let_def del: upt_Suc)

lemma replay_completed_replayed:
  assumes "playback_ok pb" "int k = current_frame pb + 1"
  shows "replay_completed now k sk pb = continue_replay (finish now) sk (replayed k pb)"
proof -
  have "k = nat (current_frame pb + 1)"
    using assms(2) by simp
  then have "screen pb @ [k] = [0..<Suc k]"
    using assms(1) by (simp add: playback_ok_def)
  then show ?thesis
    by (simp add: replay_completed_def Let_def replayed_def await_current_frame del: upt_Suc)
qed

lemma replay_completed_ok:
  assumes "quiet pb" "int k = current_frame pb + 1" "k < length (pb_frames pb)" "seek_ok pb sk"
  shows "playback_ok (replay_completed now k sk pb)"
  unfolding replay_completed_replayed [OF quietD [OF assms(1)] assms(2)]
  using continue_replay_ok [OF quietD] finish_ok replayed_quiet assms by simp

lemma text_ready_ok:
  assumes q: "quiet pb" and k: "k < length (pb_frames pb)" and sk: "seek_ok pb sk"
  shows "playback_ok (text_ready now k [0..<Suc k] sk pb)"
proof -
  let ?f = "pb\<lparr>pending := filter (\<lambda>p. \<not> is_export p) (pending pb)\<rparr>"
  let ?m = "?f\<lparr>screen := [0..<Suc k], current_frame := int k\<rparr>"
  have "quiet ?m"
    using quiet_moved [OF quiet_exports_dropped [OF q]] k by simp
  moreover have "seek_ok ?m sk"
    using sk by (simp add: seek_ok_def)
  ultimately have "playback_ok (continue_after_required_delay (finish now) now sk ?m)"
    by (intro continue_after_required_delay_ok finish_ok)
  then show ?thesis
    by (simp add: text_ready_def del: upt_Suc)
qed

lemma store_client_state_ok:
  assumes "playback_ok pb" "k < length (pb_frames pb)"
  shows "playback_ok (store_client_state k [0..<Suc k] pb)"
proof -
  let ?s = "store_client_state k [0..<Suc k] pb"
  have "op_ok ?s = op_ok pb" "engaged ?s = engaged pb"
    using op_ok_cong [of ?s pb] by (auto simp: store_client_state_def)
  moreover have "stored_ok (pb_frames ?s)"
    using assms by (auto simp: playback_ok_def stored_ok_def store_client_state_def nth_list_update)
  ultimately show ?thesis
    using assms unfolding playback_ok_def by (simp add: store_client_state_def)
qed

lemma continue_waiting_ok:
  assumes "playback_ok (drop_pending j pb)" "seek_ok pb sk"
    "active_seek pb = Some (seek_id sk) \<Longrightarrow> quiet (drop_pending j pb)"
  shows "playback_ok (continue_replay (finish now) sk (drop_pending j pb))"
  using assms by (intro continue_replay_ok finish_ok) (auto simp: seek_ok_def)

lemma deliver_ok:
  assumes ok: "playback_ok pb"
  shows "playback_ok (deliver now j pb)"
proof (cases "j < length (pending pb)")
  case True
  let ?d = "drop_pending j pb"
  note dropped = drop_pending_ok [OF ok True]
  have p: "op_ok pb (pending pb ! j)"
    using ok True by (simp add: playback_ok_def)
  have same: "seek_ok ?d sk = seek_ok pb sk" for sk
    by (simp add: seek_ok_def)
  show ?thesis
  proof (cases "pending pb ! j")
    case (Reading k sk)
    then show ?thesis
      using True p dropped(2) replay_completed_ok [of ?d k sk now] same by (simp add: deliver_def engaged_def)
  next
    case (Importing k c sk)
    then show ?thesis
      using True p dropped(2) text_ready_ok [of ?d k sk now] same by (simp add: deliver_def engaged_def)
  next
    case (Waiting t sk)
    then show ?thesis
      using True p continue_waiting_ok [OF dropped(1)] dropped(2) by (simp add: deliver_def engaged_def)
  next
    case (Exporting k c)
    then show ?thesis
      using True p store_client_state_ok [OF dropped(1), of k] by (simp add: deliver_def)
  qed
qed (simp add: deliver_def ok)

lemma pb_step_ok: "pb_step pb pb' \<Longrightarrow> playback_ok pb \<Longrightarrow> playback_ok pb'"
  by (induction rule: pb_step.induct) (auto intro: pause_ok play_ok seek_ok_step cancel_ok deliver_ok)

lemma pb_steps_ok: "pb_step\<^sup>*\<^sup>* pb pb' \<Longrightarrow> playback_ok pb \<Longrightarrow> playback_ok pb'"
  by (induction rule: rtranclp_induct) (auto intro: pb_step_ok)

lemma new_playback_ok:
  assumes "list_all (\<lambda>f. client_state f = None) fs"
  shows "playback_ok (new_playback fs)"
  using assms by (auto simp: playback_ok_def new_playback_def stored_ok_def list_all_length)

subsection \<open>A seek that is left alone reaches its frame\<close>

text \<open>The operation scheduled last is delivered.\<close>

definition deliver_last :: "int \<Rightarrow> playback \<Rightarrow> playback" where
  "deliver_last now pb = deliver now (length (pending pb) - 1) pb"

lemma deliver_last_await:
  "deliver_last now (await p pb) =
     (case p of Reading k sk \<Rightarrow> replay_completed now k sk pb | Importing k c sk \<Rightarrow> text_ready now k c sk pb
      | Waiting t sk \<Rightarrow> continue_replay (finish now) sk pb | Exporting k c \<Rightarrow> store_client_state k c pb)"
proof -
  have "drop_pending (length (pending pb)) (await p pb) = pb"
    by (simp add: drop_pending_def await_def)
  then show ?thesis
    by (cases p) (simp_all add: deliver_last_def deliver_def await_def)
qed

definition landed :: "int \<Rightarrow> playback \<Rightarrow> bool" where
  "landed index pb \<longleftrightarrow> playback_ok pb \<and> current_frame pb = index \<and> seek_callback pb = None
     \<and> pb_events pb \<noteq> [] \<and> last (pb_events pb) = Seek_finished"

lemma finish_lands: "quiet pb \<Longrightarrow> current_frame pb = index \<Longrightarrow> landed index (finish now (Restore False) pb)"
  by (simp add: landed_def restore_playback_state_def Let_def quietD) (simp add: pb_event_def)

lemma continue_replay_live:
  assumes "seek_id sk \<notin> set (aborted_seeks pb)"
  obtains evs where "continue_replay fin sk pb =
    (let q = pb\<lparr>pb_events := pb_events pb @ evs\<rparr>
     in if current_frame pb < seek_index sk then await (Reading (nat (current_frame pb + 1)) sk) q else fin (when_done sk) q)"
proof (cases "current_frame pb > start_index sk")
  case True
  then show ?thesis
    using assms that [of "[On_seek (current_frame pb - start_index sk) (seek_index sk - start_index sk)]"]
    by (simp add: continue_replay_def Let_def replay_frame_def pb_event_def)
next
  case False
  then show ?thesis
    using assms that [of "[]"] by (simp add: continue_replay_def Let_def replay_frame_def)
qed

lemma quiet_events: "quiet (pb\<lparr>pb_events := evs\<rparr>) = quiet pb"
  by (rule playback_ok_cong) simp_all

lemma replay_lands:
  assumes "quiet pb" "seek_ok pb sk" "seek_id sk \<notin> set (aborted_seeks pb)" "when_done sk = Restore False"
    "seek_index sk = current_frame pb + int n"
  shows "landed (seek_index sk) ((deliver_last now ^^ n) (continue_replay (finish now) sk pb))"
  using assms
proof (induction n arbitrary: pb)
  case 0
  obtain evs where "continue_replay (finish now) sk pb = finish now (Restore False) (pb\<lparr>pb_events := pb_events pb @ evs\<rparr>)"
    using continue_replay_live [OF 0(3), of "finish now"] 0(4,5) by (auto simp: Let_def)
  then show ?case
    using finish_lands [of "pb\<lparr>pb_events := pb_events pb @ evs\<rparr>" "seek_index sk" now] 0(1,5) by (simp add: quiet_events)
next
  case (Suc n)
  let ?k = "nat (current_frame pb + 1)"
  obtain evs where eq: "continue_replay (finish now) sk pb = await (Reading ?k sk) (pb\<lparr>pb_events := pb_events pb @ evs\<rparr>)"
    using continue_replay_live [OF Suc.prems(3), of "finish now"] Suc.prems(5) by (auto simp: Let_def)
  let ?q = "pb\<lparr>pb_events := pb_events pb @ evs\<rparr>"
  have q: "quiet ?q"
    using Suc.prems(1) by (simp add: quiet_events)
  have k: "int ?k = current_frame pb + 1" "?k < length (pb_frames pb)"
    using Suc.prems by (auto simp: quiet_def playback_ok_def seek_ok_def)
  have "deliver_last now (continue_replay (finish now) sk pb) = continue_replay (finish now) sk (replayed ?k ?q)"
    unfolding eq deliver_last_await using replay_completed_replayed [OF quietD [OF q], of ?k now sk] k by simp
  moreover have "landed (seek_index sk) ((deliver_last now ^^ n) (continue_replay (finish now) sk (replayed ?k ?q)))"
    using Suc.prems k by (intro Suc.IH replayed_quiet q) (simp_all add: seek_ok_def)
  ultimately show ?case
    by (simp add: funpow_Suc_right del: funpow.simps)
qed

lemma back_up_current:
  "back_up fs cur n = (i, None) \<Longrightarrow> client_state (fs ! 0) \<noteq> None \<Longrightarrow> 0 < n \<Longrightarrow> i = cur \<and> cur < int n"
proof (induction fs cur n rule: back_up.induct)
  case (2 fs current n)
  then show ?case
    by (cases n) (auto split: if_splits option.splits)
qed simp

lemma seek_to_frame_lands:
  assumes ok: "playback_ok pb" "at_rest pb" and index: "index < length (pb_frames pb)"
    and start: "current_frame pb \<le> int index \<or> client_state (pb_frames pb ! 0) \<noteq> None"
  shows "\<exists>n. landed (int index) ((deliver_last now ^^ n) (seek_to_frame (finish now) now index (Restore False) None pb))"
proof -
  obtain i stored where bu: "back_up (pb_frames pb) (current_frame pb) (Suc index) = (i, stored)"
    by fastforce
  define sk where "sk = \<lparr>seek_id = next_seek pb, seek_index = int index, start_index = i, when_done = Restore False,
              next_real_timestamp = None\<rparr>"
  note eq = seek_to_frame_begun [OF bu, of "finish now" now "Restore False" None, folded sk_def]
  have q: "quiet (begun pb)" and sk: "seek_ok (begun pb) sk" "when_done sk = Restore False" "seek_index sk = int index"
    using begun_quiet [OF ok] index by (simp_all add: seek_ok_def sk_def)
  have live: "seek_id sk \<notin> set (aborted_seeks (begun pb))"
    using q unfolding quiet_def playback_ok_def by (auto simp: sk_def)
  have now: "continue_after_required_delay fin now sk p = continue_replay fin sk p" for fin p
    by (simp add: continue_after_required_delay_def sk_def)
  show ?thesis
  proof (cases stored)
    case None
    have "current_frame pb \<le> int index"
      using start bu None back_up_current [of "pb_frames pb" "current_frame pb" "Suc index" i] by auto
    then have "seek_index sk = current_frame (begun pb) + int (nat (int index - current_frame pb))"
      using sk(3) by simp
    from replay_lands [OF q sk(1) live sk(2) this, of now] show ?thesis
      unfolding eq None now sk(3) Let_def option.case by blast
  next
    case (Some c)
    from back_up_stored [OF bu [unfolded Some]]
    have i: "0 \<le> i" "nat i < Suc index" "client_state (pb_frames pb ! nat i) = Some c"
      by auto
    then have c: "c = [0..<Suc (nat i)]"
      using ok(1) index by (simp add: playback_ok_def stored_ok_def)
    define m where "m = (begun pb)\<lparr>pending := filter (\<lambda>p. \<not> is_export p) (pending (begun pb)),
                                   screen := [0..<Suc (nat i)], current_frame := int (nat i)\<rparr>"
    have "quiet m"
      using quiet_moved [OF quiet_exports_dropped [OF q], of "nat i"] i(2) index by (simp add: m_def del: upt_Suc)
    moreover have "seek_ok m sk" "seek_id sk \<notin> set (aborted_seeks m)"
      using sk(1) live by (simp_all add: seek_ok_def m_def)
    moreover have "seek_index sk = current_frame m + int (index - nat i)"
      using i sk(3) by (simp add: m_def)
    ultimately have "landed (seek_index sk) ((deliver_last now ^^ (index - nat i)) (continue_replay (finish now) sk m))"
      using replay_lands sk(2) by blast
    moreover have "deliver_last now (await (Importing (nat i) c sk) (begun pb)) = continue_replay (finish now) sk m"
      by (simp add: deliver_last_await text_ready_def now m_def c del: upt_Suc)
    ultimately have "landed (int index) ((deliver_last now ^^ Suc (index - nat i)) (await (Importing (nat i) c sk) (begun pb)))"
      using sk(3) by (simp add: funpow_Suc_right del: funpow.simps)
    then show ?thesis
      unfolding eq Some Let_def option.case by blast
  qed
qed

lemma landed_shows:
  "landed (int t) r \<Longrightarrow> current_frame r = int t \<and> screen r = [0..<Suc t] \<and> seek_callback r = None
    \<and> last (pb_events r) = Seek_finished"
  by (simp add: landed_def playback_ok_def nat_add_distrib)

lemma seek_idle:
  assumes "pb_frames pb \<noteq> []" "\<not> is_playing pb" "seek_callback pb = None"
  shows "seek now position pb = seek_to_frame (finish now) now (find_frame (pb_frames pb) 0 (length (pb_frames pb) - 1) position)
    (Restore False) None ((abort_seek pb)\<lparr>seek_callback := Some False\<rparr>)"
proof -
  have "pause pb = abort_seek pb"
    using assms(2) by (auto simp: pause_def Let_def is_playing_def abort_seek_def split: option.splits)
  then show ?thesis
    using assms by (simp add: seek_def Let_def cancel_def)
qed

subsection \<open>Concrete runs\<close>

text \<open>
  A recording of four frames of 100 ms whose first frame is a keyframe: the operations are run on
  it by evaluation.
\<close>

definition demo_frames :: "rec_frame list" where
  "demo_frames = [(new_frame (Some 1000) 0 9)\<lparr>keyframe := True\<rparr>, new_frame (Some 1100) 9 18,
                  new_frame (Some 1200) 18 27, new_frame (Some 1300) 27 36]"

definition mid_seek :: playback where
  "mid_seek = deliver 5 0 (seek 5 200 (new_playback demo_frames))"

definition after_seek :: playback where
  "after_seek = (deliver_last 5 ^^ 4) (seek 5 300 (new_playback demo_frames))"

text \<open>
  A seek that is begun while a frame of the previous seek is being read applies that frame
  twice: the aborted seek is only noticed after its frame has been replayed. The seek ends on the
  last frame, and the display has received the second frame twice.
\<close>

theorem overlapping_seeks_repeat_frame:
  "(let pb = (deliver_last 5 ^^ 3) (deliver 5 1 (seek 5 300 mid_seek))
    in current_frame pb = 3 \<and> last (pb_events pb) = Seek_finished \<and> screen pb = [0, 1, 1, 2, 3])"
  by code_simp

text \<open>
  A seek backwards before the state of the first frame has been stored ends at once on the frame
  where it began, and reports success.
\<close>

theorem early_seek_back_ignored:
  "(let pb = seek 9 0 after_seek
    in find_frame (pb_frames after_seek) 0 3 0 = 0 \<and> current_frame pb = 3 \<and> last (pb_events pb) = Seek_finished)"
  by code_simp


lemma demo_steps: "pb_step\<^sup>*\<^sup>* (new_playback demo_frames) after_seek"
proof -
  have "pb_step\<^sup>*\<^sup>* pb ((deliver_last now ^^ n) pb)" for pb now n
    by (induction n) (auto simp: deliver_last_def intro: rtranclp.rtrancl_into_rtrancl deliver_step)
  moreover have "pb_step (new_playback demo_frames) (seek 5 300 (new_playback demo_frames))"
    by (rule seek_step) (simp_all add: at_rest_def new_playback_def)
  ultimately show ?thesis
    unfolding after_seek_def by (meson converse_rtranclp_into_rtranclp)
qed




end
