(* ===== verification/Guac_Event.thy ===== *)
theory Guac_Event
  imports Main
begin

section \<open>Guacamole.Event.Target\<close>

text \<open>
  The registration of listeners and the dispatch of events (\<^verbatim>\<open>Guacamole.Event.Target\<close>). The
  table \<^verbatim>\<open>listeners\<close> maps the name of an event type to the array of its listeners, and a listener
  is a value that the function \<open>call\<close> runs. A listener may change the registrations while the event
  is being dispatched, and the loop of \<^verbatim>\<open>dispatch\<close> sees the changes, because it reads the array that
  \<^verbatim>\<open>on\<close> and \<^verbatim>\<open>off\<close> change in place. An array is never taken out of the table, so the array of
  the loop is the one the table holds. The loop is a partial function, and a dispatch that never
  ends is the value \<open>None\<close>.
\<close>

type_synonym 'l listener_table = "string \<rightharpoonup> 'l list"

record 'l event_target =
  listeners :: "'l listener_table"

definition new_event_target :: "'l event_target" where
  "new_event_target = \<lparr>listeners = Map.empty\<rparr>"

definition on :: "string \<Rightarrow> 'l \<Rightarrow> ('l, 'a) event_target_scheme \<Rightarrow> ('l, 'a) event_target_scheme" where
  "on ty l t =
     (case listeners t ty of
        None \<Rightarrow> t\<lparr>listeners := (listeners t)(ty \<mapsto> [l])\<rparr>
      | Some ls \<Rightarrow> t\<lparr>listeners := (listeners t)(ty \<mapsto> ls @ [l])\<rparr>)"

definition on_each :: "string list \<Rightarrow> 'l \<Rightarrow> ('l, 'a) event_target_scheme \<Rightarrow> ('l, 'a) event_target_scheme" where
  "on_each types l t = fold (\<lambda>ty. on ty l) types t"

text \<open>The loop of \<^verbatim>\<open>off\<close>: the first occurrence is spliced out of the array.\<close>

fun splice_listener :: "'l \<Rightarrow> 'l list \<Rightarrow> 'l list option" where
  "splice_listener l [] = None"
| "splice_listener l (k # ls) =
     (if k = l then Some ls else (case splice_listener l ls of None \<Rightarrow> None | Some ls' \<Rightarrow> Some (k # ls')))"

definition off :: "string \<Rightarrow> 'l \<Rightarrow> ('l, 'a) event_target_scheme \<Rightarrow> bool \<times> ('l, 'a) event_target_scheme" where
  "off ty l t =
     (case listeners t ty of
        None \<Rightarrow> (False, t)
      | Some ls \<Rightarrow>
          (case splice_listener l ls of
             None \<Rightarrow> (False, t)
           | Some ls' \<Rightarrow> (True, t\<lparr>listeners := (listeners t)(ty \<mapsto> ls')\<rparr>)))"

text \<open>The bitwise or of the code makes the result of \<^verbatim>\<open>offEach\<close> a number, which is read here as its truth value.\<close>

fun off_each :: "string list \<Rightarrow> 'l \<Rightarrow> ('l, 'a) event_target_scheme \<Rightarrow> bool \<times> ('l, 'a) event_target_scheme" where
  "off_each [] l t = (False, t)"
| "off_each (ty # types) l t =
     (let (c, t1) = off ty l t; (cs, t2) = off_each types l t1 in (c \<or> cs, t2))"

partial_function (option) dispatch_from ::
  "('l \<Rightarrow> ('l, 'a) event_target_scheme \<Rightarrow> ('l, 'a) event_target_scheme) \<Rightarrow> string \<Rightarrow> nat
   \<Rightarrow> ('l, 'a) event_target_scheme \<Rightarrow> ('l, 'a) event_target_scheme option" where
  [code]: "dispatch_from call ty i t =
     (case listeners t ty of
        None \<Rightarrow> Some t
      | Some ls \<Rightarrow> if i < length ls then dispatch_from call ty (Suc i) (call (ls ! i) t) else Some t)"

definition dispatch ::
  "(('l, 'a) event_target_scheme \<Rightarrow> ('l, 'a) event_target_scheme)
   \<Rightarrow> ('l \<Rightarrow> ('l, 'a) event_target_scheme \<Rightarrow> ('l, 'a) event_target_scheme) \<Rightarrow> string
   \<Rightarrow> ('l, 'a) event_target_scheme \<Rightarrow> ('l, 'a) event_target_scheme option" where
  "dispatch legacy call ty t = dispatch_from call ty 0 (legacy t)"

definition registered :: "('l, 'a) event_target_scheme \<Rightarrow> string \<Rightarrow> 'l list" where
  "registered t ty = (case listeners t ty of None \<Rightarrow> [] | Some ls \<Rightarrow> ls)"

subsection \<open>Registration\<close>

lemma registered_on [simp]:
  "registered (on ty l t) ty' = (if ty' = ty then registered t ty @ [l] else registered t ty')"
  by (auto simp: registered_def on_def split: option.splits)

lemma splice_listener_remove1:
  "splice_listener l ls = (if l \<in> set ls then Some (remove1 l ls) else None)"
  by (induction ls) auto

lemma off_spec:
  "off ty l t = (b, t') \<Longrightarrow>
     b = (l \<in> set (registered t ty))
     \<and> registered t' ty' = (if ty' = ty then remove1 l (registered t ty) else registered t ty')"
  by (auto simp: off_def registered_def splice_listener_remove1 remove1_idem split: option.splits if_splits)

lemma registered_on_each:
  "distinct types \<Longrightarrow> registered (on_each types l t) ty = registered t ty @ (if ty \<in> set types then [l] else [])"
  unfolding on_each_def by (induction types arbitrary: t) auto

lemma off_each_spec:
  "distinct types \<Longrightarrow> off_each types l t = (b, t') \<Longrightarrow>
     b = (\<exists>ty \<in> set types. l \<in> set (registered t ty))
     \<and> (\<forall>ty. registered t' ty = (if ty \<in> set types then remove1 l (registered t ty) else registered t ty))"
proof (induction types arbitrary: t b t')
  case (Cons ty types)
  obtain c t1 where 1: "off ty l t = (c, t1)" by fastforce
  obtain cs t2 where 2: "off_each types l t1 = (cs, t2)" by fastforce
  have "b = (c \<or> cs)" "t' = t2"
    using Cons.prems(2) 1 2 by simp_all
  moreover have "cs = (\<exists>ty \<in> set types. l \<in> set (registered t1 ty))"
    "\<forall>ty'. registered t2 ty' = (if ty' \<in> set types then remove1 l (registered t1 ty') else registered t1 ty')"
    using Cons.IH [OF _ 2] Cons.prems(1) by auto
  moreover have "registered t1 ty' = (if ty' = ty then remove1 l (registered t ty) else registered t ty')"
    "c = (l \<in> set (registered t ty))" for ty'
    using off_spec [OF 1] by auto
  ultimately show ?case
    using Cons.prems(1) by auto
qed simp

text \<open>
  Registering a listener for several event types and removing it again restores every
  array of listeners, wherever the listener was not registered before, and reports the removal.
\<close>

theorem off_each_undoes_on_each:
  assumes "distinct types" "types \<noteq> []" "\<forall>ty. l \<notin> set (registered t ty)"
    and "off_each types l (on_each types l t) = (b, t')"
  shows "b \<and> (\<forall>ty. registered t' ty = registered t ty)"
  using off_each_spec [OF assms(1,4)] assms(1-3)
  by (auto simp: registered_on_each remove1_append)

subsection \<open>Dispatch\<close>

lemma dispatch_from_step:
  "dispatch_from call ty i t =
     (if i < length (registered t ty) then dispatch_from call ty (Suc i) (call (registered t ty ! i) t) else Some t)"
  by (subst dispatch_from.simps) (simp add: registered_def split: option.splits)

lemma dispatch_from_stable:
  assumes "\<And>l t. registered (call l t) ty = registered t ty" "i \<le> length (registered t ty)"
  shows "dispatch_from call ty i t = Some (fold call (drop i (registered t ty)) t)"
  using assms(2)
proof (induction "length (registered t ty) - i" arbitrary: i t)
  case 0
  then show ?case
    by (subst dispatch_from_step) simp
next
  case (Suc n)
  then have i: "i < length (registered t ty)"
    by simp
  let ?t = "call (registered t ty ! i) t"
  have "dispatch_from call ty (Suc i) ?t = Some (fold call (drop (Suc i) (registered t ty)) ?t)"
    using Suc assms(1) by simp
  then show ?case
    using i by (subst dispatch_from_step) (simp flip: Cons_nth_drop_Suc)
qed

lemma dispatch_from_returns:
  assumes "\<And>l t. length (registered (call l t) ty) \<le> length (registered t ty)"
  shows "\<exists>t'. dispatch_from call ty i t = Some t'"
proof (induction "length (registered t ty) - i" arbitrary: i t rule: less_induct)
  case less
  show ?case
  proof (cases "i < length (registered t ty)")
    case True
    let ?t = "call (registered t ty ! i) t"
    have "length (registered ?t ty) - Suc i < length (registered t ty) - i"
      using assms [of "registered t ty ! i" t] True by linarith
    then show ?thesis
      using less [of ?t "Suc i"] True by (subst dispatch_from_step) simp
  next
    case False
    then show ?thesis
      by (subst dispatch_from_step) simp
  qed
qed

text \<open>
  An event is dispatched to every listener registered for its type, each exactly once and in
  the order of registration, after the legacy handler, whenever no listener changes the
  registrations of that type. A dispatch returns even when listeners remove registrations.
\<close>

theorem dispatch_calls_listeners_in_order:
  assumes "\<And>l t. length (registered (call l t) ty) \<le> length (registered t ty)"
  shows "(\<exists>t'. dispatch legacy call ty t = Some t')
    \<and> ((\<forall>l t. registered (call l t) ty = registered t ty)
       \<longrightarrow> dispatch legacy call ty t = Some (fold call (registered (legacy t) ty) (legacy t)))"
  using dispatch_from_returns [OF assms] dispatch_from_stable [of call ty 0 "legacy t"]
  by (auto simp: dispatch_def)

subsection \<open>Listeners that are run and recorded\<close>

text \<open>
  A target with a log. The listener \<open>Log n\<close> writes its number; \<open>Once n\<close> does the same and then
  removes itself, as a listener that is wanted for one event does.
\<close>

datatype logger = Log nat | Once nat

record log_target = "logger event_target" +
  log :: "nat list"

definition call_logger :: "string \<Rightarrow> logger \<Rightarrow> log_target \<Rightarrow> log_target" where
  "call_logger ty l t =
     (case l of
        Log n \<Rightarrow> t\<lparr>log := log t @ [n]\<rparr>
      | Once n \<Rightarrow> snd (off ty l (t\<lparr>log := log t @ [n]\<rparr>)))"

definition two_loggers :: "logger \<Rightarrow> logger \<Rightarrow> log_target" where
  "two_loggers a b = on ''mousemove'' b (on ''mousemove'' a \<lparr>listeners = Map.empty, log = []\<rparr>)"

lemma registered_log: "registered (t\<lparr>log := xs\<rparr>) ty = registered t ty"
  by (simp add: registered_def)

lemma call_logger_shrinks:
  "length (registered (call_logger ty l t) ty) \<le> length (registered t ty)"
proof (cases l)
  case (Once n)
  obtain b t' where "off ty (Once n) (t\<lparr>log := log t @ [n]\<rparr>) = (b, t')"
    by fastforce
  then show ?thesis
    using Once off_spec [of ty "Once n" "t\<lparr>log := log t @ [n]\<rparr>" b t' ty]
    by (simp add: call_logger_def registered_log length_remove1)
qed (simp add: call_logger_def registered_log)

theorem dispatch_calls_listeners_in_order_witness:
  "map_option log (dispatch id (\<lambda>l t. t\<lparr>log := log t @ [case l of Log n \<Rightarrow> n | Once n \<Rightarrow> n]\<rparr>) ''mousemove''
     (two_loggers (Log 1) (Log 2))) = Some [1, 2]"
  using dispatch_calls_listeners_in_order
    [of "\<lambda>l t. t\<lparr>log := log t @ [case l of Log n \<Rightarrow> n | Once n \<Rightarrow> n]\<rparr>" "''mousemove''" id "two_loggers (Log 1) (Log 2)"]
  by (simp add: registered_log) (simp add: two_loggers_def registered_def on_def)

text \<open>A listener that removes itself hides the event from the listener registered after it.\<close>

theorem self_removal_skips_next_listener:
  "map_option log (dispatch id (call_logger ''mousemove'') ''mousemove'' (two_loggers (Once 1) (Log 2))) = Some [1]"
  by (simp add: dispatch_def two_loggers_def on_def dispatch_from.simps call_logger_def off_def)

end
