(* ===== verification/Guac_Mouse.thy ===== *)
theory Guac_Mouse
  imports Guac_Prelude Complex_Main
begin

section \<open>Guacamole.Position, Guacamole.Mouse.Event.Target and Guacamole.Mouse\<close>

text \<open>
  The state of a mouse, the operations that change it and dispatch an event for each change
  (\<^verbatim>\<open>Guacamole.Mouse.Event.Target\<close>), and the mouse of the page (\<^verbatim>\<open>Guacamole.Mouse\<close>) as a
  function of the events of its element. The emulated mice of touchpads and touchscreens extend
  the same target in the next theory.

  The five boolean properties of a state are the set of the buttons that are pressed. A coordinate
  is a rational number, an infinity or not a number: the arithmetic of the code is taken to be
  exact where its result is finite. The events that were dispatched are the list \<open>dispatched\<close>, each
  with the state it carried; a legacy handler of the event is called with the same state.
\<close>

subsection \<open>Numbers\<close>

datatype double = Fin rat | PInf | NInf | NaN

fun dadd :: "double \<Rightarrow> double \<Rightarrow> double" where
  "dadd (Fin a) (Fin b) = Fin (a + b)"
| "dadd NaN _ = NaN"
| "dadd _ NaN = NaN"
| "dadd PInf NInf = NaN"
| "dadd NInf PInf = NaN"
| "dadd PInf _ = PInf"
| "dadd _ PInf = PInf"
| "dadd NInf _ = NInf"
| "dadd _ NInf = NInf"

definition signed_inf :: "rat \<Rightarrow> double" where
  "signed_inf a = (if a = 0 then NaN else if a > 0 then PInf else NInf)"

fun dscale :: "rat \<Rightarrow> double \<Rightarrow> double" where
  "dscale a (Fin b) = Fin (a * b)"
| "dscale a PInf = signed_inf a"
| "dscale a NInf = signed_inf (- a)"
| "dscale a NaN = NaN"

definition ddiv :: "rat \<Rightarrow> rat \<Rightarrow> double" where
  "ddiv a b = (if b \<noteq> 0 then Fin (a / b) else signed_inf a)"

text \<open>\<^verbatim>\<open>Math.min(Math.max(0, x), limit)\<close>\<close>

fun clamp :: "rat \<Rightarrow> double \<Rightarrow> double" where
  "clamp limit (Fin a) = Fin (min (max 0 a) limit)"
| "clamp limit PInf = Fin limit"
| "clamp limit NInf = Fin (min 0 limit)"
| "clamp limit NaN = NaN"

text \<open>The operator \<^verbatim>\<open>!==\<close>\<close>

definition differ :: "double \<Rightarrow> double \<Rightarrow> bool" where
  "differ a b \<longleftrightarrow> a \<noteq> b \<or> a = NaN"

fun or_zero :: "double \<Rightarrow> double" where
  "or_zero NaN = Fin 0"
| "or_zero a = a"

subsection \<open>Positions\<close>

text \<open>
  The offset of an element and its scrolling, the chain of its offset parents below the body, and
  whether the chain ends at the body of the document.
\<close>

record offset_box =
  offset_left :: rat
  offset_top :: rat
  scroll_left :: rat
  scroll_top :: rat

record page_element =
  own_box :: offset_box
  parents :: "offset_box list"
  body_box :: "offset_box option"
  document_scroll :: "rat \<times> rat"

definition or_rat :: "rat \<Rightarrow> rat \<Rightarrow> rat" where
  "or_rat a b = (if a \<noteq> 0 then a else b)"

definition within_box :: "offset_box \<Rightarrow> rat \<times> rat \<Rightarrow> rat \<times> rat" where
  "within_box b p = (fst p - (offset_left b - scroll_left b), snd p - (offset_top b - scroll_top b))"

definition from_client_position :: "page_element \<Rightarrow> rat \<Rightarrow> rat \<Rightarrow> rat \<times> rat" where
  "from_client_position el cx cy =
     (let p = fold within_box (parents el) (cx - offset_left (own_box el), cy - offset_top (own_box el))
      in case body_box el of
           None \<Rightarrow> p
         | Some b \<Rightarrow>
             (fst p - (offset_left b - or_rat (scroll_left b) (fst (document_scroll el))),
              snd p - (offset_top b - or_rat (scroll_top b) (snd (document_scroll el)))))"

subsection \<open>The state of a mouse and its events\<close>

datatype button = Left | Middle | Right | Up | Down

definition buttons :: "button list" where
  "buttons = [Left, Middle, Right, Up, Down]"

record mouse_state =
  pos_x :: double
  pos_y :: double
  pressed :: "button set"

definition new_mouse_state :: mouse_state where
  "new_mouse_state = \<lparr>pos_x = Fin 0, pos_y = Fin 0, pressed = {}\<rparr>"

datatype mouse_event_type = Mousedown | Mouseup | Mousemove | Mouseout

record mouse_target =
  current_state :: mouse_state
  dispatched :: "(mouse_event_type \<times> mouse_state) list"

definition dispatch_mouse :: "mouse_event_type \<Rightarrow> 'a mouse_target_scheme \<Rightarrow> 'a mouse_target_scheme" where
  "dispatch_mouse ty t = t\<lparr>dispatched := dispatched t @ [(ty, current_state t)]\<rparr>"

definition press :: "button \<Rightarrow> 'a mouse_target_scheme \<Rightarrow> 'a mouse_target_scheme" where
  "press b t =
     (if b \<notin> pressed (current_state t)
      then dispatch_mouse Mousedown
             (t\<lparr>current_state := (current_state t)\<lparr>pressed := insert b (pressed (current_state t))\<rparr>\<rparr>)
      else t)"

definition release :: "button \<Rightarrow> 'a mouse_target_scheme \<Rightarrow> 'a mouse_target_scheme" where
  "release b t =
     (if b \<in> pressed (current_state t)
      then dispatch_mouse Mouseup
             (t\<lparr>current_state := (current_state t)\<lparr>pressed := pressed (current_state t) - {b}\<rparr>\<rparr>)
      else t)"

definition click :: "button \<Rightarrow> 'a mouse_target_scheme \<Rightarrow> 'a mouse_target_scheme" where
  "click b t = release b (press b t)"

definition move :: "double \<times> double \<Rightarrow> 'a mouse_target_scheme \<Rightarrow> 'a mouse_target_scheme" where
  "move p t =
     (if differ (pos_x (current_state t)) (fst p) \<or> differ (pos_y (current_state t)) (snd p)
      then dispatch_mouse Mousemove (t\<lparr>current_state := (current_state t)\<lparr>pos_x := fst p, pos_y := snd p\<rparr>\<rparr>)
      else t)"

definition out :: "'a mouse_target_scheme \<Rightarrow> 'a mouse_target_scheme" where
  "out t = dispatch_mouse Mouseout t"

definition reset :: "'a mouse_target_scheme \<Rightarrow> 'a mouse_target_scheme" where
  "reset t = fold release buttons t"

definition move_to_client :: "page_element \<Rightarrow> rat \<times> rat \<Rightarrow> 'a mouse_target_scheme \<Rightarrow> 'a mouse_target_scheme" where
  "move_to_client el c t = (let p = from_client_position el (fst c) (snd c) in move (Fin (fst p), Fin (snd p)) t)"

subsection \<open>Every event reports one change\<close>

text \<open>
  What an event says about the state before it: one button was pressed or released that was not so
  before, the pointer moved, or nothing changed and the pointer left the element.
\<close>

fun reports :: "mouse_state \<Rightarrow> mouse_event_type \<times> mouse_state \<Rightarrow> bool" where
  "reports s (Mousedown, s') \<longleftrightarrow> list_ex (\<lambda>b. b \<notin> pressed s \<and> s' = s\<lparr>pressed := insert b (pressed s)\<rparr>) buttons"
| "reports s (Mouseup, s') \<longleftrightarrow> list_ex (\<lambda>b. b \<in> pressed s \<and> s' = s\<lparr>pressed := pressed s - {b}\<rparr>) buttons"
| "reports s (Mousemove, s') \<longleftrightarrow> pressed s' = pressed s \<and> (differ (pos_x s) (pos_x s') \<or> differ (pos_y s) (pos_y s'))"
| "reports s (Mouseout, s') \<longleftrightarrow> s' = s"

fun explains :: "mouse_state \<Rightarrow> (mouse_event_type \<times> mouse_state) list \<Rightarrow> mouse_state \<Rightarrow> bool" where
  "explains s [] s' \<longleftrightarrow> s = s'"
| "explains s (e # es) s' \<longleftrightarrow> reports s e \<and> explains (snd e) es s'"

definition explained :: "'a mouse_target_scheme \<Rightarrow> bool" where
  "explained t \<longleftrightarrow> explains new_mouse_state (dispatched t) (current_state t)"

lemma explains_snoc: "explains s (es @ [e]) s' \<longleftrightarrow> (\<exists>m. explains s es m \<and> reports m e \<and> snd e = s')"
  by (induction s es s' rule: explains.induct) auto

lemma button_listed [simp]: "b \<in> set buttons"
  by (cases b) (simp_all add: buttons_def)

lemma explained_dispatch:
  assumes "explained t" "reports (current_state t) (ty, s)"
  shows "explained (dispatch_mouse ty (t\<lparr>current_state := s\<rparr>))"
  using assms by (auto simp: explained_def dispatch_mouse_def explains_snoc)

lemma explained_press [simp]: "explained t \<Longrightarrow> explained (press b t)"
  unfolding press_def by (auto intro!: explained_dispatch simp: list_ex_iff) (use button_listed in blast)

lemma explained_release [simp]: "explained t \<Longrightarrow> explained (release b t)"
  unfolding release_def by (auto intro!: explained_dispatch simp: list_ex_iff) (use button_listed in blast)

lemma explained_click [simp]: "explained t \<Longrightarrow> explained (click b t)"
  by (simp add: click_def)

lemma explained_move [simp]: "explained t \<Longrightarrow> explained (move p t)"
  unfolding move_def by (auto intro!: explained_dispatch)

lemma explained_out [simp]: "explained t \<Longrightarrow> explained (out t)"
  using explained_dispatch [of t Mouseout "current_state t"] by (simp add: out_def)

lemma explained_reset [simp]: "explained t \<Longrightarrow> explained (reset t)"
  by (simp add: reset_def buttons_def)

lemma explained_move_to_client [simp]: "explained t \<Longrightarrow> explained (move_to_client el c t)"
  by (simp add: move_to_client_def Let_def)

subsection \<open>Pointing devices\<close>

text \<open>
  What the three devices have in common: they begin with nothing dispatched, and every event of
  the page keeps the state explained by the events that were dispatched.
\<close>

locale pointing_device =
  fixes device :: "'a mouse_target_scheme"
    and on_input :: "'e \<Rightarrow> 'a mouse_target_scheme \<Rightarrow> 'a mouse_target_scheme"
  assumes device_state: "current_state device = new_mouse_state" "dispatched device = []"
    and on_input_explained: "explained d \<Longrightarrow> explained (on_input e d)"
begin

lemma run_explained: "explained (fold on_input es device)"
proof -
  have "explained d \<Longrightarrow> explained (fold on_input es d)" for d
    by (induction es arbitrary: d) (auto intro: on_input_explained)
  moreover have "explained device"
    by (simp add: explained_def device_state)
  ultimately show ?thesis .
qed

end

subsection \<open>Guacamole.Mouse\<close>

record mouse = mouse_target +
  ignore_mouse :: nat
  scroll_delta :: "rat option"
  cancelled :: bool

definition touchMouseThreshold :: nat where "touchMouseThreshold = 3"
definition scrollThreshold :: rat where "scrollThreshold = 53"
definition PIXELS_PER_LINE :: rat where "PIXELS_PER_LINE = 18"
definition PIXELS_PER_PAGE :: rat where "PIXELS_PER_PAGE = PIXELS_PER_LINE * 16"

definition new_mouse :: mouse where
  "new_mouse = \<lparr>current_state = new_mouse_state, dispatched = [], ignore_mouse = 0, scroll_delta = Some 0,
     cancelled = False\<rparr>"

definition MOUSE_BUTTONS :: "button list" where
  "MOUSE_BUTTONS = [Left, Middle, Right]"

definition mouse_button :: "nat \<Rightarrow> button option" where
  "mouse_button n = (if n < length MOUSE_BUTTONS then Some (MOUSE_BUTTONS ! n) else None)"

text \<open>A wheel event; \<open>None\<close> is a property the browser does not have, or not a number.\<close>

record wheel_event =
  delta_y :: "rat option"
  wheel_delta_y :: "rat option"
  wheel_delta :: "rat option"
  delta_mode :: nat
  detail :: rat

fun or_num :: "rat option \<Rightarrow> rat option \<Rightarrow> rat option" where
  "or_num (Some a) b = (if a \<noteq> 0 then Some a else b)"
| "or_num None b = b"

definition wheel_pixels :: "wheel_event \<Rightarrow> rat option" where
  "wheel_pixels e =
     (let delta = or_num (delta_y e) (or_num (map_option uminus (wheel_delta_y e)) (map_option uminus (wheel_delta e)))
      in if delta \<noteq> None \<and> delta \<noteq> Some 0 then
           (if delta_mode e = 1 then map_option (\<lambda>d. d * PIXELS_PER_LINE) (delta_y e)
            else if delta_mode e = 2 then map_option (\<lambda>d. d * PIXELS_PER_PAGE) (delta_y e)
            else delta)
         else Some (detail e * PIXELS_PER_LINE))"

lemma step_decreases: "scrollThreshold \<le> d \<Longrightarrow> nat \<lceil>d - scrollThreshold\<rceil> < nat \<lceil>d\<rceil>" for d :: rat
  unfolding scrollThreshold_def ceiling_diff_numeral by linarith

text \<open>The loops that click the up button and the down button until too little is left.\<close>

function scroll_up :: "rat \<Rightarrow> 'a mouse_target_scheme \<Rightarrow> 'a mouse_target_scheme" where
  "scroll_up d t = (if d \<le> - scrollThreshold then scroll_up (d + scrollThreshold) (click Up t) else t)"
  by pat_completeness auto
termination
proof (relation "measure (\<lambda>(d, t). nat \<lceil>- d\<rceil>)", goal_cases)
  case (2 d t)
  then show ?case
    using step_decreases [of "- d"] by simp
qed simp

function scroll_down :: "rat \<Rightarrow> 'a mouse_target_scheme \<Rightarrow> 'a mouse_target_scheme" where
  "scroll_down d t = (if d \<ge> scrollThreshold then scroll_down (d - scrollThreshold) (click Down t) else t)"
  by pat_completeness auto
termination
proof (relation "measure (\<lambda>(d, t). nat \<lceil>d\<rceil>)", goal_cases)
  case (2 d t)
  then show ?case
    using step_decreases [of d] by simp
qed simp

declare scroll_up.simps [simp del] scroll_down.simps [simp del]

definition mousewheel_handler :: "wheel_event \<Rightarrow> mouse \<Rightarrow> mouse" where
  "mousewheel_handler e m =
     (case (scroll_delta m, wheel_pixels e) of
        (Some s, Some d) \<Rightarrow>
          (let total = s + d;
               m1 = m\<lparr>scroll_delta := Some total, cancelled := True\<rparr>
           in if total \<le> - scrollThreshold then (scroll_up total m1)\<lparr>scroll_delta := Some 0\<rparr>
              else if total \<ge> scrollThreshold then (scroll_down total m1)\<lparr>scroll_delta := Some 0\<rparr>
              else m1)
      | _ \<Rightarrow> m\<lparr>scroll_delta := None, cancelled := True\<rparr>)"

text \<open>
  Setting the pointer of the page, where the browser supports pointers of its own: the new style of
  the element, and whether it could be set. The image is given by its data URL.
\<close>

definition set_cursor :: "bool \<Rightarrow> jsstring \<Rightarrow> int \<Rightarrow> int \<Rightarrow> jsstring \<Rightarrow> jsstring \<times> bool" where
  "set_cursor supported data_url x y style =
     (if supported then (js ''url('' @ data_url @ js '') '' @ int_str x @ js '' '' @ int_str y @ js '', auto'', True)
      else (style, False))"

text \<open>The events of the element; \<open>Mouse_out\<close> says whether the pointer entered the element or a part of it.\<close>

datatype mouse_input =
  Context_menu
| Mouse_move "rat \<times> rat"
| Mouse_down nat
| Mouse_up nat
| Mouse_out bool
| Select_start
| Touched
| Wheel wheel_event

fun mouse_on :: "page_element \<Rightarrow> mouse_input \<Rightarrow> mouse \<Rightarrow> mouse" where
  "mouse_on el Context_menu m = m\<lparr>cancelled := True\<rparr>"
| "mouse_on el (Mouse_move c) m =
     (if ignore_mouse m \<noteq> 0 then m\<lparr>cancelled := True, ignore_mouse := ignore_mouse m - 1\<rparr>
      else move_to_client el c (m\<lparr>cancelled := False\<rparr>))"
| "mouse_on el (Mouse_down n) m =
     (if ignore_mouse m \<noteq> 0 then m\<lparr>cancelled := True\<rparr>
      else (case mouse_button n of None \<Rightarrow> m\<lparr>cancelled := False\<rparr> | Some b \<Rightarrow> press b (m\<lparr>cancelled := False\<rparr>)))"
| "mouse_on el (Mouse_up n) m =
     (if ignore_mouse m \<noteq> 0 then m\<lparr>cancelled := True\<rparr>
      else (case mouse_button n of None \<Rightarrow> m\<lparr>cancelled := False\<rparr> | Some b \<Rightarrow> release b (m\<lparr>cancelled := False\<rparr>)))"
| "mouse_on el (Mouse_out inside) m =
     (if inside then m\<lparr>cancelled := False\<rparr> else out (reset (m\<lparr>cancelled := False\<rparr>)))"
| "mouse_on el Select_start m = m\<lparr>cancelled := True\<rparr>"
| "mouse_on el Touched m = m\<lparr>cancelled := False, ignore_mouse := touchMouseThreshold\<rparr>"
| "mouse_on el (Wheel e) m = mousewheel_handler e m"


lemma explained_mouse_fields [simp]:
  "explained (m\<lparr>cancelled := c\<rparr>) = explained m"
  "explained (m\<lparr>ignore_mouse := i\<rparr>) = explained m"
  "explained (m\<lparr>scroll_delta := sd\<rparr>) = explained m"
  by (simp_all add: explained_def)

lemma explained_scroll_up: "explained t \<Longrightarrow> explained (scroll_up d t)"
  by (induction d t rule: scroll_up.induct) (subst scroll_up.simps, simp)

lemma explained_scroll_down: "explained t \<Longrightarrow> explained (scroll_down d t)"
  by (induction d t rule: scroll_down.induct) (subst scroll_down.simps, simp)

lemma explained_mouse_on: "explained m \<Longrightarrow> explained (mouse_on el i m)"
  by (cases i) (simp_all add: mousewheel_handler_def Let_def explained_scroll_up explained_scroll_down split: option.splits)

interpretation ms: pointing_device new_mouse "mouse_on el"
  by unfold_locales (auto simp: new_mouse_def explained_mouse_on)

subsection \<open>The wheel\<close>

lemma target_fields [simp]:
  "current_state (dispatch_mouse ty t) = current_state t"
  "dispatched (dispatch_mouse ty t) = dispatched t @ [(ty, current_state t)]"
  by (simp_all add: dispatch_mouse_def)

definition clicks :: "nat \<Rightarrow> button \<Rightarrow> mouse_state \<Rightarrow> (mouse_event_type \<times> mouse_state) list" where
  "clicks n b s = concat (replicate n [(Mousedown, s\<lparr>pressed := insert b (pressed s)\<rparr>), (Mouseup, s)])"

lemma click_spec:
  assumes "b \<notin> pressed (current_state t)"
  shows "current_state (click b t) = current_state t"
    and "dispatched (click b t) = dispatched t @ clicks 1 b (current_state t)"
  using assms by (simp_all add: click_def press_def release_def clicks_def)

lemma clicks_Suc: "clicks (Suc n) b s = clicks 1 b s @ clicks n b s"
  by (simp add: clicks_def)

definition steps_in :: "rat \<Rightarrow> nat" where
  "steps_in d = nat \<lfloor>d / scrollThreshold\<rfloor>"

lemma steps_in_step: "scrollThreshold \<le> d \<Longrightarrow> steps_in d = Suc (steps_in (d - scrollThreshold))"
proof -
  assume d: "scrollThreshold \<le> d"
  have "d / scrollThreshold = (d - scrollThreshold) / scrollThreshold + 1"
    by (simp add: scrollThreshold_def diff_divide_distrib)
  moreover have "0 \<le> \<lfloor>(d - scrollThreshold) / scrollThreshold\<rfloor>"
    using d by (simp add: scrollThreshold_def)
  ultimately show ?thesis
    by (simp add: steps_in_def nat_add_distrib)
qed

lemma steps_in_rest: "d < scrollThreshold \<Longrightarrow> steps_in d = 0"
  by (simp add: steps_in_def scrollThreshold_def)

lemma scroll_down_spec:
  "Down \<notin> pressed (current_state t) \<Longrightarrow>
     current_state (scroll_down d t) = current_state t
     \<and> dispatched (scroll_down d t) = dispatched t @ clicks (steps_in d) Down (current_state t)"
proof (induction d t rule: scroll_down.induct)
  case (1 d t)
  then show ?case
    by (subst (1 2) scroll_down.simps)
       (auto simp: click_spec steps_in_step steps_in_rest clicks_Suc [of "steps_in _"] not_le clicks_def)
qed

lemma scroll_up_spec:
  "Up \<notin> pressed (current_state t) \<Longrightarrow>
     current_state (scroll_up d t) = current_state t
     \<and> dispatched (scroll_up d t) = dispatched t @ clicks (steps_in (- d)) Up (current_state t)"
proof (induction d t rule: scroll_up.induct)
  case (1 d t)
  have "steps_in (- d) = (if d \<le> - scrollThreshold then Suc (steps_in (- (d + scrollThreshold))) else 0)"
    using steps_in_step [of "- d"] steps_in_rest [of "- d"] by simp
  then show ?case
    using 1 by (subst (1 2) scroll_up.simps)
       (auto simp: click_spec clicks_Suc [of "steps_in _"] clicks_def)
qed

text \<open>The wheel buttons are never held.\<close>

definition wheel_up :: "'a mouse_target_scheme \<Rightarrow> bool" where
  "wheel_up t \<longleftrightarrow> pressed (current_state t) \<inter> {Up, Down} = {}"

lemma pressed_release: "pressed (current_state (release b t)) = pressed (current_state t) - {b}"
  by (simp add: release_def)

lemma pressed_press: "pressed (current_state (press b t)) = insert b (pressed (current_state t))"
  by (simp add: press_def insert_absorb)

lemma pressed_move: "pressed (current_state (move p t)) = pressed (current_state t)"
  by (simp add: move_def)

lemma pressed_reset: "pressed (current_state (reset t)) = {}"
proof -
  have "pressed (current_state (fold release bs t)) = pressed (current_state t) - set bs" for bs
    by (induction bs arbitrary: t) (auto simp: pressed_release)
  then show ?thesis
    using button_listed by (auto simp: reset_def)
qed

lemma wheel_up_mouse_on: "wheel_up m \<Longrightarrow> wheel_up (mouse_on el i m)"
proof (cases i)
  case (Wheel e)
  assume "wheel_up m"
  then show ?thesis
    using Wheel by (auto simp: wheel_up_def mousewheel_handler_def Let_def scroll_up_spec scroll_down_spec split: option.splits)
qed (auto simp: wheel_up_def move_to_client_def Let_def pressed_move pressed_press pressed_release pressed_reset
       out_def mouse_button_def MOUSE_BUTTONS_def nth_Cons' split: option.splits if_splits)

lemma run_wheel_up: "wheel_up (fold (mouse_on el) ins new_mouse)"
proof -
  have "wheel_up m \<Longrightarrow> wheel_up (fold (mouse_on el) ins m)" for m
    by (induction ins arbitrary: m) (auto intro: wheel_up_mouse_on)
  then show ?thesis
    by (simp add: wheel_up_def new_mouse_def new_mouse_state_def)
qed

text \<open>
  After any run of the mouse, a turn of the wheel becomes as many clicks of the up or the down
  button as whole thresholds fit into the distance scrolled since the last click, and leaves the
  state of the mouse as it was. What is left over is kept if there was no click and dropped otherwise.
\<close>

theorem wheel_clicks_whole_steps:
  assumes "m = fold (mouse_on el) ins new_mouse" "scroll_delta m = Some s" "wheel_pixels e = Some d"
  shows "let m' = mouse_on el (Wheel e) m; n = steps_in \<bar>s + d\<bar>; b = (if s + d < 0 then Up else Down)
    in current_state m' = current_state m
       \<and> dispatched m' = dispatched m @ clicks n b (current_state m)
       \<and> scroll_delta m' = Some (if n = 0 then s + d else 0)"
proof -
  let ?m = "m\<lparr>scroll_delta := Some (s + d), cancelled := True\<rparr>"
  have "wheel_up m"
    unfolding assms(1) by (rule run_wheel_up)
  then have free: "Up \<notin> pressed (current_state ?m)" "Down \<notin> pressed (current_state ?m)"
    by (auto simp: wheel_up_def)
  have pos: "0 < scrollThreshold"
    by (simp add: scrollThreshold_def)
  consider (up) "s + d \<le> - scrollThreshold" | (down) "scrollThreshold \<le> s + d"
    | (little) "\<not> s + d \<le> - scrollThreshold" "\<not> scrollThreshold \<le> s + d"
    by blast
  then show ?thesis
  proof cases
    case up
    then have "0 < steps_in \<bar>s + d\<bar>" "\<bar>s + d\<bar> = - (s + d)" "s + d < 0"
      using steps_in_step [of "- (s + d)"] pos by auto
    then show ?thesis
      using up scroll_up_spec [OF free(1), of "s + d"] assms(2,3) by (simp add: mousewheel_handler_def Let_def)
  next
    case down
    then have "0 < steps_in \<bar>s + d\<bar>" "\<bar>s + d\<bar> = s + d" "\<not> s + d < 0" "\<not> s + d \<le> - scrollThreshold"
      using steps_in_step [of "s + d"] pos by auto
    then show ?thesis
      using down scroll_down_spec [OF free(2), of "s + d"] assms(2,3) by (simp add: mousewheel_handler_def Let_def)
  next
    case little
    then have "steps_in \<bar>s + d\<bar> = 0"
      by (intro steps_in_rest) auto
    then show ?thesis
      using little assms(2,3) by (simp add: mousewheel_handler_def Let_def clicks_def)
  qed
qed

definition plain_page :: page_element where
  "plain_page = \<lparr>own_box = \<lparr>offset_left = 10, offset_top = 20, scroll_left = 0, scroll_top = 0\<rparr>, parents = [],
     body_box = Some \<lparr>offset_left = 0, offset_top = 0, scroll_left = 0, scroll_top = 0\<rparr>, document_scroll = (0, 5)\<rparr>"

definition example_wheel :: wheel_event where
  "example_wheel = \<lparr>delta_y = Some 120, wheel_delta_y = None, wheel_delta = None, delta_mode = 0, detail = 0\<rparr>"

theorem wheel_clicks_whole_steps_witness:
  "dispatched (mouse_on plain_page (Wheel example_wheel) new_mouse) = clicks 2 Down new_mouse_state"
proof -
  have "\<lfloor>(120 :: rat) / 53\<rfloor> = 2"
    by (rule floor_unique) simp_all
  then have "wheel_pixels example_wheel = Some 120" "scroll_delta new_mouse = Some 0" "steps_in \<bar>0 + 120\<bar> = 2"
    by (simp_all add: example_wheel_def wheel_pixels_def new_mouse_def steps_in_def scrollThreshold_def)
  with wheel_clicks_whole_steps [of new_mouse plain_page "[]" 0 example_wheel 120] show ?thesis
    by (simp add: Let_def new_mouse_def)
qed

text \<open>When the pointer leaves the element, every button is released before the event is dispatched.\<close>

lemma leaving_releases_everything:
  "pressed (current_state (mouse_on el (Mouse_out False) m)) = {}
   \<and> last (dispatched (mouse_on el (Mouse_out False) m)) = (Mouseout, current_state (mouse_on el (Mouse_out False) m))"
  by (simp add: out_def pressed_reset)

end
