(* ===== verification/Guac_Touchpad.thy ===== *)
theory Guac_Touchpad
  imports Guac_Mouse
begin

section \<open>Guacamole.Mouse.Touchpad\<close>

text \<open>
  A mouse emulated by a touchpad: one finger moves the pointer, two fingers scroll, and taps click.
  The events of the element carry the time and the touches; \<open>timers\<close> are the timeouts that are armed,
  with the button each will release, and \<open>click_release_timeout\<close> is the variable of the code, which
  keeps the number of a timeout that has fired. The first touch and the number of touches are what
  the handlers read of the touches of an event.
\<close>

record pad_config =
  pixel_ratio :: rat
  pad_width :: rat
  pad_height :: rat

record touchpad = mouse_target +
  touch_count :: nat
  last_touch :: "rat \<times> rat"
  last_touch_time :: int
  pixels_moved :: rat
  gesture_in_progress :: bool
  click_release_timeout :: "nat option"
  timers :: "(nat \<times> button) list"
  next_timer :: nat

definition new_touchpad :: touchpad where
  "new_touchpad = \<lparr>current_state = new_mouse_state, dispatched = [], touch_count = 0, last_touch = (0, 0),
     last_touch_time = 0, pixels_moved = 0, gesture_in_progress = False, click_release_timeout = None,
     timers = [], next_timer = 0\<rparr>"

definition scroll_threshold :: "pad_config \<Rightarrow> rat" where
  "scroll_threshold cfg = 20 * pixel_ratio cfg"

definition click_timing_threshold :: int where "click_timing_threshold = 250"

definition click_move_threshold :: "pad_config \<Rightarrow> rat" where
  "click_move_threshold cfg = 10 * pixel_ratio cfg"

fun touch_button :: "nat \<Rightarrow> button option" where
  "touch_button n = (if n = 1 then Some Left else if n = 2 then Some Right else if n = 3 then Some Middle else None)"

definition clear_release_timeout :: "touchpad \<Rightarrow> touchpad" where
  "clear_release_timeout p =
     (case click_release_timeout p of
        None \<Rightarrow> p
      | Some n \<Rightarrow> p\<lparr>timers := filter (\<lambda>t. fst t \<noteq> n) (timers p), click_release_timeout := None\<rparr>)"

definition set_release_timeout :: "button \<Rightarrow> touchpad \<Rightarrow> touchpad" where
  "set_release_timeout b p =
     p\<lparr>timers := timers p @ [(next_timer p, b)], click_release_timeout := Some (next_timer p),
       next_timer := next_timer p + 1\<rparr>"

definition pad_touchend :: "pad_config \<Rightarrow> int \<Rightarrow> nat \<Rightarrow> touchpad \<Rightarrow> touchpad" where
  "pad_touchend cfg now remaining p =
     (if gesture_in_progress p \<and> remaining = 0 then
        (case touch_button (touch_count p) of
           None \<Rightarrow> p
         | Some b \<Rightarrow>
             (let p1 = (if b \<in> pressed (current_state p) then clear_release_timeout (release b p) else p);
                  p2 = (if now - last_touch_time p1 \<le> click_timing_threshold \<and> pixels_moved p1 < click_move_threshold cfg
                        then set_release_timeout b (press b p1) else p1)
              in if click_release_timeout p2 = None then p2\<lparr>gesture_in_progress := False\<rparr> else p2))
      else p)"

definition pad_touchstart :: "int \<Rightarrow> rat \<times> rat \<Rightarrow> nat \<Rightarrow> touchpad \<Rightarrow> touchpad" where
  "pad_touchstart now first count p =
     (let p1 = clear_release_timeout (p\<lparr>touch_count := min count 3\<rparr>)
      in if gesture_in_progress p1 then p1
         else p1\<lparr>gesture_in_progress := True, last_touch := first, last_touch_time := now, pixels_moved := 0\<rparr>)"

definition pad_touchmove :: "pad_config \<Rightarrow> int \<Rightarrow> rat \<times> rat \<Rightarrow> touchpad \<Rightarrow> touchpad" where
  "pad_touchmove cfg now first p =
     (let dx = fst first - fst (last_touch p); dy = snd first - snd (last_touch p);
          p1 = p\<lparr>pixels_moved := pixels_moved p + (\<bar>dx\<bar> + \<bar>dy\<bar>)\<rparr>
      in if touch_count p1 = 1 then
           (let scale = dadd (Fin 1) (ddiv (pixels_moved p1) (of_int (now - last_touch_time p1)));
                mx = clamp (pad_width cfg - 1) (dadd (or_zero (pos_x (current_state p1))) (dscale dx scale));
                my = clamp (pad_height cfg - 1) (dadd (or_zero (pos_y (current_state p1))) (dscale dy scale))
            in (move (mx, my) p1)\<lparr>last_touch := first\<rparr>)
         else if touch_count p1 = 2 \<and> \<bar>dy\<bar> \<ge> scroll_threshold cfg then
           (click (if dy > 0 then Down else Up) p1)\<lparr>last_touch := first\<rparr>
         else p1)"

text \<open>The callback of the timeout; it only runs while the timeout is armed.\<close>

definition release_timer :: "nat \<Rightarrow> touchpad \<Rightarrow> touchpad" where
  "release_timer n p =
     (case map_of (timers p) n of
        None \<Rightarrow> p
      | Some b \<Rightarrow>
          (release b (p\<lparr>timers := filter (\<lambda>t. fst t \<noteq> n) (timers p)\<rparr>))\<lparr>gesture_in_progress := False\<rparr>)"

datatype pad_input =
  Pad_start int "rat \<times> rat" nat
| Pad_move int "rat \<times> rat"
| Pad_end int nat
| Pad_timer nat

fun pad_on :: "pad_config \<Rightarrow> pad_input \<Rightarrow> touchpad \<Rightarrow> touchpad" where
  "pad_on cfg (Pad_start now first count) p = pad_touchstart now first count p"
| "pad_on cfg (Pad_move now first) p = pad_touchmove cfg now first p"
| "pad_on cfg (Pad_end now remaining) p = pad_touchend cfg now remaining p"
| "pad_on cfg (Pad_timer n) p = release_timer n p"

lemma pad_fields [simp]:
  "explained (p\<lparr>touch_count := a\<rparr>) = explained p" "explained (p\<lparr>last_touch := b\<rparr>) = explained p"
  "explained (p\<lparr>last_touch_time := c\<rparr>) = explained p" "explained (p\<lparr>pixels_moved := d\<rparr>) = explained p"
  "explained (p\<lparr>gesture_in_progress := e\<rparr>) = explained p" "explained (p\<lparr>timers := f\<rparr>) = explained p"
  "explained (p\<lparr>click_release_timeout := g\<rparr>) = explained p" "explained (p\<lparr>next_timer := h\<rparr>) = explained p"
  by (simp_all add: explained_def)

lemma explained_timeouts [simp]:
  "explained (clear_release_timeout p) = explained p" "explained (set_release_timeout b p) = explained p"
  by (auto simp: clear_release_timeout_def set_release_timeout_def split: option.splits)

lemma explained_pad_on: "explained p \<Longrightarrow> explained (pad_on cfg i p)"
  by (cases i)
     (simp_all add: pad_touchstart_def pad_touchmove_def pad_touchend_def release_timer_def Let_def split: option.splits)

interpretation tp: pointing_device new_touchpad "pad_on cfg"
  by unfold_locales (simp_all add: new_touchpad_def explained_pad_on)

subsection \<open>The pointer stays on the screen\<close>

text \<open>The steps of a touchpad on which time passes between the first touch of a gesture and its movements.\<close>

inductive pad_step :: "pad_config \<Rightarrow> touchpad \<Rightarrow> touchpad \<Rightarrow> bool" where
  pad_start: "pad_step cfg p (pad_on cfg (Pad_start now first count) p)"
| pad_move: "last_touch_time p < now \<Longrightarrow> pad_step cfg p (pad_on cfg (Pad_move now first) p)"
| pad_end: "pad_step cfg p (pad_on cfg (Pad_end now remaining) p)"
| pad_timer: "pad_step cfg p (pad_on cfg (Pad_timer n) p)"

fun between :: "rat \<Rightarrow> double \<Rightarrow> bool" where
  "between limit (Fin a) \<longleftrightarrow> 0 \<le> a \<and> a \<le> limit"
| "between limit _ \<longleftrightarrow> False"

definition on_screen :: "pad_config \<Rightarrow> 'a mouse_target_scheme \<Rightarrow> bool" where
  "on_screen cfg t \<longleftrightarrow> between (pad_width cfg - 1) (pos_x (current_state t)) \<and> between (pad_height cfg - 1) (pos_y (current_state t))"

lemma on_screen_cong: "current_state t' = current_state t \<Longrightarrow> on_screen cfg t' = on_screen cfg t"
  by (simp add: on_screen_def)

lemma on_screen_buttons [simp]:
  "on_screen cfg (press b t) = on_screen cfg t" "on_screen cfg (release b t) = on_screen cfg t"
  "on_screen cfg (click b t) = on_screen cfg t"
  by (simp_all add: on_screen_def press_def release_def click_def)

lemma on_screen_fields [simp]:
  "on_screen cfg (p\<lparr>touch_count := a\<rparr>) = on_screen cfg p" "on_screen cfg (p\<lparr>last_touch := b\<rparr>) = on_screen cfg p"
  "on_screen cfg (p\<lparr>last_touch_time := c\<rparr>) = on_screen cfg p" "on_screen cfg (p\<lparr>pixels_moved := d\<rparr>) = on_screen cfg p"
  "on_screen cfg (p\<lparr>gesture_in_progress := e\<rparr>) = on_screen cfg p" "on_screen cfg (p\<lparr>timers := f\<rparr>) = on_screen cfg p"
  "on_screen cfg (clear_release_timeout p) = on_screen cfg p" "on_screen cfg (set_release_timeout but p) = on_screen cfg p"
  by (auto simp: clear_release_timeout_def set_release_timeout_def on_screen_def split: option.splits)

lemma between_clamp: "0 \<le> limit \<Longrightarrow> x \<noteq> NaN \<Longrightarrow> between limit (clamp limit x)"
  by (cases x) auto

lemma moved_coordinate: "between limit x \<Longrightarrow> b \<noteq> 0 \<Longrightarrow> dadd (or_zero x) (dscale d (dadd (Fin 1) (ddiv a b))) \<noteq> NaN"
  by (cases x) (simp_all add: ddiv_def)

lemma pad_step_on_screen:
  assumes "pad_step cfg p p'" "on_screen cfg p" "1 \<le> pad_width cfg" "1 \<le> pad_height cfg"
  shows "on_screen cfg p'"
  using assms
proof (induction rule: pad_step.induct)
  case (pad_move p now cfg first)
  let ?t = "of_int (now - last_touch_time p) :: rat"
  have "?t \<noteq> 0"
    using pad_move(1) by simp
  note moved = moved_coordinate [OF _ this]
  have "on_screen cfg (move (clamp (pad_width cfg - 1) a, clamp (pad_height cfg - 1) b) q)" if "a \<noteq> NaN" "b \<noteq> NaN" "on_screen cfg q"
    for a b and q :: touchpad
    using that pad_move(3,4) by (simp add: on_screen_def move_def between_clamp)
  moreover have "between (pad_width cfg - 1) (pos_x (current_state p))" "between (pad_height cfg - 1) (pos_y (current_state p))"
    using pad_move(2) by (simp_all add: on_screen_def)
  ultimately show ?case
    using pad_move(2) moved unfolding pad_on.simps pad_touchmove_def Let_def by simp
qed (auto simp: pad_touchstart_def pad_touchend_def release_timer_def Let_def split: option.splits)

text \<open>
  The pointer of a touchpad never leaves the screen: in every run in which each movement comes
  later than the touch that began its gesture, both coordinates are finite and within the element.
\<close>

theorem touchpad_pointer_on_screen:
  assumes "(pad_step cfg)\<^sup>*\<^sup>* new_touchpad p" "1 \<le> pad_width cfg" "1 \<le> pad_height cfg"
  shows "on_screen cfg p"
  using assms
proof (induction rule: rtranclp_induct)
  case base
  then show ?case
    by (simp add: on_screen_def new_touchpad_def new_mouse_state_def)
next
  case (step p p')
  then show ?case
    by (blast intro: pad_step_on_screen)
qed

definition phone :: pad_config where
  "phone = \<lparr>pixel_ratio = 1, pad_width = 400, pad_height = 300\<rparr>"

theorem touchpad_pointer_on_screen_witness:
  "on_screen phone (pad_on phone (Pad_move 10 (50, 5)) (pad_on phone (Pad_start 0 (0, 0) 1) new_touchpad))"
proof (rule touchpad_pointer_on_screen)
  let ?p = "pad_on phone (Pad_start 0 (0, 0) 1) new_touchpad"
  have "pad_step phone new_touchpad ?p" "pad_step phone ?p (pad_on phone (Pad_move 10 (50, 5)) ?p)"
    by (rule pad_start, rule pad_move)
       (simp add: pad_touchstart_def clear_release_timeout_def new_touchpad_def Let_def)
  then show "(pad_step phone)\<^sup>*\<^sup>* new_touchpad (pad_on phone (Pad_move 10 (50, 5)) ?p)"
    by (meson converse_rtranclp_into_rtranclp rtranclp.rtrancl_refl)
qed (simp_all add: phone_def)

text \<open>
  A movement straight down within the millisecond of the touch divides by zero: the pointer has no
  column any more.
\<close>

theorem immediate_movement_loses_pointer:
  "let p = pad_on phone (Pad_move 7 (0, 5)) (pad_on phone (Pad_start 7 (0, 0) 1) new_touchpad)
   in pos_x (current_state p) = NaN \<and> pos_y (current_state p) = Fin 299"
  by (simp add: Let_def pad_touchmove_def pad_touchstart_def clear_release_timeout_def new_touchpad_def
      new_mouse_state_def ddiv_def signed_inf_def move_def dispatch_mouse_def differ_def phone_def)

subsection \<open>Taps\<close>

definition idle_pad :: "touchpad \<Rightarrow> bool" where
  "idle_pad p \<longleftrightarrow> \<not> gesture_in_progress p \<and> timers p = [] \<and> pressed (current_state p) = {}"

text \<open>
  A tap with one, two or three fingers on an idle touchpad clicks the left, the right or the
  middle button: the button is pressed when the fingers are lifted, released when the timeout fires,
  the pointer does not move, and the touchpad is idle again.
\<close>

theorem touchpad_tap_clicks:
  assumes "idle_pad p" "1 \<le> n" "n \<le> 3" "0 < pixel_ratio cfg" "now' - now \<le> click_timing_threshold"
    and "touch_button n = Some b"
  shows "let q = fold (pad_on cfg) [Pad_start now c n, Pad_end now' 0, Pad_timer (next_timer p)] p
    in dispatched q = dispatched p @ clicks 1 b (current_state p) \<and> current_state q = current_state p \<and> idle_pad q"
proof -
  obtain x y where s: "current_state p = \<lparr>pos_x = x, pos_y = y, pressed = {}\<rparr>"
    using assms(1) by (cases "current_state p") (auto simp: idle_pad_def)
  define p1 where "p1 = pad_on cfg (Pad_start now c n) p"
  have 1: "current_state p1 = current_state p" "dispatched p1 = dispatched p" "touch_count p1 = n" "gesture_in_progress p1"
    "last_touch_time p1 = now" "pixels_moved p1 = 0" "timers p1 = []" "next_timer p1 = next_timer p"
    "click_release_timeout p1 = None"
    using assms(1-3)
    by (auto simp: p1_def idle_pad_def pad_touchstart_def clear_release_timeout_def Let_def split: option.splits)
  define p2 where "p2 = pad_on cfg (Pad_end now' 0) p1"
  have 2: "p2 = set_release_timeout b (press b p1)"
    using 1 assms(4-6) s unfolding p2_def
    by (auto simp: pad_touchend_def Let_def click_move_threshold_def set_release_timeout_def press_def)
  have "fold (pad_on cfg) [Pad_start now c n, Pad_end now' 0, Pad_timer (next_timer p)] p = release_timer (next_timer p) p2"
    by (simp add: p1_def p2_def del: pad_on.simps) simp
  then show ?thesis
    using 1 s unfolding 2 Let_def
    by (simp add: release_timer_def set_release_timeout_def press_def release_def dispatch_mouse_def clicks_def idle_pad_def)
qed

theorem touchpad_tap_clicks_witness:
  "let q = fold (pad_on phone) [Pad_start 100 (30, 40) 2, Pad_end 200 0, Pad_timer 0] new_touchpad
   in dispatched q = clicks 1 Right new_mouse_state \<and> current_state q = new_mouse_state"
  using touchpad_tap_clicks [of new_touchpad 2 phone 200 100 Right "(30, 40)"]
  by (simp add: idle_pad_def phone_def click_timing_threshold_def)
     (simp add: new_touchpad_def new_mouse_state_def Let_def)

text \<open>
  A second finger that comes down before the timeout of a tap leaves the left button pressed: the
  end of the gesture looks for the button of two fingers.
\<close>

theorem second_finger_keeps_button_pressed:
  "let p = fold (pad_on phone) [Pad_start 0 (0, 0) 1, Pad_end 100 0, Pad_start 200 (0, 0) 2, Pad_end 900 0] new_touchpad
   in pressed (current_state p) = {Left} \<and> timers p = [] \<and> \<not> gesture_in_progress p"
  by (simp add: pad_touchstart_def pad_touchend_def clear_release_timeout_def set_release_timeout_def new_touchpad_def
      new_mouse_state_def Let_def phone_def click_timing_threshold_def click_move_threshold_def press_def dispatch_mouse_def)

end
