(* ===== verification/Guac_Touchscreen.thy ===== *)
theory Guac_Touchscreen
  imports Guac_Mouse
begin

section \<open>Guacamole.Mouse.Touchscreen\<close>

text \<open>
  A mouse emulated by a touchscreen: a tap clicks the left button, a tap followed by a touch drags,
  and a long press clicks the right button. The two timeouts are the numbers the code keeps in
  variables; \<open>timers\<close> are those that are armed, with what they will do and the touch they keep. The
  distance of \<^verbatim>\<open>finger_moved\<close> is compared by its square.
\<close>

datatype screen_timer = Release_click | Long_press "rat \<times> rat"

record touchscreen = mouse_target +
  gesture_in_progress :: bool
  gesture_start :: "rat \<times> rat"
  click_release_timeout :: "nat option"
  long_press_timeout :: "nat option"
  timers :: "(nat \<times> screen_timer) list"
  next_timer :: nat

definition new_touchscreen :: touchscreen where
  "new_touchscreen = \<lparr>current_state = new_mouse_state, dispatched = [], gesture_in_progress = False,
     gesture_start = (0, 0), click_release_timeout = None, long_press_timeout = None, timers = [], next_timer = 0\<rparr>"

definition click_move_threshold :: "rat \<Rightarrow> rat" where
  "click_move_threshold ratio = 16 * ratio"

definition clear_timeout :: "nat option \<Rightarrow> touchscreen \<Rightarrow> touchscreen" where
  "clear_timeout n p = p\<lparr>timers := filter (\<lambda>t. Some (fst t) \<noteq> n) (timers p)\<rparr>"

definition set_timeout :: "screen_timer \<Rightarrow> touchscreen \<Rightarrow> nat \<times> touchscreen" where
  "set_timeout k p = (next_timer p, p\<lparr>timers := timers p @ [(next_timer p, k)], next_timer := next_timer p + 1\<rparr>)"

text \<open>The touch that \<^verbatim>\<open>finger_moved\<close> looks at is the first touch left on the screen or else the first that changed.\<close>

definition finger_moved :: "rat \<Rightarrow> rat \<times> rat \<Rightarrow> touchscreen \<Rightarrow> bool" where
  "finger_moved ratio c p =
     (let dx = fst c - fst (gesture_start p); dy = snd c - snd (gesture_start p)
      in dx * dx + dy * dy \<ge> click_move_threshold ratio * click_move_threshold ratio)"

definition begin_gesture :: "rat \<times> rat \<Rightarrow> touchscreen \<Rightarrow> touchscreen" where
  "begin_gesture c p = p\<lparr>gesture_in_progress := True, gesture_start := c\<rparr>"

definition end_gesture :: "touchscreen \<Rightarrow> touchscreen" where
  "end_gesture p =
     (clear_timeout (long_press_timeout p) (clear_timeout (click_release_timeout p) p))\<lparr>gesture_in_progress := False\<rparr>"

definition press_at :: "page_element \<Rightarrow> rat \<times> rat \<Rightarrow> touchscreen \<Rightarrow> touchscreen" where
  "press_at el c p =
     (let (n, p1) = set_timeout Release_click (press Left (move_to_client el c p))
      in p1\<lparr>click_release_timeout := Some n\<rparr>)"

definition screen_touchend :: "page_element \<Rightarrow> rat \<Rightarrow> (rat \<times> rat) list \<Rightarrow> (rat \<times> rat) list \<Rightarrow> touchscreen \<Rightarrow> touchscreen" where
  "screen_touchend el ratio touches changed p =
     (if \<not> gesture_in_progress p then p
      else if touches \<noteq> [] \<or> length changed \<noteq> 1 then end_gesture p
      else
        (let p1 = release Left (clear_timeout (long_press_timeout p) p)
         in if finger_moved ratio (hd changed) p1 then p1
            else if Left \<in> pressed (current_state p1) then p1
            else press_at el (hd changed) p1))"

definition screen_touchstart :: "(rat \<times> rat) list \<Rightarrow> touchscreen \<Rightarrow> touchscreen" where
  "screen_touchstart touches p =
     (if length touches \<noteq> 1 then end_gesture p
      else
        (let p1 = begin_gesture (hd touches) p;
             p2 = clear_timeout (click_release_timeout p1) p1;
             (n, p3) = set_timeout (Long_press (hd touches)) p2
         in p3\<lparr>long_press_timeout := Some n\<rparr>))"

text \<open>A movement has at least one touch, its first.\<close>

definition screen_touchmove :: "page_element \<Rightarrow> rat \<Rightarrow> rat \<times> rat \<Rightarrow> nat \<Rightarrow> touchscreen \<Rightarrow> touchscreen" where
  "screen_touchmove el ratio first others p =
     (if \<not> gesture_in_progress p then p
      else
        (let p1 = (if finger_moved ratio first p then clear_timeout (long_press_timeout p) p else p)
         in if others \<noteq> 0 then end_gesture p1
            else if Left \<in> pressed (current_state p1) then move_to_client el first p1
            else p1))"

definition screen_timeout :: "page_element \<Rightarrow> nat \<Rightarrow> touchscreen \<Rightarrow> touchscreen" where
  "screen_timeout el n p =
     (case map_of (timers p) n of
        None \<Rightarrow> p
      | Some k \<Rightarrow>
          (let p1 = clear_timeout (Some n) p
           in case k of
                Release_click \<Rightarrow> end_gesture (release Left p1)
              | Long_press c \<Rightarrow> end_gesture (click Right (move_to_client el c p1))))"

datatype screen_input =
  Screen_start "(rat \<times> rat) list"
| Screen_move "rat \<times> rat" nat
| Screen_end "(rat \<times> rat) list" "(rat \<times> rat) list"
| Screen_timer nat

fun screen_on :: "page_element \<Rightarrow> rat \<Rightarrow> screen_input \<Rightarrow> touchscreen \<Rightarrow> touchscreen" where
  "screen_on el ratio (Screen_start touches) p = screen_touchstart touches p"
| "screen_on el ratio (Screen_move first others) p = screen_touchmove el ratio first others p"
| "screen_on el ratio (Screen_end touches changed) p = screen_touchend el ratio touches changed p"
| "screen_on el ratio (Screen_timer n) p = screen_timeout el n p"

lemma screen_fields [simp]:
  "explained (p\<lparr>gesture_in_progress := a\<rparr>) = explained p" "explained (p\<lparr>gesture_start := b\<rparr>) = explained p"
  "explained (p\<lparr>click_release_timeout := c\<rparr>) = explained p" "explained (p\<lparr>long_press_timeout := c\<rparr>) = explained p"
  "explained (p\<lparr>timers := d\<rparr>) = explained p" "explained (p\<lparr>next_timer := e\<rparr>) = explained p"
  "explained (clear_timeout n p) = explained p" "explained (end_gesture p) = explained p"
  "explained (begin_gesture f p) = explained p"
  by (simp_all add: explained_def clear_timeout_def end_gesture_def begin_gesture_def)

lemma explained_screen_on: "explained p \<Longrightarrow> explained (screen_on el ratio i p)"
  by (cases i)
     (simp_all add: screen_touchend_def screen_touchstart_def screen_touchmove_def screen_timeout_def press_at_def
        set_timeout_def Let_def split: option.splits screen_timer.splits)

interpretation ts: pointing_device new_touchscreen "screen_on el ratio"
  by unfold_locales (simp_all add: new_touchscreen_def explained_screen_on)

subsection \<open>Only the left button is ever held\<close>

lemma screen_states [simp]:
  "current_state (clear_timeout n p) = current_state p" "current_state (end_gesture p) = current_state p"
  "current_state (begin_gesture c p) = current_state p" "dispatched (clear_timeout n p) = dispatched p"
  "dispatched (end_gesture p) = dispatched p" "dispatched (begin_gesture c p) = dispatched p"
  by (simp_all add: clear_timeout_def end_gesture_def begin_gesture_def)

lemma pressed_move_to_client: "pressed (current_state (move_to_client el c t)) = pressed (current_state t)"
  by (simp add: move_to_client_def Let_def pressed_move)

lemma pressed_click: "b \<notin> pressed (current_state t) \<Longrightarrow> pressed (current_state (click b t)) = pressed (current_state t)"
  by (simp add: click_spec)

lemma screen_on_left:
  "pressed (current_state p) \<subseteq> {Left} \<Longrightarrow> pressed (current_state (screen_on el ratio i p)) \<subseteq> {Left}"
  by (cases i)
     (auto simp: screen_touchend_def screen_touchstart_def screen_touchmove_def screen_timeout_def press_at_def set_timeout_def
        Let_def pressed_release pressed_press pressed_move_to_client pressed_click click_def
        split: option.splits screen_timer.splits)

subsection \<open>Taps and long presses\<close>

definition idle_screen :: "touchscreen \<Rightarrow> bool" where
  "idle_screen p \<longleftrightarrow> \<not> gesture_in_progress p \<and> timers p = [] \<and> pressed (current_state p) = {}"

text \<open>What a click at a place dispatches: the movement there, if any, and the click.\<close>

definition click_at :: "page_element \<Rightarrow> rat \<times> rat \<Rightarrow> button \<Rightarrow> touchscreen \<Rightarrow> (mouse_event_type \<times> mouse_state) list" where
  "click_at el c b p =
     (let q = move_to_client el c p in drop (length (dispatched p)) (dispatched q) @ clicks 1 b (current_state q))"

lemma move_to_client_frame [simp]:
  "timers (move_to_client el c p) = timers p" "next_timer (move_to_client el c p) = next_timer p"
  "gesture_in_progress (move_to_client el c p) = gesture_in_progress p"
  "click_release_timeout (move_to_client el c p) = click_release_timeout p"
  "long_press_timeout (move_to_client el c p) = long_press_timeout p"
  by (simp_all add: move_to_client_def Let_def move_def dispatch_mouse_def)

lemma move_to_client_cong:
  assumes "current_state q = current_state p" "dispatched q = dispatched p"
  shows "current_state (move_to_client el c q) = current_state (move_to_client el c p)"
    and "dispatched (move_to_client el c q) = dispatched p @ drop (length (dispatched p)) (dispatched (move_to_client el c p))"
  using assms by (simp_all add: move_to_client_def Let_def move_def)

definition close_to :: "rat \<Rightarrow> rat \<times> rat \<Rightarrow> rat \<times> rat \<Rightarrow> bool" where
  "close_to ratio c c' \<longleftrightarrow> (fst c' - fst c)\<^sup>2 + (snd c' - snd c)\<^sup>2 < (click_move_threshold ratio)\<^sup>2"

text \<open>The state after the first touch, and the pointer that is moved after its timeout is cleared.\<close>

lemma after_first_touch:
  assumes "idle_screen p" and p1: "p1 = screen_on el ratio (Screen_start [c]) p"
  shows "current_state p1 = current_state p \<and> dispatched p1 = dispatched p \<and> gesture_in_progress p1 \<and> gesture_start p1 = c
    \<and> long_press_timeout p1 = Some (next_timer p) \<and> timers p1 = [(next_timer p, Long_press c)] \<and> next_timer p1 = next_timer p + 1"
  using assms
  by (simp add: idle_screen_def screen_touchstart_def begin_gesture_def clear_timeout_def set_timeout_def Let_def)

lemma moved_after_touch:
  assumes idle: "idle_screen p" and p1: "p1 = screen_on el ratio (Screen_start [c]) p"
    and q: "q = move_to_client el c' (clear_timeout (Some (next_timer p)) p1)"
  shows "current_state q = current_state (move_to_client el c' p)"
    and "dispatched q = dispatched p @ drop (length (dispatched p)) (dispatched (move_to_client el c' p))"
    and "pressed (current_state q) = {}" "timers q = []" "next_timer q = next_timer p + 1"
  using move_to_client_cong [of "clear_timeout (Some (next_timer p)) p1" p el c'] after_first_touch [OF idle p1] idle
  unfolding q by (simp_all add: pressed_move_to_client idle_screen_def) (simp_all add: clear_timeout_def)

lemma tap_clicks_left:
  assumes idle: "idle_screen p" and close: "close_to ratio c c'" and p1: "p1 = screen_on el ratio (Screen_start [c]) p"
  shows "dispatched (screen_timeout el (next_timer p + 1) (screen_on el ratio (Screen_end [] [c']) p1))
      = dispatched p @ click_at el c' Left p
    \<and> idle_screen (screen_timeout el (next_timer p + 1) (screen_on el ratio (Screen_end [] [c']) p1))"
proof -
  let ?k = "clear_timeout (Some (next_timer p)) p1"
  note 1 = after_first_touch [OF idle p1] and q = moved_after_touch [OF idle p1 refl, of c']
  have "\<not> finger_moved ratio c' ?k"
    using close 1 by (simp add: finger_moved_def close_to_def Let_def clear_timeout_def power2_eq_square)
  then have 2: "screen_on el ratio (Screen_end [] [c']) p1 = press_at el c' ?k"
    using 1 idle by (simp add: screen_touchend_def Let_def release_def idle_screen_def)
  show ?thesis
    using q unfolding 2 press_at_def set_timeout_def Let_def
    by (simp add: screen_timeout_def Let_def press_def release_def dispatch_mouse_def clear_timeout_def end_gesture_def
        clicks_def idle_screen_def click_at_def)
qed

lemma long_press_clicks_right:
  assumes idle: "idle_screen p" and p1: "p1 = screen_on el ratio (Screen_start [c]) p"
  shows "dispatched (screen_timeout el (next_timer p) p1) = dispatched p @ click_at el c Right p
    \<and> idle_screen (screen_timeout el (next_timer p) p1)"
proof -
  let ?q = "move_to_client el c (clear_timeout (Some (next_timer p)) p1)"
  note q = moved_after_touch [OF idle p1 refl, of c]
  have eq: "screen_timeout el (next_timer p) p1 = end_gesture (click Right ?q)"
    using after_first_touch [OF idle p1] by (simp add: screen_timeout_def Let_def)
  have "timers (click Right ?q) = []"
    using q(4) by (simp add: click_def press_def release_def dispatch_mouse_def)
  then have "idle_screen (end_gesture (click Right ?q))"
    using q(3) by (simp add: idle_screen_def click_spec) (simp add: end_gesture_def clear_timeout_def)
  then show ?thesis
    using q unfolding eq by (simp add: click_spec click_at_def Let_def)
qed

text \<open>
  On an idle touchscreen a tap moves the pointer to the place where the finger was lifted and
  clicks the left button there, and a long press moves it to the place that was touched and clicks
  the right button; afterwards the touchscreen is idle again.
\<close>

theorem touchscreen_gestures_click:
  assumes "idle_screen p" "close_to ratio c c'"
  shows "let tap = fold (screen_on el ratio) [Screen_start [c], Screen_end [] [c'], Screen_timer (next_timer p + 1)] p;
             long = fold (screen_on el ratio) [Screen_start [c], Screen_timer (next_timer p)] p
         in dispatched tap = dispatched p @ click_at el c' Left p \<and> idle_screen tap
            \<and> dispatched long = dispatched p @ click_at el c Right p \<and> idle_screen long"
  using tap_clicks_left [OF assms refl, of el] long_press_clicks_right [OF assms(1) refl, of el ratio c]
  by (simp add: Let_def)

theorem touchscreen_gestures_click_witness:
  "let tap = fold (screen_on plain_page 1) [Screen_start [(30, 40)], Screen_end [] [(31, 42)], Screen_timer 1] new_touchscreen
   in dispatched tap = click_at plain_page (31, 42) Left new_touchscreen \<and> idle_screen tap"
proof -
  have "idle_screen new_touchscreen" "close_to 1 (30, 40) (31, 42)"
    by (simp_all add: idle_screen_def new_touchscreen_def new_mouse_state_def close_to_def click_move_threshold_def)
  with touchscreen_gestures_click [OF this, of plain_page] show ?thesis
    by (simp add: new_touchscreen_def Let_def)
qed

text \<open>
  A touch with two fingers before the timeout of a tap ends the gesture and cancels the timeout, but
  leaves the left button pressed.
\<close>

theorem second_finger_keeps_left_pressed:
  "let p = fold (screen_on plain_page 1)
             [Screen_start [(30, 40)], Screen_end [] [(30, 40)], Screen_start [(30, 40), (90, 40)], Screen_end [] [(30, 40), (90, 40)]]
             new_touchscreen
   in pressed (current_state p) = {Left} \<and> timers p = [] \<and> \<not> gesture_in_progress p"
  by (simp add: screen_touchstart_def screen_touchend_def begin_gesture_def clear_timeout_def set_timeout_def press_at_def
      end_gesture_def new_touchscreen_def new_mouse_state_def Let_def finger_moved_def click_move_threshold_def release_def press_def
      dispatch_mouse_def move_to_client_def move_def from_client_position_def plain_page_def or_rat_def differ_def)

end
