(* ===== verification/Guac_Touch.thy ===== *)
theory Guac_Touch
  imports Guac_Mouse
begin

section \<open>Guacamole.Touch\<close>

text \<open>
  The touches on an element, tracked by their identifiers. The events that were dispatched are the
  list \<open>touch_events\<close>, each with the state of its touch at that moment. A property of a touch that
  the browser does not report is \<open>None\<close>; the operator \<^verbatim>\<open>||\<close> replaces it, and zero, by a default.
\<close>

record touch_state =
  touch_id :: int
  touch_pos :: "rat \<times> rat"
  radius_x :: rat
  radius_y :: rat
  angle :: rat
  force :: rat

record changed_touch =
  contact_id :: int
  client_pos :: "rat \<times> rat"
  reported_radius_x :: "rat option"
  reported_radius_y :: "rat option"
  reported_angle :: "rat option"
  reported_force :: "rat option"

datatype touch_event_type = Touchstart | Touchmove | Touchend

record touch =
  touches :: "int \<rightharpoonup> touch_state"
  active_touches :: int
  touch_events :: "(touch_event_type \<times> touch_state) list"

definition new_touch :: touch where
  "new_touch = \<lparr>touches = Map.empty, active_touches = 0, touch_events = []\<rparr>"

definition DEFAULT_CONTACT_RADIUS :: "rat \<Rightarrow> rat" where
  "DEFAULT_CONTACT_RADIUS ratio = of_int \<lfloor>16 * ratio\<rfloor>"

definition or_else :: "rat option \<Rightarrow> rat \<Rightarrow> rat" where
  "or_else a d = (case a of None \<Rightarrow> d | Some v \<Rightarrow> if v = 0 then d else v)"

definition dispatch_touch :: "touch_event_type \<Rightarrow> touch_state \<Rightarrow> touch \<Rightarrow> touch" where
  "dispatch_touch ty s t = t\<lparr>touch_events := touch_events t @ [(ty, s)]\<rparr>"

definition place :: "page_element \<Rightarrow> changed_touch \<Rightarrow> touch_state \<Rightarrow> touch_state" where
  "place el c s = s\<lparr>touch_pos := from_client_position el (fst (client_pos c)) (snd (client_pos c))\<rparr>"

definition touch_started :: "page_element \<Rightarrow> rat \<Rightarrow> changed_touch \<Rightarrow> touch \<Rightarrow> touch" where
  "touch_started el ratio c t =
     (case touches t (contact_id c) of
        Some s \<Rightarrow> t
      | None \<Rightarrow>
          (let s = place el c
                 \<lparr>touch_id = contact_id c, touch_pos = (0, 0),
                  radius_x = or_else (reported_radius_x c) (DEFAULT_CONTACT_RADIUS ratio),
                  radius_y = or_else (reported_radius_y c) (DEFAULT_CONTACT_RADIUS ratio),
                  angle = or_else (reported_angle c) 0, force = or_else (reported_force c) 1\<rparr>
           in dispatch_touch Touchmove s
                (t\<lparr>touches := (touches t)(contact_id c \<mapsto> s), active_touches := active_touches t + 1\<rparr>)))"

definition touch_moved :: "page_element \<Rightarrow> rat \<Rightarrow> changed_touch \<Rightarrow> touch \<Rightarrow> touch" where
  "touch_moved el ratio c t =
     (case touches t (contact_id c) of
        None \<Rightarrow> t
      | Some s0 \<Rightarrow>
          (let s = place el c
                 (s0\<lparr>force := or_else (reported_force c) (force s0), angle := or_else (reported_angle c) 0,
                    radius_x := or_else (reported_radius_x c) (DEFAULT_CONTACT_RADIUS ratio),
                    radius_y := or_else (reported_radius_y c) (DEFAULT_CONTACT_RADIUS ratio)\<rparr>)
           in dispatch_touch Touchmove s (t\<lparr>touches := (touches t)(contact_id c \<mapsto> s)\<rparr>)))"

definition touch_ended :: "page_element \<Rightarrow> changed_touch \<Rightarrow> touch \<Rightarrow> touch" where
  "touch_ended el c t =
     (case touches t (contact_id c) of
        None \<Rightarrow> t
      | Some s0 \<Rightarrow>
          dispatch_touch Touchend (place el c (s0\<lparr>force := 0\<rparr>))
            (t\<lparr>touches := (touches t)(contact_id c := None), active_touches := active_touches t - 1\<rparr>))"

datatype touch_input = Start "changed_touch list" | Move "changed_touch list" | End "changed_touch list"

fun touch_on :: "page_element \<Rightarrow> rat \<Rightarrow> touch_input \<Rightarrow> touch \<Rightarrow> touch" where
  "touch_on el ratio (Start cs) t = fold (touch_started el ratio) cs t"
| "touch_on el ratio (Move cs) t = fold (touch_moved el ratio) cs t"
| "touch_on el ratio (End cs) t = fold (touch_ended el) cs t"

subsection \<open>The table agrees with the events\<close>

text \<open>What the last event of a touch says: the touch is on the element with this state, or it is not there.\<close>

definition reported :: "int \<Rightarrow> (touch_event_type \<times> touch_state) list \<Rightarrow> touch_state option" where
  "reported k es =
     (case filter (\<lambda>e. touch_id (snd e) = k) es of
        [] \<Rightarrow> None
      | e # es' \<Rightarrow> (case last (e # es') of (Touchend, s) \<Rightarrow> None | (ty, s) \<Rightarrow> Some s))"

lemma reported_snoc:
  "reported k (es @ [(ty, s)]) = (if touch_id s = k then (if ty = Touchend then None else Some s) else reported k es)"
proof (cases "filter (\<lambda>e. touch_id (snd e) = k) es")
  case (Cons a list)
  then show ?thesis
    by (cases ty) (simp_all add: reported_def)
qed (cases ty; simp add: reported_def)

definition touch_ok :: "touch \<Rightarrow> bool" where
  "touch_ok t \<longleftrightarrow> finite (dom (touches t)) \<and> active_touches t = int (card (dom (touches t)))
     \<and> (\<forall>k s. touches t k = Some s \<longrightarrow> touch_id s = k) \<and> touches t = (\<lambda>k. reported k (touch_events t))
     \<and> (\<forall>e \<in> set (touch_events t). fst e \<noteq> Touchstart \<and> (fst e = Touchend \<longrightarrow> force (snd e) = 0))"

lemma touch_ok_count: "touch_ok t \<Longrightarrow> finite (dom (touches t)) \<and> active_touches t = int (card (dom (touches t)))"
  unfolding touch_ok_def by blast

lemma new_touch_ok: "touch_ok new_touch"
  by (simp add: touch_ok_def new_touch_def reported_def)

lemma place_sel [simp]: "touch_id (place el c s) = touch_id s" "force (place el c s) = force s"
  by (simp_all add: place_def)

lemma touch_ok_update:
  assumes ok: "touch_ok t" and id: "touch_id s = k" and ty: "ty \<noteq> Touchstart" "ty = Touchend \<Longrightarrow> force s = 0"
    and m: "m = (if ty = Touchend then (touches t)(k := None) else (touches t)(k \<mapsto> s))"
    and n: "n = int (card (dom m))"
  shows "touch_ok (dispatch_touch ty s (t\<lparr>touches := m, active_touches := n\<rparr>))"
proof -
  have "m = (\<lambda>j. reported j (touch_events t @ [(ty, s)]))"
    using ok id by (auto simp: touch_ok_def reported_snoc m fun_eq_iff)
  moreover have "finite (dom m)" "\<forall>j s'. m j = Some s' \<longrightarrow> touch_id s' = j"
    using ok id by (auto simp: touch_ok_def m split: if_splits)
  ultimately show ?thesis
    using ok ty n by (auto simp: touch_ok_def dispatch_touch_def)
qed

lemma touch_started_ok:
  assumes "touch_ok t"
  shows "touch_ok (touch_started el ratio c t)"
proof (cases "touches t (contact_id c)")
  case None
  then have "active_touches t + 1 = int (card (dom ((touches t)(contact_id c \<mapsto> s))))" for s
    using touch_ok_count [OF assms] by (simp add: domIff)
  then have "touch_ok (dispatch_touch Touchmove s (t\<lparr>touches := (touches t)(contact_id c \<mapsto> s), active_touches := active_touches t + 1\<rparr>))"
    if "touch_id s = contact_id c" for s
    using that assms by (intro touch_ok_update [of _ _ "contact_id c"]) auto
  then show ?thesis
    using None by (simp add: touch_started_def Let_def)
qed (simp add: touch_started_def assms)

lemma touch_moved_ok:
  assumes "touch_ok t"
  shows "touch_ok (touch_moved el ratio c t)"
proof (cases "touches t (contact_id c)")
  case (Some s0)
  have "dom ((touches t)(contact_id c \<mapsto> s)) = dom (touches t)" for s
    using Some by (auto simp: dom_def)
  then have "active_touches t = int (card (dom ((touches t)(contact_id c \<mapsto> s))))" for s
    using assms by (simp add: touch_ok_def)
  moreover have "touch_id s0 = contact_id c"
    using assms Some by (simp add: touch_ok_def)
  ultimately have "touch_ok (dispatch_touch Touchmove s (t\<lparr>touches := (touches t)(contact_id c \<mapsto> s), active_touches := active_touches t\<rparr>))"
    if "touch_id s = contact_id c" for s
    using that assms by (intro touch_ok_update [of _ _ "contact_id c"]) auto
  moreover have "t\<lparr>touches := m, active_touches := active_touches t\<rparr> = t\<lparr>touches := m\<rparr>" for m
    by (cases t) simp
  ultimately show ?thesis
    using Some \<open>touch_id s0 = contact_id c\<close> by (simp add: touch_moved_def Let_def)
qed (simp add: touch_moved_def assms)

lemma touch_ended_ok:
  assumes "touch_ok t"
  shows "touch_ok (touch_ended el c t)"
proof (cases "touches t (contact_id c)")
  case (Some s0)
  then have "contact_id c \<in> dom (touches t)" "touch_id s0 = contact_id c"
    using assms by (auto simp: touch_ok_def)
  moreover from this have "active_touches t - 1 = int (card (dom ((touches t)(contact_id c := None))))"
    using touch_ok_count [OF assms] card_Suc_Diff1 [of "dom (touches t)" "contact_id c"] by auto
  ultimately show ?thesis
    using assms Some by (simp add: touch_ended_def touch_ok_update)
qed (simp add: touch_ended_def assms)

lemma touch_on_ok: "touch_ok t \<Longrightarrow> touch_ok (touch_on el ratio i t)"
proof (cases i)
  case (Start cs)
  assume "touch_ok t"
  then show ?thesis
    unfolding Start touch_on.simps by (induction cs arbitrary: t) (auto intro: touch_started_ok)
next
  case (Move cs)
  assume "touch_ok t"
  then show ?thesis
    unfolding Move touch_on.simps by (induction cs arbitrary: t) (auto intro: touch_moved_ok)
next
  case (End cs)
  assume "touch_ok t"
  then show ?thesis
    unfolding End touch_on.simps by (induction cs arbitrary: t) (auto intro: touch_ended_ok)
qed

lemma run_touch_ok: "touch_ok (fold (touch_on el ratio) ins new_touch)"
proof -
  have "touch_ok t \<Longrightarrow> touch_ok (fold (touch_on el ratio) ins t)" for t
    by (induction ins arbitrary: t) (auto intro: touch_on_ok)
  then show ?thesis
    using new_touch_ok by blast
qed

text \<open>
  Through every run of touches, the number of active touches is the number of touches in the
  table, a touch is in the table exactly when the last event about it was not its end, with the
  state of that event, and the end of a touch always reports no force.
\<close>

theorem touches_follow_events:
  "let t = fold (touch_on el ratio) ins new_touch
   in active_touches t = int (card (dom (touches t)))
      \<and> touches t = (\<lambda>k. reported k (touch_events t))
      \<and> list_all (\<lambda>e. force (snd e) = 0) (filter (\<lambda>e. fst e = Touchend) (touch_events t))"
  using run_touch_ok [of el ratio ins] by (auto simp: touch_ok_def Let_def list_all_iff)

text \<open>The event that announces a new touch is a movement: the documented event of its start never occurs.\<close>

theorem touchstart_never_dispatched:
  "list_all (\<lambda>e. fst e \<noteq> Touchstart) (touch_events (fold (touch_on el ratio) ins new_touch))"
  using run_touch_ok [of el ratio ins] by (auto simp: touch_ok_def list_all_iff)

end
