(* ===== verification/Guac_Osk.thy ===== *)
theory Guac_Osk
  imports Guac_Prelude "HOL-Library.List_Lexorder" Complex_Main
begin

section \<open>Guacamole.OnScreenKeyboard\<close>

text \<open>
  The on-screen keyboard: the keys and the layout it is built from, the elements it builds, the
  modifiers that stay pressed until they are pressed again, and the key events it reports. A key of
  the layout may have several variants, and the last one whose required modifiers are all pressed is
  the active one. The events reported are the list \<open>osk_events\<close>; \<open>Type_error\<close> is the exception that
  a key without an active variant causes. The element of a key is a number.
\<close>

subsection \<open>Class names\<close>

text \<open>
  The class attribute of an element is a string of names separated by spaces. Where the browser has
  \<^verbatim>\<open>classList\<close> it changes the set of names, and otherwise the code changes the string.
\<close>

fun split_word :: "jsstring \<Rightarrow> jsstring \<times> jsstring" where
  "split_word [] = ([], [])"
| "split_word (c # s) = (if c = 32 then ([], c # s) else (let (w, r) = split_word s in (c # w, r)))"

lemma split_word_length: "length (snd (split_word s)) \<le> length s"
  by (induction s) (auto simp: Let_def split: prod.splits)

lemma dropWhile_shorter [termination_simp]: "length (dropWhile P s) < Suc (length s)"
  using length_dropWhile_le [of P s] by linarith

lemma split_word_shorter [termination_simp]:
  "length (snd (split_word s)) < Suc (length s)" "length (dropWhile P (snd (split_word s))) < Suc (length s)"
  using split_word_length [of s] length_dropWhile_le [of P "snd (split_word s)"] by linarith+

fun words :: "jsstring \<Rightarrow> jsstring list" where
  "words [] = []"
| "words (c # s) = (if c = 32 then words s else (c # fst (split_word s)) # words (snd (split_word s)))"

definition unwords :: "jsstring list \<Rightarrow> jsstring" where
  "unwords ws = (case ws of [] \<Rightarrow> [] | w # ws' \<Rightarrow> w @ concat (map (\<lambda>v. 32 # v) ws'))"

definition add_class :: "bool \<Rightarrow> jsstring \<Rightarrow> jsstring \<Rightarrow> jsstring" where
  "add_class class_list c attr =
     (if class_list then unwords (if c \<in> set (words attr) then remdups (words attr) else remdups (words attr) @ [c])
      else attr @ [32] @ c)"

text \<open>The replacement of every word and the spaces after it, by nothing if the word is the name.\<close>

fun drop_words :: "jsstring \<Rightarrow> jsstring \<Rightarrow> jsstring" where
  "drop_words c [] = []"
| "drop_words c (x # s) =
     (if x = 32 then x # drop_words c s
      else
        (let w = x # fst (split_word s); r = snd (split_word s); spaces = takeWhile (\<lambda>y. y = 32) r
         in (if w = c then [] else w @ spaces) @ drop_words c (dropWhile (\<lambda>y. y = 32) r)))"

definition remove_class :: "bool \<Rightarrow> jsstring \<Rightarrow> jsstring \<Rightarrow> jsstring" where
  "remove_class class_list c attr =
     (if class_list then unwords (filter (\<lambda>w. w \<noteq> c) (remdups (words attr))) else drop_words c attr)"

text \<open>From a name to the part of a class name: hyphens between lower and upper case, and for every run of other characters.\<close>

definition lower :: "nat \<Rightarrow> bool" where "lower c \<longleftrightarrow> 97 \<le> c \<and> c \<le> 122"
definition upper :: "nat \<Rightarrow> bool" where "upper c \<longleftrightarrow> 65 \<le> c \<and> c \<le> 90"
definition alnum :: "nat \<Rightarrow> bool" where "alnum c \<longleftrightarrow> lower c \<or> upper c \<or> 48 \<le> c \<and> c \<le> 57"

fun hyphenate :: "jsstring \<Rightarrow> jsstring" where
  "hyphenate (a # b # s) = (if lower a \<and> upper b then a # 45 # b # hyphenate s else a # hyphenate (b # s))"
| "hyphenate s = s"

fun collapse :: "jsstring \<Rightarrow> jsstring" where
  "collapse [] = []"
| "collapse (c # s) = (if alnum c then c # collapse s else 45 # collapse (dropWhile (\<lambda>x. \<not> alnum x) s))"

definition to_lower :: "nat \<Rightarrow> nat" where
  "to_lower c = (if upper c then c + 32 else c)"

definition get_css_name :: "jsstring \<Rightarrow> jsstring" where
  "get_css_name name = map to_lower (collapse (hyphenate name))"

subsection \<open>Keys\<close>

type_synonym keysym = "int option"

record key_template =
  t_name :: "jsstring option"
  t_title :: "jsstring option"
  t_keysym :: keysym
  t_modifier :: "jsstring option"
  t_requires :: "jsstring list"

record osk_key =
  key_name :: "jsstring option"
  title :: "jsstring option"
  keysym :: keysym
  modifier :: "jsstring option"
  requires :: "jsstring list"

datatype key_spec = Key_array "key_template list" | Key_keysym int | Key_title jsstring | Key_object key_template

definition or_string :: "jsstring option \<Rightarrow> jsstring option \<Rightarrow> jsstring option" where
  "or_string a b = (if a = None \<or> a = Some [] then b else a)"

definition derive_keysym :: "jsstring option \<Rightarrow> keysym" where
  "derive_keysym t =
     (case t of
        Some [c] \<Rightarrow> Some (if c \<le> 255 then int c else 16777216 + int c)
      | _ \<Rightarrow> None)"

definition new_key :: "key_template \<Rightarrow> jsstring option \<Rightarrow> osk_key" where
  "new_key tm name =
     (let n = or_string name (t_name tm); t = or_string (t_title tm) n
      in \<lparr>key_name = n, title = t,
          keysym = (if t_keysym tm = None \<or> t_keysym tm = Some 0 then derive_keysym t else t_keysym tm),
          modifier = t_modifier tm, requires = t_requires tm\<rparr>)"

definition named_template :: "jsstring \<Rightarrow> key_template" where
  "named_template name = \<lparr>t_name = Some name, t_title = None, t_keysym = None, t_modifier = None, t_requires = []\<rparr>"

fun as_key_array :: "jsstring \<Rightarrow> key_spec \<Rightarrow> osk_key list" where
  "as_key_array name (Key_array ts) = map (\<lambda>t. new_key t (Some name)) ts"
| "as_key_array name (Key_keysym k) = [new_key ((named_template name)\<lparr>t_keysym := Some k\<rparr>) None]"
| "as_key_array name (Key_title t) = [new_key ((named_template name)\<lparr>t_title := Some t\<rparr>) None]"
| "as_key_array name (Key_object t) = [new_key t (Some name)]"

definition get_keys :: "(jsstring \<times> key_spec) list \<Rightarrow> jsstring \<rightharpoonup> osk_key list" where
  "get_keys specs = map_of (map (\<lambda>(name, spec). (name, as_key_array name spec)) specs)"

subsection \<open>Layout\<close>

datatype layout_node =
  Row "layout_node list"
| Columns "(jsstring \<times> layout_node) list"
| Gap rat
| Key_ref jsstring

record osk_layout =
  layout_keys :: "(jsstring \<times> key_spec) list"
  layout_root :: layout_node
  layout_width :: rat
  key_widths :: "jsstring \<rightharpoonup> rat"

record scaled_element =
  unit_width :: rat
  unit_height :: rat
  scale_font :: bool

text \<open>
  The elements: a group, a gap, or the container of a key with the classes of the key element, the
  name of the key and its caps, each with its classes and its text.
\<close>

datatype osk_node =
  Group_div "jsstring list" "osk_node list"
| Gap_div "jsstring list"
| Key_div "jsstring list" "jsstring list" jsstring "(jsstring list \<times> jsstring option) list"

definition css :: "string \<Rightarrow> jsstring \<Rightarrow> jsstring" where
  "css prefix name = js prefix @ get_css_name name"

fun hex_str :: "nat \<Rightarrow> jsstring" where
  "hex_str n = (let d = (if n mod 16 < 10 then 48 + n mod 16 else 87 + n mod 16)
                in if n < 16 then [d] else hex_str (n div 16) @ [d])"

declare hex_str.simps [simp del]

definition key_class_name :: "jsstring \<Rightarrow> jsstring" where
  "key_class_name k = (case k of [c] \<Rightarrow> js ''0x'' @ hex_str c | _ \<Rightarrow> k)"

definition key_div :: "(jsstring \<rightharpoonup> osk_key list) \<Rightarrow> jsstring list \<Rightarrow> jsstring \<Rightarrow> osk_node" where
  "key_div keys named k =
     (let ks = (case keys k of None \<Rightarrow> [] | Some ks \<Rightarrow> ks)
      in Key_div (named @ [js ''guac-keyboard-key-container''])
           ([js ''guac-keyboard-key'', css ''guac-keyboard-key-'' (key_class_name k)]
            @ concat (map (\<lambda>key. map (css ''guac-keyboard-uses-'') (requires key)) ks))
           k
           (map (\<lambda>key. (js ''guac-keyboard-cap'' # map (css ''guac-keyboard-requires-'') (requires key), title key)) ks))"

text \<open>
  The children of an object are appended in the order of their names. They are translated before
  they are put in order here, which gives the same elements.
\<close>

definition by_name :: "(jsstring \<times> 'a) list \<Rightarrow> 'a list" where
  "by_name cs = map snd (sort_key fst cs)"

definition class_of_name :: "jsstring option \<Rightarrow> jsstring list" where
  "class_of_name name = (case name of None \<Rightarrow> [] | Some n \<Rightarrow> if n = [] then [] else [css ''guac-keyboard-'' n])"

fun append_elements :: "(jsstring \<rightharpoonup> osk_key list) \<Rightarrow> jsstring option \<Rightarrow> layout_node \<Rightarrow> osk_node" where
  "append_elements keys name (Row ns) =
     Group_div (class_of_name name @ [js ''guac-keyboard-group'']) (map (append_elements keys None) ns)"
| "append_elements keys name (Columns cs) =
     Group_div (class_of_name name @ [js ''guac-keyboard-group''])
       (by_name (map (\<lambda>(n, c). (n, append_elements keys (Some n) c)) cs))"
| "append_elements keys name (Gap n) = Gap_div (class_of_name name @ [js ''guac-keyboard-gap''])"
| "append_elements keys name (Key_ref k) = key_div keys (class_of_name name) k"

text \<open>The elements that are resized with the keyboard, in the order in which they are created.\<close>

fun scaled_elements :: "(jsstring \<rightharpoonup> rat) \<Rightarrow> layout_node \<Rightarrow> scaled_element list" where
  "scaled_elements widths (Row ns) = concat (map (scaled_elements widths) ns)"
| "scaled_elements widths (Columns cs) = concat (by_name (map (\<lambda>(n, c). (n, scaled_elements widths c)) cs))"
| "scaled_elements widths (Gap n) = [\<lparr>unit_width = n, unit_height = n, scale_font = False\<rparr>]"
| "scaled_elements widths (Key_ref k) =
     [\<lparr>unit_width = (case widths k of None \<Rightarrow> 1 | Some w \<Rightarrow> if w = 0 then 1 else w), unit_height = 1, scale_font = True\<rparr>]"

record element_style =
  style_width :: rat
  style_height :: rat
  style_font :: "(rat \<times> rat) option"

definition scale_element :: "rat \<Rightarrow> scaled_element \<Rightarrow> element_style" where
  "scale_element pixels e =
     \<lparr>style_width = unit_width e * pixels, style_height = unit_height e * pixels,
      style_font = (if scale_font e then Some (unit_height e * pixels, pixels) else None)\<rparr>"

definition resize_unit :: "osk_layout \<Rightarrow> rat \<Rightarrow> rat" where
  "resize_unit l width = of_int \<lfloor>width * 10 / layout_width l\<rfloor> / 10"

definition resize :: "osk_layout \<Rightarrow> rat \<Rightarrow> element_style list" where
  "resize l width = map (scale_element (resize_unit l width)) (scaled_elements (key_widths l) (layout_root l))"

subsection \<open>Pressing and releasing keys\<close>

datatype osk_event = Key_down keysym | Key_up keysym | Type_error

record osk =
  osk_keys :: "jsstring \<rightharpoonup> osk_key list"
  modifier_keysyms :: "jsstring \<rightharpoonup> keysym"
  pressed :: "jsstring \<Rightarrow> bool"
  ignore_mouse :: nat
  keyboard_class :: jsstring
  element_class :: "nat \<Rightarrow> jsstring"
  osk_events :: "osk_event list"

definition new_osk :: "osk_layout \<Rightarrow> (nat \<Rightarrow> jsstring) \<Rightarrow> osk" where
  "new_osk l classes = \<lparr>osk_keys = get_keys (layout_keys l), modifier_keysyms = Map.empty, pressed = (\<lambda>k. False), ignore_mouse = 0,
     keyboard_class = js ''guac-keyboard'', element_class = classes, osk_events = []\<rparr>"

definition report :: "osk_event \<Rightarrow> osk \<Rightarrow> osk" where
  "report ev k = k\<lparr>osk_events := osk_events k @ [ev]\<rparr>"

definition modifiers_pressed :: "osk \<Rightarrow> jsstring list \<Rightarrow> bool" where
  "modifiers_pressed k names = list_all (\<lambda>n. modifier_keysyms k n \<noteq> None) names"

definition get_active_key :: "osk \<Rightarrow> jsstring \<Rightarrow> osk_key option" where
  "get_active_key k name =
     (case osk_keys k name of None \<Rightarrow> None | Some ks \<Rightarrow> find (\<lambda>c. modifiers_pressed k (requires c)) (rev ks))"

definition meaningful :: "keysym \<Rightarrow> bool" where
  "meaningful ks \<longleftrightarrow> ks \<noteq> None \<and> ks \<noteq> Some 0"

definition is_modifier :: "osk_key \<Rightarrow> bool" where
  "is_modifier key \<longleftrightarrow> modifier key \<noteq> None \<and> modifier key \<noteq> Some []"

definition toggle_modifier :: "bool \<Rightarrow> jsstring \<Rightarrow> keysym \<Rightarrow> osk \<Rightarrow> osk" where
  "toggle_modifier cl m ks k =
     (case modifier_keysyms k m of
        None \<Rightarrow>
          (let k1 = k\<lparr>keyboard_class := add_class cl (css ''guac-keyboard-modifier-'' m) (keyboard_class k),
                      modifier_keysyms := (modifier_keysyms k)(m \<mapsto> ks)\<rparr>
           in if meaningful ks then report (Key_down ks) k1 else k1)
      | Some original \<Rightarrow>
          (let k1 = k\<lparr>keyboard_class := remove_class cl (css ''guac-keyboard-modifier-'' m) (keyboard_class k),
                      modifier_keysyms := (modifier_keysyms k)(m := None)\<rparr>
           in if meaningful original then report (Key_up original) k1 else k1))"

definition press :: "bool \<Rightarrow> jsstring \<Rightarrow> nat \<Rightarrow> osk \<Rightarrow> osk" where
  "press cl name el k =
     (if pressed k name then k
      else
        (let k1 = k\<lparr>element_class := (element_class k)(el := add_class cl (js ''guac-keyboard-pressed'') (element_class k el))\<rparr>
         in case get_active_key k1 name of
              None \<Rightarrow> report Type_error k1
            | Some key \<Rightarrow>
                (let k2 = (if is_modifier key then toggle_modifier cl (the (modifier key)) (keysym key) k1
                           else report (Key_down (keysym key)) k1)
                 in k2\<lparr>pressed := (pressed k2)(name := True)\<rparr>)))"

definition release :: "bool \<Rightarrow> jsstring \<Rightarrow> nat \<Rightarrow> osk \<Rightarrow> osk" where
  "release cl name el k =
     (if pressed k name then
        (let k1 = k\<lparr>element_class := (element_class k)(el := remove_class cl (js ''guac-keyboard-pressed'') (element_class k el))\<rparr>
         in case get_active_key k1 name of
              None \<Rightarrow> report Type_error k1
            | Some key \<Rightarrow>
                (let k2 = (if is_modifier key then k1 else report (Key_up (keysym key)) k1)
                 in k2\<lparr>pressed := (pressed k2)(name := False)\<rparr>))
      else k)"

text \<open>
  The events of the keys. Events of the mouse also reach the keyboard, which counts down the events
  to ignore after a touch.
\<close>

datatype osk_input =
  Touch_press jsstring nat
| Touch_release jsstring nat
| Mouse_press jsstring nat
| Mouse_release jsstring nat
| Mouse_leave jsstring nat
| Mouse_elsewhere

definition touch_mouse_threshold :: nat where "touch_mouse_threshold = 3"

definition handle_mouse_events :: "osk \<Rightarrow> osk" where
  "handle_mouse_events k = k\<lparr>ignore_mouse := ignore_mouse k - 1\<rparr>"

fun osk_on :: "bool \<Rightarrow> osk_input \<Rightarrow> osk \<Rightarrow> osk" where
  "osk_on cl (Touch_press name el) k = press cl name el (k\<lparr>ignore_mouse := touch_mouse_threshold\<rparr>)"
| "osk_on cl (Touch_release name el) k = release cl name el (k\<lparr>ignore_mouse := touch_mouse_threshold\<rparr>)"
| "osk_on cl (Mouse_press name el) k =
     handle_mouse_events (if ignore_mouse k = 0 then press cl name el k else k)"
| "osk_on cl (Mouse_release name el) k =
     handle_mouse_events (if ignore_mouse k = 0 then release cl name el k else k)"
| "osk_on cl (Mouse_leave name el) k = (if ignore_mouse k = 0 then release cl name el k else k)"
| "osk_on cl Mouse_elsewhere k = handle_mouse_events k"

subsection \<open>Class attributes\<close>

lemma split_word_spec:
  "s = fst (split_word s) @ snd (split_word s) \<and> 32 \<notin> set (fst (split_word s))
   \<and> (snd (split_word s) = [] \<or> hd (snd (split_word s)) = 32)"
  by (induction s) (auto simp: Let_def split: prod.splits)

lemma words_no_space: "w \<in> set (words s) \<Longrightarrow> w \<noteq> [] \<and> 32 \<notin> set w"
  using split_word_spec by (induction s rule: words.induct) (auto split: if_splits)

lemma split_word_append: "32 \<notin> set w \<Longrightarrow> split_word (w @ 32 # s) = (w, 32 # s)"
  by (induction w) auto

lemma split_word_whole: "32 \<notin> set w \<Longrightarrow> split_word w = (w, [])"
  by (induction w) auto

lemma words_word: "w \<noteq> [] \<Longrightarrow> 32 \<notin> set w \<Longrightarrow> words w = [w]"
  by (cases w) (simp_all add: split_word_whole)

lemma words_Cons_word: "w \<noteq> [] \<Longrightarrow> 32 \<notin> set w \<Longrightarrow> words (w @ 32 # s) = w # words s"
  by (cases w) (simp_all add: split_word_append)

lemma words_spaces: "words (dropWhile (\<lambda>y. y = 32) s) = words s"
  by (induction s) auto

lemma words_append_space: "words (s @ 32 # t) = words s @ words t"
proof (induction s rule: words.induct)
  case (2 c s)
  show ?case
  proof (cases "snd (split_word s)")
    case Nil
    then have "32 \<notin> set s" "fst (split_word s) = s"
      using split_word_spec [of s] by (metis append_Nil2)+
    then show ?thesis
      using 2 Nil by (simp add: split_word_append)
  next
    case (Cons d r)
    then have s: "s = fst (split_word s) @ 32 # r" "32 \<notin> set (fst (split_word s))"
      using split_word_spec [of s] by auto
    then have "split_word (s @ 32 # t) = (fst (split_word s), 32 # (r @ 32 # t))"
      using split_word_append [of "fst (split_word s)" "r @ 32 # t"] by (metis append.assoc append_Cons)
    then show ?thesis
      using 2 Cons split_word_spec [of s] by (auto split: if_splits)
  qed
qed simp

lemma words_joined:
  "w \<noteq> [] \<Longrightarrow> 32 \<notin> set w \<Longrightarrow> \<forall>v \<in> set vs. v \<noteq> [] \<and> 32 \<notin> set v \<Longrightarrow> words (w @ concat (map (\<lambda>v. 32 # v) vs)) = w # vs"
proof (induction vs arbitrary: w)
  case (Cons v vs)
  then show ?case
    using Cons.IH [of v] words_Cons_word [of w "v @ concat (map (\<lambda>v. 32 # v) vs)"] by simp
qed (simp add: words_word)

lemma words_unwords: "\<forall>w \<in> set ws. w \<noteq> [] \<and> 32 \<notin> set w \<Longrightarrow> words (unwords ws) = ws"
  using words_joined by (cases ws) (simp_all add: unwords_def)

lemma words_drop_words: "words (drop_words c s) = filter (\<lambda>w. w \<noteq> c) (words s)"
proof (induction c s rule: drop_words.induct)
  case (2 c x s)
  show ?case
  proof (cases "x = 32")
    case False
    define w r where "w = x # fst (split_word s)" and "r = snd (split_word s)"
    have w: "w \<noteq> []" "32 \<notin> set w" "r = [] \<or> hd r = 32"
      using False split_word_spec [of s] by (auto simp: w_def r_def)
    have IH: "words (drop_words c (dropWhile (\<lambda>y. y = 32) r)) = filter (\<lambda>w. w \<noteq> c) (words r)"
      using 2(2) [OF False w_def r_def refl] words_spaces [of r] by simp
    have keep: "words (w @ takeWhile (\<lambda>y. y = 32) r @ u) = w # words u" if "r = [] \<Longrightarrow> u = []" for u
    proof (cases r)
      case Nil
      then show ?thesis
        using that w words_word by simp
    next
      case (Cons d r')
      have "words (takeWhile (\<lambda>y. y = 32) v @ u) = words u" for v
        by (induction v) auto
      then show ?thesis
        using Cons w words_Cons_word [of w "takeWhile (\<lambda>y. y = 32) r' @ u"] by simp
    qed
    show ?thesis
      using False IH keep [of "drop_words c (dropWhile (\<lambda>y. y = 32) r)"]
      by (simp add: Let_def flip: w_def r_def)
  qed (use 2 in simp)
qed simp

text \<open>
  Whether or not the browser has \<^verbatim>\<open>classList\<close>, adding a class adds exactly that name to the class
  attribute, and removing it removes exactly that name.
\<close>

theorem class_names_agree:
  assumes "c \<noteq> []" "32 \<notin> set c"
  shows "set (words (add_class cl c attr)) = insert c (set (words attr))"
    and "set (words (remove_class cl c attr)) = set (words attr) - {c}"
proof -
  have "words (attr @ [32] @ c) = words attr @ [c]"
    using words_append_space [of attr c] assms by (simp add: words_word)
  then show "set (words (add_class cl c attr)) = insert c (set (words attr))"
    using assms by (cases cl) (auto simp: add_class_def words_unwords words_no_space)
  have "words (unwords (filter (\<lambda>w. w \<noteq> c) (remdups (words attr)))) = filter (\<lambda>w. w \<noteq> c) (remdups (words attr))"
    using words_no_space by (intro words_unwords) auto
  then show "set (words (remove_class cl c attr)) = set (words attr) - {c}"
    by (cases cl) (auto simp: remove_class_def words_unwords words_no_space words_drop_words)
qed

lemma collapse_units: "c \<in> set (collapse s) \<Longrightarrow> alnum c \<or> c = 45"
  by (induction s rule: collapse.induct) (auto split: if_splits)

text \<open>A class name made from any name of a key or a modifier consists of lower case letters, digits and hyphens.\<close>

lemma css_name_units: "c \<in> set (get_css_name name) \<Longrightarrow> lower c \<or> 48 \<le> c \<and> c \<le> 57 \<or> c = 45"
  using collapse_units by (fastforce simp: get_css_name_def to_lower_def alnum_def lower_def upper_def split: if_splits)

subsection \<open>Modifiers\<close>

text \<open>
  How often a keysym was pressed more than released, and the modifiers that hold it.
\<close>

definition balance :: "keysym \<Rightarrow> osk_event list \<Rightarrow> int" where
  "balance ks evs = int (count_list evs (Key_down ks)) - int (count_list evs (Key_up ks))"

definition holders :: "keysym \<Rightarrow> osk \<Rightarrow> jsstring set" where
  "holders ks k = {m. modifier_keysyms k m = Some ks}"

definition only_modifiers :: "keysym \<Rightarrow> (jsstring \<rightharpoonup> osk_key list) \<Rightarrow> bool" where
  "only_modifiers ks keys \<longleftrightarrow> (\<forall>name l key. keys name = Some l \<and> key \<in> set l \<and> keysym key = ks \<longrightarrow> is_modifier key)"

definition osk_ok :: "keysym \<Rightarrow> osk \<Rightarrow> bool" where
  "osk_ok ks k \<longleftrightarrow> finite (dom (modifier_keysyms k)) \<and> balance ks (osk_events k) = int (card (holders ks k))"

lemma balance_snoc:
  "balance ks (evs @ [ev]) = balance ks evs + (if ev = Key_down ks then 1 else if ev = Key_up ks then -1 else 0)"
  by (auto simp: balance_def)

lemma finite_holders: "finite (dom (modifier_keysyms k)) \<Longrightarrow> finite (holders ks k)"
  by (rule finite_subset [of _ "dom (modifier_keysyms k)"]) (auto simp: holders_def)

lemma osk_ok_cong:
  "osk_events k' = osk_events k \<Longrightarrow> modifier_keysyms k' = modifier_keysyms k \<Longrightarrow> osk_ok ks k' = osk_ok ks k"
  by (simp add: osk_ok_def holders_def)

lemma osk_ok_report:
  assumes "osk_ok ks k" "ev \<noteq> Key_down ks" "ev \<noteq> Key_up ks"
  shows "osk_ok ks (report ev k)"
  using assms by (simp add: osk_ok_def report_def balance_snoc holders_def)

lemma toggle_modifier_ok:
  assumes ok: "osk_ok ks k" and ks: "meaningful ks"
  shows "osk_ok ks (toggle_modifier cl m ks' k)"
proof (cases "modifier_keysyms k m")
  case None
  have "{j. ((modifier_keysyms k)(m \<mapsto> ks')) j = Some ks} = (if ks' = ks then insert m (holders ks k) else holders ks k)"
    using None by (auto simp: holders_def)
  moreover have "m \<notin> holders ks k"
    using None by (simp add: holders_def)
  ultimately show ?thesis
    using ok ks finite_holders [of k ks]
    by (simp add: toggle_modifier_def None Let_def osk_ok_def report_def balance_snoc holders_def)
next
  case (Some original)
  have "{j. ((modifier_keysyms k)(m := None)) j = Some ks} = holders ks k - {m}"
    by (auto simp: holders_def)
  moreover have "int (card (holders ks k - {m})) = int (card (holders ks k)) - (if original = ks then 1 else 0)"
  proof (cases "original = ks")
    case True
    then have "m \<in> holders ks k"
      using Some by (simp add: holders_def)
    then show ?thesis
      using ok finite_holders [of k ks] True card_Suc_Diff1 [of "holders ks k" m] by (auto simp: osk_ok_def)
  next
    case False
    then have "m \<notin> holders ks k"
      using Some by (simp add: holders_def)
    then show ?thesis
      using False by simp
  qed
  ultimately show ?thesis
    using ok ks by (simp add: toggle_modifier_def Some Let_def osk_ok_def report_def balance_snoc holders_def)
qed

lemma active_key_class: "get_active_key (k\<lparr>element_class := c\<rparr>) name = get_active_key k name"
  by (cases "osk_keys k name") (simp_all add: get_active_key_def modifiers_pressed_def)

lemma osk_ok_fields [simp]:
  "osk_ok ks (k\<lparr>pressed := p\<rparr>) = osk_ok ks k" "osk_ok ks (k\<lparr>element_class := c\<rparr>) = osk_ok ks k"
  "osk_ok ks (k\<lparr>ignore_mouse := n\<rparr>) = osk_ok ks k"
  by (rule osk_ok_cong; simp)+

lemma active_key_listed:
  assumes "get_active_key k name = Some key"
  obtains l where "osk_keys k name = Some l" "key \<in> set l"
  using assms by (auto simp: get_active_key_def find_Some_iff split: option.splits) (metis nth_mem set_rev length_rev)

lemma press_ok:
  assumes ok: "osk_ok ks k" and ks: "meaningful ks" and only: "only_modifiers ks (osk_keys k)"
  shows "osk_ok ks (press cl name el k)"
proof (cases "pressed k name")
  case False
  let ?k = "k\<lparr>element_class := (element_class k)(el := add_class cl (js ''guac-keyboard-pressed'') (element_class k el))\<rparr>"
  have k: "osk_ok ks ?k" "get_active_key ?k name = get_active_key k name"
    using ok by (simp_all add: active_key_class)
  show ?thesis
  proof (cases "get_active_key k name")
    case None
    then show ?thesis
      using False k by (simp add: press_def Let_def osk_ok_report)
  next
    case (Some key)
    then have "is_modifier key \<or> keysym key \<noteq> ks"
      using only by (auto simp: only_modifiers_def elim: active_key_listed)
    then have "osk_ok ks (if is_modifier key then toggle_modifier cl (the (modifier key)) (keysym key) ?k
        else report (Key_down (keysym key)) ?k)"
      using toggle_modifier_ok [OF k(1) ks] osk_ok_report [OF k(1)] by auto
    then show ?thesis
      using False k(2) Some by (simp add: press_def Let_def split: if_splits)
  qed
qed (simp add: press_def ok)

lemma release_ok:
  assumes ok: "osk_ok ks k" and only: "only_modifiers ks (osk_keys k)"
  shows "osk_ok ks (release cl name el k)"
proof (cases "pressed k name")
  case True
  let ?k = "k\<lparr>element_class := (element_class k)(el := remove_class cl (js ''guac-keyboard-pressed'') (element_class k el))\<rparr>"
  have k: "osk_ok ks ?k" "get_active_key ?k name = get_active_key k name"
    using ok by (simp_all add: active_key_class)
  show ?thesis
  proof (cases "get_active_key k name")
    case None
    then show ?thesis
      using True k by (simp add: release_def Let_def osk_ok_report)
  next
    case (Some key)
    then have "is_modifier key \<or> keysym key \<noteq> ks"
      using only by (auto simp: only_modifiers_def elim: active_key_listed)
    then have "osk_ok ks (if is_modifier key then ?k else report (Key_up (keysym key)) ?k)"
      using k(1) osk_ok_report [OF k(1)] by auto
    then show ?thesis
      using True k(2) Some by (simp add: release_def Let_def split: if_splits)
  qed
qed (simp add: release_def ok)

lemma press_release_keys [simp]: "osk_keys (press cl name el k) = osk_keys k" "osk_keys (release cl name el k) = osk_keys k"
  by (auto simp: press_def release_def report_def toggle_modifier_def Let_def split: option.splits)

lemma osk_on_ok:
  assumes "osk_ok ks k" "meaningful ks" "only_modifiers ks (osk_keys k)"
  shows "osk_ok ks (osk_on cl i k) \<and> osk_keys (osk_on cl i k) = osk_keys k"
  using assms by (cases i) (auto simp: handle_mouse_events_def press_ok release_ok)

text \<open>
  (C33) Whatever is done with the keys, by mouse or by touch, a keysym that only modifier keys have is
  pressed at the server exactly as many times more than it is released as there are modifiers of the
  keyboard that hold it: a modifier stays down until it is pressed again and is then released with
  the keysym it was pressed with.
\<close>

theorem osk_modifiers_balanced:
  assumes "meaningful ks" "only_modifiers ks (get_keys (layout_keys l))"
  shows "let k = fold (osk_on cl) ins (new_osk l classes)
         in balance ks (osk_events k) = int (card {m. modifier_keysyms k m = Some ks})"
proof -
  have "osk_ok ks k \<Longrightarrow> osk_keys k = get_keys (layout_keys l) \<Longrightarrow> osk_ok ks (fold (osk_on cl) ins k)" for k
    using assms by (induction ins arbitrary: k) (auto simp: osk_on_ok)
  moreover have "osk_ok ks (new_osk l classes)" "osk_keys (new_osk l classes) = get_keys (layout_keys l)"
    by (simp_all add: osk_ok_def new_osk_def balance_def holders_def)
  ultimately show ?thesis
    by (simp add: osk_ok_def holders_def Let_def)
qed

subsection \<open>A small layout\<close>

definition shift_template :: key_template where
  "shift_template = \<lparr>t_name = None, t_title = Some (js ''Shift''), t_keysym = Some 65505, t_modifier = Some (js ''shift''), t_requires = []\<rparr>"

definition upper_a :: key_template where
  "upper_a = \<lparr>t_name = None, t_title = Some (js ''A''), t_keysym = None, t_modifier = None, t_requires = [js ''shift'']\<rparr>"

definition lower_a :: key_template where
  "lower_a = \<lparr>t_name = None, t_title = Some (js ''a''), t_keysym = None, t_modifier = None, t_requires = []\<rparr>"

definition small_layout :: osk_layout where
  "small_layout = \<lparr>layout_keys = [(js ''LShift'', Key_object shift_template), (js ''a'', Key_array [lower_a, upper_a])],
     layout_root = Row [Row [Key_ref (js ''LShift''), Gap (1 / 2), Key_ref (js ''a'')]], layout_width = 4,
     key_widths = [js ''LShift'' \<mapsto> 5 / 2]\<rparr>"

definition typed :: "osk_input list \<Rightarrow> osk" where
  "typed ins = fold (osk_on True) ins (new_osk small_layout (\<lambda>e. js ''guac-keyboard-key''))"

lemmas osk_eval = typed_def small_layout_def new_osk_def get_keys_def shift_template_def upper_a_def lower_a_def new_key_def
  or_string_def derive_keysym_def press_def release_def report_def get_active_key_def modifiers_pressed_def is_modifier_def
  toggle_modifier_def meaningful_def handle_mouse_events_def touch_mouse_threshold_def Let_def js_def

lemma shift_only_modifier: "only_modifiers (Some 65505) (get_keys (layout_keys small_layout))"
  by (auto simp: only_modifiers_def small_layout_def get_keys_def shift_template_def upper_a_def lower_a_def new_key_def
      or_string_def derive_keysym_def is_modifier_def Let_def js_def split: if_splits)

theorem osk_modifiers_balanced_witness:
  "let k = typed [Touch_press (js ''LShift'') 0, Touch_release (js ''LShift'') 0]
   in balance (Some 65505) (osk_events k) = 1 \<and> {m. modifier_keysyms k m = Some (Some 65505)} = {js ''shift''}"
proof -
  let ?k = "typed [Touch_press (js ''LShift'') 0, Touch_release (js ''LShift'') 0]"
  have "modifier_keysyms ?k = [js ''shift'' \<mapsto> Some 65505]"
    by (simp add: osk_eval)
  then have "{m. modifier_keysyms ?k m = Some (Some 65505)} = {js ''shift''}"
    by (auto split: if_splits)
  then show ?thesis
    using osk_modifiers_balanced [OF _ shift_only_modifier, of True "[Touch_press (js ''LShift'') 0, Touch_release (js ''LShift'') 0]"
        "\<lambda>e. js ''guac-keyboard-key''", folded typed_def]
    by (simp add: Let_def meaningful_def del: fold.simps)
qed

text \<open>A capital letter is typed by a touch on the shift key, on the letter, and on the shift key again.\<close>

lemma shift_types_capital:
  "osk_events (typed [Touch_press (js ''LShift'') 0, Touch_release (js ''LShift'') 0, Touch_press (js ''a'') 1,
     Touch_release (js ''a'') 1, Touch_press (js ''LShift'') 0, Touch_release (js ''LShift'') 0])
   = [Key_down (Some 65505), Key_down (Some 65), Key_up (Some 65), Key_up (Some 65505)]"
  by (simp add: osk_eval)

text \<open>
  A letter that is held while the shift key is touched is released with the keysym of the capital
  letter, so the small letter stays pressed at the server.
\<close>

theorem modifier_during_key_leaves_it_pressed:
  "osk_events (typed [Touch_press (js ''a'') 1, Touch_press (js ''LShift'') 0, Touch_release (js ''LShift'') 0, Touch_release (js ''a'') 1])
   = [Key_down (Some 97), Key_down (Some 65505), Key_up (Some 65)]"
  by (simp add: osk_eval)

subsection \<open>Resizing\<close>

text \<open>The unit is the largest multiple of a tenth of a pixel with which the layout fits into the width.\<close>

lemma resize_unit_fits:
  assumes "0 < layout_width l"
  shows "resize_unit l width * layout_width l \<le> width" and "width < (resize_unit l width + 1 / 10) * layout_width l"
proof -
  let ?q = "width * 10 / layout_width l"
  have "of_int \<lfloor>?q\<rfloor> \<le> ?q" "?q < of_int \<lfloor>?q\<rfloor> + 1"
    by (simp, linarith)
  then have "of_int \<lfloor>?q\<rfloor> * layout_width l \<le> width * 10" "width * 10 < (of_int \<lfloor>?q\<rfloor> + 1) * layout_width l"
    using assms by (simp_all add: le_divide_eq divide_less_eq)
  then show "resize_unit l width * layout_width l \<le> width" "width < (resize_unit l width + 1 / 10) * layout_width l"
    by (simp_all add: resize_unit_def algebra_simps)
qed

end
