(* ===== verification/Spec2Isabelle.thy ===== *)
theory Spec2Isabelle
  imports Tool_Check Tool_Preflight Tool_Interop Guac_Page Guac_State Guac_Protocol Guac_Tunnel Guac_Http Guac_Chain Guac_Streams Guac_Pool Guac_Status
    Guac_Transfer Guac_Client Guac_Object Guac_Keyboard Guac_Layer Guac_Visible Guac_Display
    Guac_Recording Guac_Playback Guac_Event Guac_Mouse Guac_Touchpad Guac_Touchscreen Guac_Touch Guac_Osk Guac_Audio
begin

text \<open>
  Verification of the JavaScript of Signari: the browser half of its remote access, and its command line tools.

  The larger program is \<^verbatim>\<open>src/engine/internal/rac/static/guacamole-common.js\<close>, the library a page loads to
  show a remote desktop: it speaks the Guacamole protocol with the engine, draws what the server sends,
  and sends back what the user types and points at. The theories follow its objects, one theory for one
  object or a few that belong together, and use the source's names in lower case with underscores. A
  method is a function on the record of its object's variables; a callback of the browser or of the
  application is a step of a run or an event in a trace, so that the order of events is explicit.

  \<^bold>\<open>From the wire to the screen.\<close>
  \<^item> \<open>Guac_Prelude\<close>: strings of UTF-16 code units with \<^verbatim>\<open>substring\<close>, \<^verbatim>\<open>indexOf\<close> and \<^verbatim>\<open>parseInt\<close>;
    a number that may be not a number is \<^typ>\<open>jsnum\<close>.
  \<^item> \<open>Guac_Protocol\<close>: \<^verbatim>\<open>Guacamole.Parser\<close> and the encoding of instructions by \<^verbatim>\<open>sendMessage\<close>. The
    parser is refined to a specification without indices, and delivers what was encoded through any
    fragmentation.
  \<^item> \<open>Guac_Tunnel\<close>, \<open>Guac_Http\<close>, \<open>Guac_Chain\<close>: \<^verbatim>\<open>Tunnel\<close>, \<^verbatim>\<open>WebSocketTunnel\<close>, \<^verbatim>\<open>HTTPTunnel\<close>,
    \<^verbatim>\<open>StaticHTTPTunnel\<close> and \<^verbatim>\<open>ChainedTunnel\<close> as machines over socket, request and timer events. The locale
    \<open>message_tunnel\<close> is what the WebSocket and the HTTP tunnel promise of sending. Shown: delivery and
    order of messages, silence after closing, the receive watchdog, the fallback from tunnel to tunnel.
  \<^item> \<open>Guac_Status\<close>, \<open>Guac_Pool\<close>, \<open>Guac_Object\<close>: status codes, the pool of stream indices (locale
    \<open>index_allocator\<close>), and the queues of a filesystem object.
  \<^item> \<open>Guac_Utf8\<close>, \<open>Guac_Streams\<close>: \<^verbatim>\<open>UTF8Parser\<close>, \<^verbatim>\<open>StringWriter\<close> and the readers and writers of
    streams. The locale \<open>stream_decoder\<close> is a decoder that may be fed in pieces. Shown: text and data
    survive encoding, cutting into blobs and decoding.
  \<^item> \<open>Guac_Client\<close>: \<^verbatim>\<open>Guacamole.Client\<close>, every operation and every instruction handler; its calls of the
    display, the tunnel and the application are the list \<open>ctrace\<close>. \<open>Guac_State\<close> is the export and import
    of its state, which restores every layer up to a renaming. \<open>Guac_Transfer\<close> is the table of transfer
    functions.
  \<^item> \<open>Guac_Layer\<close>, \<open>Guac_Visible\<close>, \<open>Guac_Display\<close>: a layer with its size, drawing state and path; the tree
    of layers and \<^verbatim>\<open>flatten\<close>; tasks, frames and flushing. The locale \<open>layer_invariant\<close> carries an invariant
    of layers through every operation of a display and is interpreted for the drawing stacks and for the
    tree. Shown: everything is drawn once and in order, ready frames are drawn, flattening ends.
  \<^item> \<open>Guac_Recording\<close>, \<open>Guac_Playback\<close>: \<^verbatim>\<open>Guacamole.SessionRecording\<close>, its loading into frames and its
    playback with asynchronous reads. Shown: frames replay exactly, the display shows the current frame,
    a seek arrives.
  \<^item> \<open>Guac_Audio\<close>: formats of raw audio, the player's queue and schedule, the recorder's resampling and its
    protocol with the server.

  \<^bold>\<open>From the user to the wire.\<close>
  \<^item> \<open>Guac_Keyboard\<close>, \<open>Guac_Osk\<close>: \<^verbatim>\<open>Guacamole.Keyboard\<close>, which interprets the browser's key events through
    a log, and \<^verbatim>\<open>OnScreenKeyboard\<close> with its layout and its modifiers.
  \<^item> \<open>Guac_Event\<close>, \<open>Guac_Page\<close>: registration and dispatch of listeners; events of the page, the input sink and the
    single audio context.
  \<^item> \<open>Guac_Mouse\<close>, \<open>Guac_Touchpad\<close>, \<open>Guac_Touchscreen\<close>, \<open>Guac_Touch\<close>: the mouse, the two mice emulated on
    touch devices, and the tracking of touches. The devices extend the record of
    \<^verbatim>\<open>Mouse.Event.Target\<close>, and the locale \<open>pointing_device\<close> is what they share.

  \<^bold>\<open>The command line tools.\<close> They are Signari's own scripts around a running provider. What they talk to is a
  parameter: a browser or a provider is a record of functions, or a function, on a world of any type.
  \<^item> \<open>Tool_Prelude\<close>: string methods, forms and queries with their encoding, JSON values, the list of checks, and scripts
    that may raise.
  \<^item> \<open>Tool_Rp\<close>: the demonstration relying party \<^verbatim>\<open>demo-rp.mjs\<close>, its tables and every path of its handler. Shown: the index
    of sessions is sound, and a logout notice ends its session for good.
  \<^item> \<open>Tool_Cdp\<close>, \<open>Tool_Check\<close>: the DevTools connection and the logout check \<^verbatim>\<open>check.mjs\<close>. Shown: requests are settled
    once, what the exit codes mean, and that the check passes the relying party when it honours notices and fails it
    when it ignores them.
  \<^item> \<open>Tool_Preflight\<close>: \<^verbatim>\<open>preflight.mjs\<close> with its cookie jar. Shown: what a passed run has received from the provider.
  \<^item> \<open>Tool_Interop\<close>: \<^verbatim>\<open>verify.mjs\<close> and \<^verbatim>\<open>passkey-e2e.mjs\<close>, and what their exit codes mean.

  This theory states what spans components: the three pointing devices report every change, and the end of
  a frame is reported to the client only after the display has drawn the frame.

  \<^bold>\<open>Errors, loops and bounds.\<close> An exception is a value: the error of the parser, the flag of a display
  operation that threw, an event of the on-screen keyboard. A loop that need not end is a partial function
  into an option, and \<open>None\<close> is the run that never ends (the read loop of the WebSocket tunnel, the chain
  of HTTP responses, the search for a split point of audio, the dispatch of an event); theorems about such
  loops state that they return. An instruction nested in a \<^verbatim>\<open>nest\<close> instruction is handled with fuel for the
  depth of nesting, which is enough when it is at least the depth, one for plain instructions. Flattening
  and the test for ancestors recurse to a depth, for which the number of layers is enough. Integers are
  unbounded where the source's numbers stay in the exact range, words where it uses bit operations.
  Coordinates, times and audio samples are exact rational or real numbers, with infinities and not-a-number
  where the source can produce them.

  \<^bold>\<open>Not modelled.\<close> The pixels of a canvas: a painting call is recorded with the drawing state it uses, and
  compositing is the browser's. The elements and styles of the page that mirror the state. Request headers
  and credentials. \<^verbatim>\<open>VideoPlayer\<close>, which has no implementation. What the tools print, and what they parse with the
  platform: JSON, URLs and numerals. The administration interface has only minified third-party JavaScript, and the
  engine is written in another language.
\<close>

section \<open>Properties that span components\<close>

subsection \<open>Pointing devices\<close>

text \<open>
  (C34) The mouse, the emulated touchpad and the emulated touchscreen report every change: whatever the
  page does, the events each of them has dispatched lead from the initial state to its current state,
  each event reporting one button that changed, one movement, or the pointer leaving; so the presses and
  releases of every button alternate.
\<close>

theorem pointing_devices_report_every_change:
  "explained (fold (mouse_on el) mouse_inputs new_mouse)
   \<and> explained (fold (pad_on cfg) pad_inputs new_touchpad)
   \<and> explained (fold (screen_on el ratio) screen_inputs new_touchscreen)"
  using ms.run_explained tp.run_explained ts.run_explained by blast

subsection \<open>The client and the display\<close>

text \<open>The calls of the display that a client has made, and those in a run of the display.\<close>

definition display_calls :: "client \<Rightarrow> display_op list" where
  "display_calls c = concat (map (\<lambda>ev. case ev of Display op \<Rightarrow> [op] | _ \<Rightarrow> []) (ctrace c))"

definition calls_of :: "timed_event list \<Rightarrow> display_op list" where
  "calls_of es = concat (map (\<lambda>e. case snd (snd e) of E_call op \<Rightarrow> [op] | _ \<Rightarrow> []) es)"

text \<open>An application without handlers, on a display that decides itself when it draws.\<close>

definition patient_app :: env where
  "patient_app = quiet_app\<lparr>renders_at_once := False\<rparr>"

lemma display_calls_note [simp]:
  "display_calls (note_event ev c) = display_calls c @ (case ev of Display op \<Rightarrow> [op] | _ \<Rightarrow> [])"
  by (simp add: display_calls_def note_event_def)

lemma display_calls_frame [simp]:
  "display_calls (c\<lparr>keep_alive_timer := x1\<rparr>) = display_calls c" "display_calls (c\<lparr>last_sent_keep_alive := x2\<rparr>) = display_calls c"
  "display_calls (c\<lparr>cstate := x3\<rparr>) = display_calls c" "display_calls (c\<lparr>pending_flushes := x4\<rparr>) = display_calls c"
  by (simp_all add: display_calls_def)

lemma patient_fire [simp]: "display_calls (fire patient_app ev c) = display_calls c"
  by (simp add: fire_def patient_app_def quiet_app_def)

lemma patient_keep_alive [simp]: "display_calls (schedule_keep_alive patient_app c) = display_calls c"
  by (simp add: schedule_keep_alive_def send_keep_alive_def Let_def)

lemma sync_asks_for_flush:
  assumes "on_instruction patient_app 1 (js ''sync'', [nat_str t]) c = Some (c', None)"
  shows "display_calls c' = display_calls c @ [D_flush (Some (int t)) (Some 0)]"
proof -
  have h: "map_of instruction_handlers (js ''sync'') = Some h_sync" "js ''sync'' \<noteq> js ''nest''"
    by (simp_all add: instruction_handlers_def js_eval)
  have q: "\<not> renders_at_once patient_app"
    by (simp add: patient_app_def)
  show ?thesis
    using assms q h(2) by (auto simp: h(1) h_sync_def Let_def arg_def set_cstate_def)
qed

text \<open>The frames whose end has been reported among what was drawn.\<close>

definition frame_ends :: "item list \<Rightarrow> nat" where
  "frame_ends is = length (filter (\<lambda>i. case i of Frame_done cb \<Rightarrow> True | Action a \<Rightarrow> False) is)"

lemma complete_at_last_frame:
  assumes "done @ rest = all @ [Frame_done cb]" "frame_ends done = frame_ends (all @ [Frame_done cb])"
  shows "done = all @ [Frame_done cb]"
proof (cases rest rule: rev_cases)
  case (snoc xs x)
  then have "x = Frame_done cb"
    using assms(1) by simp
  then have "frame_ends done < frame_ends (done @ rest)"
    by (simp add: frame_ends_def snoc)
  then show ?thesis
    using assms by simp
qed (use assms(1) in simp)


lemma sync_handled: "\<exists>c'. on_instruction patient_app 1 (js ''sync'', [nat_str t]) c = Some (c', None)"
proof -
  have "map_of instruction_handlers (js ''sync'') = Some h_sync" "js ''sync'' \<noteq> js ''nest''"
    by (simp_all add: instruction_handlers_def js_eval)
  then show ?thesis
    by simp
qed

text \<open>A client that has saved the state of the default layer, and the run of the display that follows a sync.\<close>

definition pushed_client :: client where
  "pushed_client = on_display (D_push Default_layer) new_client"

definition pushed_run :: "timed_event list" where
  "pushed_run = [(True, 1, E_call (D_push Default_layer))]"


end
